(* ===== verification/Prelude.thy ===== *)
theory Prelude
  imports
    Main
    "HOL-Library.AList"
    "HOL-Library.Multiset"
    "HOL-Library.List_Lexorder"
    "HOL-Library.Char_ord"
    "HOL-Library.Word"
begin

text \<open>
  What every component of the parparchik model shares: Go's basic types, Go's error values,
  Go's maps as association lists, and \<^verbatim>\<open>sort.Slice\<close> as a stable insertion sort with the
  lemma that makes the choice of a stable sort harmless where the order is total.

  A Go \<^verbatim>\<open>string\<close> or \<^verbatim>\<open>[]byte\<close> is a byte sequence, so both are \<^typ>\<open>string\<close> (a list of
  8-bit characters); \<^verbatim>\<open><\<close> on strings is the lexicographic order of the bytes, which is what
  \<open>List_Lexorder\<close> and \<open>Char_ord\<close> give.
  An \<^verbatim>\<open>int64\<close> (and a \<^verbatim>\<open>time.Duration\<close>) is a \<open>64 word\<close> read with \<open>sint\<close>; \<open>+\<close> and \<open>-\<close> wrap
  around as they do in Go.
\<close>

section \<open>Collections of facts\<close>

named_theorems gomap_simps \<open>lookups in updated Go maps\<close>
named_theorems go_string_simps \<open>evaluation of the string library\<close>

section \<open>Basic types\<close>

type_synonym bytes = string
type_synonym int64 = "64 word"
type_synonym duration = "64 word"

text \<open>Signed comparison of 64-bit integers, as Go compares \<^verbatim>\<open>int64\<close> values.\<close>

definition lt64 :: "int64 \<Rightarrow> int64 \<Rightarrow> bool" where
  "lt64 a b \<longleftrightarrow> sint a < sint b"

definition le64 :: "int64 \<Rightarrow> int64 \<Rightarrow> bool" where
  "le64 a b \<longleftrightarrow> sint a \<le> sint b"

text \<open>\<^verbatim>\<open>int64(len(b))\<close>.\<close>

definition len64 :: "'a list \<Rightarrow> int64" where
  "len64 xs = of_nat (length xs)"

section \<open>Errors\<close>

text \<open>
  A Go \<^verbatim>\<open>error\<close> value: a sentinel made by \<^verbatim>\<open>errors.New\<close>, a \<^verbatim>\<open>fmt.Errorf\<close> value kept as its
  format string, its plain arguments and the errors it wraps (\<^verbatim>\<open>%w\<close>), or \<^verbatim>\<open>errors.Join\<close>.
  \<open>errors_Is\<close> walks the chain as \<^verbatim>\<open>errors.Is\<close> does.
\<close>

datatype go_error =
    ErrorsNew string
  | Errorf string "string list" "go_error list"
  | ErrorsJoin "go_error list"

fun errors_Is :: "go_error \<Rightarrow> go_error \<Rightarrow> bool" where
  "errors_Is (ErrorsNew s) t = (ErrorsNew s = t)"
| "errors_Is (Errorf f as es) t = (Errorf f as es = t \<or> (\<exists>e \<in> set es. errors_Is e t))"
| "errors_Is (ErrorsJoin es) t = (ErrorsJoin es = t \<or> (\<exists>e \<in> set es. errors_Is e t))"

text \<open>\<^verbatim>\<open>errors.Join(errs...)\<close> is \<^verbatim>\<open>nil\<close> when there is nothing to join.\<close>

definition errors_Join :: "go_error list \<Rightarrow> go_error option" where
  "errors_Join es = (if es = [] then None else Some (ErrorsJoin es))"

section \<open>Go maps\<close>

text \<open>
  A Go map is an association list. Its order stands for one possible iteration order; a fact
  that must not depend on that order is stated for any two lists with the same lookups.
\<close>

type_synonym ('k, 'v) gomap = "('k \<times> 'v) list"

definition gm_get :: "('k, 'v) gomap \<Rightarrow> 'k \<Rightarrow> 'v option" where
  "gm_get m k = map_of m k"

definition gm_set :: "'k \<Rightarrow> 'v \<Rightarrow> ('k, 'v) gomap \<Rightarrow> ('k, 'v) gomap" where
  "gm_set k v m = AList.update k v m"

definition gm_del :: "'k \<Rightarrow> ('k, 'v) gomap \<Rightarrow> ('k, 'v) gomap" where
  "gm_del k m = AList.delete k m"

definition gm_ok :: "('k, 'v) gomap \<Rightarrow> bool" where
  "gm_ok m \<longleftrightarrow> distinct (map fst m)"

section \<open>sort.Slice\<close>

fun insort_less :: "('a \<Rightarrow> 'a \<Rightarrow> bool) \<Rightarrow> 'a \<Rightarrow> 'a list \<Rightarrow> 'a list" where
  "insort_less lt x [] = [x]"
| "insort_less lt x (y # ys) =
     (if lt y x then y # insort_less lt x ys else x # y # ys)"

definition sort_slice :: "('a \<Rightarrow> 'a \<Rightarrow> bool) \<Rightarrow> 'a list \<Rightarrow> 'a list" where
  "sort_slice lt xs = foldr (insort_less lt) xs []"

section \<open>Facts about Go maps\<close>

lemma gm_get_Nil [simp]: "gm_get [] k = None"
  by (simp add: gm_get_def)

lemma gm_get_Cons [simp]: "gm_get ((k', v) # m) k = (if k = k' then Some v else gm_get m k)"
  by (simp add: gm_get_def)

lemma gm_get_set [simp, gomap_simps]: "gm_get (gm_set k v m) k' = (if k' = k then Some v else gm_get m k')"
  by (simp add: gm_get_def gm_set_def update_conv)

lemma gm_get_del [simp, gomap_simps]: "gm_get (gm_del k m) k' = (if k' = k then None else gm_get m k')"
  by (simp add: gm_get_def gm_del_def delete_conv)

lemma gm_ok_Nil [simp, intro]: "gm_ok []"
  by (simp add: gm_ok_def)

lemma gm_ok_set [simp, intro]: "gm_ok m \<Longrightarrow> gm_ok (gm_set k v m)"
  by (simp add: gm_ok_def gm_set_def distinct_update)

lemma gm_ok_del [simp, intro]: "gm_ok m \<Longrightarrow> gm_ok (gm_del k m)"
  by (simp add: gm_ok_def gm_del_def distinct_delete)

lemma gm_get_in_set: "gm_ok m \<Longrightarrow> gm_get m k = Some v \<longleftrightarrow> (k, v) \<in> set m"
  by (simp add: gm_ok_def gm_get_def)

lemma gm_set_eval [simp]:
  "gm_set k v [] = [(k, v)]"
  "gm_set k v ((k', v') # m) = (if k' = k then (k, v) # m else (k', v') # gm_set k v m)"
  by (simp_all add: gm_set_def)

lemma gm_del_eval [simp]:
  "gm_del k [] = []"
  "gm_del k ((k', v') # m) = (if k' = k then gm_del k m else (k', v') # gm_del k m)"
  by (simp_all add: gm_del_def)

lemma gm_same_lookup_perm:
  assumes "gm_ok m" and "gm_ok m'" and "\<And>k. gm_get m k = gm_get m' k"
  shows "mset m = mset m'"
proof -
  have "set m = set m'"
    using assms gm_get_in_set [OF assms(1)] gm_get_in_set [OF assms(2)] by auto
  moreover have "distinct m" and "distinct m'"
    using assms by (auto simp: gm_ok_def distinct_map)
  ultimately show ?thesis
    by (simp add: set_eq_iff_mset_eq_distinct)
qed

section \<open>Facts about lists\<close>

lemma find_append:
  "List.find P (xs @ ys) = (case List.find P xs of None \<Rightarrow> List.find P ys | Some x \<Rightarrow> Some x)"
  by (induction xs) auto

lemma find_None_notin: "List.find P xs = None \<longleftrightarrow> (\<forall>x \<in> set xs. \<not> P x)"
  by (auto simp: find_None_iff)

lemma find_Some_in: "List.find P xs = Some x \<Longrightarrow> x \<in> set xs \<and> P x"
  by (auto simp: find_Some_iff)

section \<open>Facts about sort.Slice\<close>

lemma mset_insort_less [simp]: "mset (insort_less lt x xs) = add_mset x (mset xs)"
  by (induction xs) auto

lemma mset_sort_slice [simp]: "mset (sort_slice lt xs) = mset xs"
  by (induction xs) (auto simp: sort_slice_def)

lemma set_insort_less [simp]: "set (insort_less lt x xs) = insert x (set xs)"
  by (metis mset_insort_less set_mset_add_mset_insert set_mset_mset)

lemma set_sort_slice [simp]: "set (sort_slice lt xs) = set xs"
  by (metis mset_sort_slice set_mset_mset)

lemma length_sort_slice [simp]: "length (sort_slice lt xs) = length xs"
  by (metis mset_sort_slice size_mset)

lemma distinct_sort_slice [simp]: "distinct (sort_slice lt xs) = distinct xs"
  by (rule mset_eq_imp_distinct_iff) simp

text \<open>
  The interface of a comparator handed to \<^verbatim>\<open>sort.Slice\<close>: Go documents that it must be a
  strict weak order. Every comparator of the program interprets this locale.
\<close>

locale strict_weak_order =
  fixes lt :: "'a \<Rightarrow> 'a \<Rightarrow> bool"
  assumes lt_asym: "lt x y \<Longrightarrow> \<not> lt y x"
    and lt_negtrans: "\<not> lt x y \<Longrightarrow> \<not> lt y z \<Longrightarrow> \<not> lt x z"
begin

lemma sorted_insort_less:
  "sorted_wrt (\<lambda>a b. \<not> lt b a) xs \<Longrightarrow> sorted_wrt (\<lambda>a b. \<not> lt b a) (insort_less lt x xs)"
proof (induction xs)
  case Nil
  then show ?case by simp
next
  case (Cons y ys)
  show ?case
  proof (cases "lt y x")
    case True
    with Cons show ?thesis by (auto dest: lt_asym)
  next
    case False
    then have "\<not> lt z x" if "z \<in> set (y # ys)" for z
      using that Cons.prems lt_negtrans [of z y x] by auto
    with False Cons.prems show ?thesis by auto
  qed
qed

lemma sorted_slice: "sorted_wrt (\<lambda>a b. \<not> lt b a) (sort_slice lt xs)"
  by (induction xs) (auto simp: sort_slice_def sorted_insort_less)

lemma slice_unique:
  assumes "mset xs = mset ys"
    and "sorted_wrt (\<lambda>a b. \<not> lt b a) xs" and "sorted_wrt (\<lambda>a b. \<not> lt b a) ys"
    and "\<And>a b. a \<in> set xs \<Longrightarrow> b \<in> set xs \<Longrightarrow> \<not> lt a b \<Longrightarrow> \<not> lt b a \<Longrightarrow> a = b"
  shows "xs = ys"
  using assms
proof (induction xs arbitrary: ys)
  case Nil
  then show ?case by simp
next
  case (Cons x xs)
  from Cons.prems(1) obtain y ys' where ys: "ys = y # ys'"
    by (cases ys) auto
  have mem: "set (x # xs) = set (y # ys')"
    using mset_eq_setD [OF Cons.prems(1)] ys by simp
  have "x = y"
  proof (rule ccontr)
    assume "x \<noteq> y"
    with mem have "y \<in> set xs" and "x \<in> set ys'" by auto
    with Cons.prems(2,3) ys have "\<not> lt y x" and "\<not> lt x y" by auto
    with Cons.prems(4) [of x y] \<open>y \<in> set xs\<close> \<open>x \<noteq> y\<close> show False by auto
  qed
  moreover have "xs = ys'"
    using Cons.IH [of ys'] Cons.prems ys \<open>x = y\<close> by auto
  ultimately show ?case by (simp add: ys)
qed

lemma any_sort_is_sort_slice:
  assumes "mset ys = mset xs" and "sorted_wrt (\<lambda>a b. \<not> lt b a) ys"
    and "\<And>a b. a \<in> set xs \<Longrightarrow> b \<in> set xs \<Longrightarrow> \<not> lt a b \<Longrightarrow> \<not> lt b a \<Longrightarrow> a = b"
  shows "ys = sort_slice lt xs"
  using assms by (intro slice_unique) (auto simp: sorted_slice dest: mset_eq_setD)

end

text \<open>Comparators that compare one linearly ordered field with \<open><\<close>.\<close>

lemma strict_weak_order_field: "strict_weak_order (\<lambda>a b. (f a :: 'b :: linorder) < f b)"
  by unfold_locales auto

end
