(* ===== verification/Go_Strings.thy ===== *)
theory Go_Strings
  imports Prelude
begin

text \<open>
  The part of Go's \<^verbatim>\<open>strings\<close>, \<^verbatim>\<open>unicode\<close> and \<^verbatim>\<open>unicode/utf8\<close> packages the program uses, on byte
  strings, with the laws the parsers of the program rest on: splitting and joining are inverse,
  a prefix that was put on is cut off again, a cut at a separator gives back both sides.
  A separator of \<open>Split\<close> is one byte, as in every call of the program.
\<close>

section \<open>Prefixes and suffixes\<close>

definition HasPrefix :: "string \<Rightarrow> string \<Rightarrow> bool" where
  "HasPrefix s p \<longleftrightarrow> take (length p) s = p"

definition TrimPrefix :: "string \<Rightarrow> string \<Rightarrow> string" where
  "TrimPrefix s p = (if HasPrefix s p then drop (length p) s else s)"

definition CutPrefix :: "string \<Rightarrow> string \<Rightarrow> string option" where
  "CutPrefix s p = (if HasPrefix s p then Some (drop (length p) s) else None)"

definition HasSuffix :: "string \<Rightarrow> string \<Rightarrow> bool" where
  "HasSuffix s p \<longleftrightarrow> length p \<le> length s \<and> drop (length s - length p) s = p"

definition TrimSuffix :: "string \<Rightarrow> string \<Rightarrow> string" where
  "TrimSuffix s p = (if HasSuffix s p then take (length s - length p) s else s)"

definition CutSuffix :: "string \<Rightarrow> string \<Rightarrow> string option" where
  "CutSuffix s p = (if HasSuffix s p then Some (take (length s - length p) s) else None)"

text \<open>\<^verbatim>\<open>strings.TrimLeft\<close> and \<^verbatim>\<open>strings.TrimRight\<close> with a cutset of one byte.\<close>

definition TrimLeft :: "string \<Rightarrow> char \<Rightarrow> string" where
  "TrimLeft s c = dropWhile (\<lambda>x. x = c) s"

definition TrimRight :: "string \<Rightarrow> char \<Rightarrow> string" where
  "TrimRight s c = rev (dropWhile (\<lambda>x. x = c) (rev s))"

section \<open>Searching, cutting, splitting, joining\<close>

fun Index :: "string \<Rightarrow> string \<Rightarrow> nat option" where
  "Index [] sub = (if sub = [] then Some 0 else None)"
| "Index (c # cs) sub =
     (if HasPrefix (c # cs) sub then Some 0 else map_option Suc (Index cs sub))"

fun LastIndex :: "string \<Rightarrow> string \<Rightarrow> nat option" where
  "LastIndex [] sub = (if sub = [] then Some 0 else None)"
| "LastIndex (c # cs) sub =
     (case LastIndex cs sub of
        Some i \<Rightarrow> Some (Suc i)
      | None \<Rightarrow> if HasPrefix (c # cs) sub then Some 0 else None)"

definition Contains :: "string \<Rightarrow> string \<Rightarrow> bool" where
  "Contains s sub \<longleftrightarrow> Index s sub \<noteq> None"

text \<open>\<^verbatim>\<open>strings.Cut\<close>: \<open>None\<close> is \<^verbatim>\<open>found == false\<close>.\<close>

definition Cut :: "string \<Rightarrow> string \<Rightarrow> (string \<times> string) option" where
  "Cut s sep = (case Index s sep of
     None \<Rightarrow> None
   | Some i \<Rightarrow> Some (take i s, drop (i + length sep) s))"

fun Split :: "string \<Rightarrow> char \<Rightarrow> string list" where
  "Split [] c = [[]]"
| "Split (x # xs) c =
     (if x = c then [] # Split xs c
      else (case Split xs c of [] \<Rightarrow> [[x]] | y # ys \<Rightarrow> (x # y) # ys))"

fun Join :: "string list \<Rightarrow> string \<Rightarrow> string" where
  "Join [] sep = []"
| "Join [x] sep = x"
| "Join (x # y # ys) sep = x @ sep @ Join (y # ys) sep"

section \<open>Runes\<close>

text \<open>Bytes and runes are numbers (\<^verbatim>\<open>rune\<close> is an \<^verbatim>\<open>int32\<close>), so that they evaluate in binary.\<close>

definition code :: "char \<Rightarrow> int" where
  "code c = of_char c"

definition byte_in :: "int \<Rightarrow> int \<Rightarrow> char \<Rightarrow> bool" where
  "byte_in lo hi c \<longleftrightarrow> lo \<le> code c \<and> code c \<le> hi"

text \<open>\<^verbatim>\<open>utf8.RuneError\<close>, the rune an invalid byte decodes to.\<close>

definition RuneError :: int where
  "RuneError = 65533"

text \<open>
  \<^verbatim>\<open>utf8.DecodeRune\<close> on the bytes \<open>b # s\<close>: the rune and the number of bytes of \<open>s\<close> it takes up.
  An invalid or truncated sequence is \<^verbatim>\<open>RuneError\<close> and takes one byte.
\<close>

definition rune_at :: "char \<Rightarrow> string \<Rightarrow> int \<times> nat" where
  "rune_at b s =
     (let c = code b in
      if c < 128 then (c, 0)
      else if 194 \<le> c \<and> c \<le> 223 then
        (case s of
           b1 # _ \<Rightarrow> if byte_in 128 191 b1 then ((c - 192) * 64 + (code b1 - 128), 1) else (RuneError, 0)
         | [] \<Rightarrow> (RuneError, 0))
      else if 224 \<le> c \<and> c \<le> 239 then
        (case s of
           b1 # b2 # _ \<Rightarrow>
             if byte_in (if c = 224 then 160 else 128) (if c = 237 then 159 else 191) b1 \<and> byte_in 128 191 b2
             then ((c - 224) * 4096 + (code b1 - 128) * 64 + (code b2 - 128), 2) else (RuneError, 0)
         | _ \<Rightarrow> (RuneError, 0))
      else if 240 \<le> c \<and> c \<le> 244 then
        (case s of
           b1 # b2 # b3 # _ \<Rightarrow>
             if byte_in (if c = 240 then 144 else 128) (if c = 244 then 143 else 191) b1
                \<and> byte_in 128 191 b2 \<and> byte_in 128 191 b3
             then ((c - 240) * 262144 + (code b1 - 128) * 4096 + (code b2 - 128) * 64 + (code b3 - 128), 3)
             else (RuneError, 0)
         | _ \<Rightarrow> (RuneError, 0))
      else (RuneError, 0))"

text \<open>The runes of a string in order, each with the bytes it was decoded from: \<^verbatim>\<open>for _, r := range s\<close>.\<close>

fun Runes :: "string \<Rightarrow> (int \<times> string) list" where
  "Runes [] = []"
| "Runes (b # s) = (let (r, n) = rune_at b s in (r, b # take n s) # Runes (drop n s))"

text \<open>\<^verbatim>\<open>unicode.IsSpace\<close> and \<^verbatim>\<open>unicode.IsControl\<close> (the Unicode category Cc).\<close>

definition IsSpace :: "int \<Rightarrow> bool" where
  "IsSpace r \<longleftrightarrow> r \<in> {9, 10, 11, 12, 13, 32, 133, 160, 5760, 8232, 8233, 8239, 8287, 12288}
                 \<or> (8192 \<le> r \<and> r \<le> 8202)"

definition IsControl :: "int \<Rightarrow> bool" where
  "IsControl r \<longleftrightarrow> (0 \<le> r \<and> r \<le> 31) \<or> (127 \<le> r \<and> r \<le> 159)"

definition TrimSpace :: "string \<Rightarrow> string" where
  "TrimSpace s =
     concat (map snd
       (rev (dropWhile (\<lambda>p. IsSpace (fst p)) (rev (dropWhile (\<lambda>p. IsSpace (fst p)) (Runes s))))))"

section \<open>Laws of prefixes and suffixes\<close>

lemma HasPrefix_iff: "HasPrefix s p \<longleftrightarrow> (\<exists>t. s = p @ t)"
  by (auto simp: HasPrefix_def) (metis append_take_drop_id)

lemma HasPrefix_append [simp]: "HasPrefix (p @ s) p"
  by (simp add: HasPrefix_def)

lemma HasPrefix_Nil [simp]: "HasPrefix s []" "HasPrefix [] p \<longleftrightarrow> p = []"
  by (auto simp: HasPrefix_def)

lemma HasPrefix_Cons [simp]: "HasPrefix (x # s) (y # p) \<longleftrightarrow> x = y \<and> HasPrefix s p"
  by (auto simp: HasPrefix_def)

lemma TrimPrefix_append [simp]: "TrimPrefix (p @ s) p = s"
  by (simp add: TrimPrefix_def)

lemma TrimPrefix_Cons [simp]: "TrimPrefix (c # s) [c] = s"
  by (simp add: TrimPrefix_def HasPrefix_def)

lemma CutPrefix_append [simp]: "CutPrefix (p @ s) p = Some s"
  by (simp add: CutPrefix_def)

lemma CutPrefix_Some: "CutPrefix s p = Some t \<longleftrightarrow> s = p @ t"
  by (auto simp: CutPrefix_def HasPrefix_iff)

lemma CutPrefix_None: "CutPrefix s p = None \<longleftrightarrow> \<not> HasPrefix s p"
  by (simp add: CutPrefix_def)

lemma HasSuffix_iff: "HasSuffix s p \<longleftrightarrow> (\<exists>t. s = t @ p)"
  by (auto simp: HasSuffix_def) (metis append_take_drop_id)

lemma CutSuffix_append [simp]: "CutSuffix (s @ p) p = Some s"
  by (simp add: CutSuffix_def HasSuffix_def)

lemma CutSuffix_Some: "CutSuffix s p = Some t \<longleftrightarrow> s = t @ p"
  by (auto simp: CutSuffix_def HasSuffix_iff)

lemma TrimSuffix_append [simp]: "TrimSuffix (s @ p) p = s"
  by (simp add: TrimSuffix_def HasSuffix_def)

section \<open>Laws of searching and cutting\<close>

lemma Index_single_None: "Index s [c] = None \<longleftrightarrow> c \<notin> set s"
  by (induction s) auto

lemma Index_single_Some:
  "Index s [c] = Some i \<longleftrightarrow> i < length s \<and> s ! i = c \<and> c \<notin> set (take i s)"
proof (induction s arbitrary: i)
  case Nil
  then show ?case by simp
next
  case (Cons x s)
  then show ?case by (cases i) auto
qed

lemma Index_single_append [simp]: "c \<notin> set a \<Longrightarrow> Index (a @ c # b) [c] = Some (length a)"
  by (simp add: Index_single_Some)

lemma Cut_single_append [simp]: "c \<notin> set a \<Longrightarrow> Cut (a @ c # b) [c] = Some (a, b)"
  by (simp add: Cut_def)

lemma Cut_single_None: "Cut s [c] = None \<longleftrightarrow> c \<notin> set s"
  by (simp add: Cut_def Index_single_None [symmetric] split: option.splits)

lemma Cut_single_Some: "Cut s [c] = Some (a, b) \<longleftrightarrow> s = a @ c # b \<and> c \<notin> set a"
proof
  assume "Cut s [c] = Some (a, b)"
  then obtain i where i: "Index s [c] = Some i" and "a = take i s" "b = drop (Suc i) s"
    by (auto simp: Cut_def split: option.splits)
  moreover from i have "s = take i s @ c # drop (Suc i) s" and "c \<notin> set (take i s)"
    by (auto simp: Index_single_Some id_take_nth_drop)
  ultimately show "s = a @ c # b \<and> c \<notin> set a" by simp
qed auto

lemma LastIndex_single_None: "LastIndex s [c] = None \<longleftrightarrow> c \<notin> set s"
  by (induction s) (auto split: option.splits)

lemma LastIndex_single_append [simp]: "c \<notin> set b \<Longrightarrow> LastIndex (a @ c # b) [c] = Some (length a)"
proof (induction a)
  case Nil
  then have "LastIndex b [c] = None" by (simp add: LastIndex_single_None)
  then show ?case by simp
qed simp

lemma LastIndex_bound: "LastIndex s sub = Some i \<Longrightarrow> i + length sub \<le> length s \<and> take (length sub) (drop i s) = sub"
proof (induction s arbitrary: i)
  case Nil
  then show ?case by (simp split: if_splits)
next
  case (Cons c s)
  show ?case
  proof (cases "LastIndex s sub")
    case None
    with Cons.prems have "i = 0" and "HasPrefix (c # s) sub" by (auto split: if_splits)
    moreover from this obtain t where "c # s = sub @ t" by (auto simp: HasPrefix_iff)
    then have "length (c # s) = length sub + length t" by simp
    ultimately show ?thesis by (simp add: HasPrefix_def)
  next
    case (Some j)
    with Cons.prems have "i = Suc j" by simp
    with Cons.IH [OF Some] show ?thesis by simp
  qed
qed

section \<open>Laws of splitting and joining\<close>

lemma Split_not_Nil [simp]: "Split s c \<noteq> []"
  by (induction s) (auto split: list.splits)

lemma Split_free: "c \<notin> set s \<Longrightarrow> Split s c = [s]"
  by (induction s) auto

lemma Split_append_sep: "c \<notin> set a \<Longrightarrow> Split (a @ c # b) c = a # Split b c"
  by (induction a) auto

lemma Split_parts_free: "p \<in> set (Split s c) \<Longrightarrow> c \<notin> set p"
proof (induction s arbitrary: p)
  case Nil
  then show ?case by simp
next
  case (Cons x s)
  then show ?case by (cases "Split s c") (auto split: if_splits)
qed

lemma Join_Cons: "ys \<noteq> [] \<Longrightarrow> Join (x # ys) sep = x @ sep @ Join ys sep"
  by (cases ys) auto

lemma Join_append:
  "xs \<noteq> [] \<Longrightarrow> ys \<noteq> [] \<Longrightarrow> Join (xs @ ys) sep = Join xs sep @ sep @ Join ys sep"
proof (induction xs)
  case (Cons x xs)
  then show ?case by (cases "xs = []") (simp_all add: Join_Cons)
qed simp

lemma Join_Split [simp]: "Join (Split s c) [c] = s"
proof (induction s)
  case Nil
  then show ?case by simp
next
  case (Cons x s)
  show ?case
  proof (cases "x = c")
    case True
    with Cons show ?thesis by (simp add: Join_Cons)
  next
    case False
    obtain y ys where "Split s c = y # ys" by (cases "Split s c") auto
    with False Cons show ?thesis by (cases ys) auto
  qed
qed

lemma Split_Join:
  "xs \<noteq> [] \<Longrightarrow> (\<And>x. x \<in> set xs \<Longrightarrow> c \<notin> set x) \<Longrightarrow> Split (Join xs [c]) c = xs"
proof (induction xs)
  case (Cons x xs)
  show ?case
  proof (cases "xs = []")
    case True
    with Cons.prems show ?thesis by (simp add: Split_free)
  next
    case False
    with Cons show ?thesis by (simp add: Join_Cons Split_append_sep)
  qed
qed simp

lemma Split_append: "Split (a @ c # b) c = Split a c @ Split b c"
proof (induction a)
  case (Cons x a)
  then show ?case by (cases "Split a c") auto
qed simp

section \<open>Laws of runes\<close>

lemma concat_Runes [simp]: "concat (map snd (Runes s)) = s"
  by (induction s rule: Runes.induct) (auto simp: Let_def split: prod.splits)

lemma rune_at_ascii: "code b < 128 \<Longrightarrow> rune_at b s = (code b, 0)"
  by (simp add: rune_at_def Let_def)

lemma Runes_ascii: "(\<And>c. c \<in> set s \<Longrightarrow> code c < 128) \<Longrightarrow> Runes s = map (\<lambda>c. (code c, [c])) s"
  by (induction s) (auto simp: rune_at_ascii)

lemma TrimSpace_Nil [simp]: "TrimSpace [] = []"
  by (simp add: TrimSpace_def)

text \<open>A string whose first and last runes are not white space is left alone.\<close>

definition no_outer_space :: "string \<Rightarrow> bool" where
  "no_outer_space s \<longleftrightarrow>
     (case Runes s of [] \<Rightarrow> True | ps \<Rightarrow> \<not> IsSpace (fst (hd ps)) \<and> \<not> IsSpace (fst (last ps)))"

lemma TrimSpace_id:
  assumes "no_outer_space s" shows "TrimSpace s = s"
proof (cases "Runes s")
  case Nil
  then have "s = []" using concat_Runes [of s] by simp
  then show ?thesis by simp
next
  case (Cons p ps)
  with assms have "\<not> IsSpace (fst (hd (Runes s)))" and l: "\<not> IsSpace (fst (last (Runes s)))"
    by (auto simp: no_outer_space_def)
  then have "dropWhile (\<lambda>p. IsSpace (fst p)) (Runes s) = Runes s"
    using Cons by simp
  moreover have "dropWhile (\<lambda>p. IsSpace (fst p)) (rev (Runes s)) = rev (Runes s)"
    using l Cons by (cases "rev (Runes s)") (auto simp: last_rev hd_rev [symmetric])
  ultimately show ?thesis by (simp add: TrimSpace_def)
qed

lemma TrimSpace_no_outer_ascii:
  assumes "\<And>c. c \<in> set s \<Longrightarrow> code c < 128 \<and> \<not> IsSpace (code c)"
  shows "TrimSpace s = s"
  using assms by (intro TrimSpace_id) (auto simp: no_outer_space_def Runes_ascii last_map split: list.splits)

end
