(* ===== verification/Go_Time.thy ===== *)
theory Go_Time
  imports Go_Strings
begin

text \<open>
  The part of Go's \<^verbatim>\<open>strconv\<close> and \<^verbatim>\<open>time\<close> packages the program uses.
  An instant (\<^verbatim>\<open>time.Time\<close>) is the number of nanoseconds since 0001-01-01T00:00:00Z, the zero
  value of \<^verbatim>\<open>time.Time\<close>, as an \<^typ>\<open>int\<close>; a \<^verbatim>\<open>time.Duration\<close> is an \<^typ>\<open>int64\<close> number of nanoseconds and
  \<^verbatim>\<open>Sub\<close> saturates at the ends of its range.
  \<open>time_Parse\<close> follows \<^verbatim>\<open>time.Parse\<close> with the layout \<^verbatim>\<open>time.RFC3339\<close>, the leniencies of Go's
  parser included: a one-digit hour, a fraction of a second of any length after a dot or a comma.
  Floating point enters in two places only, both arguments here: \<^verbatim>\<open>strconv.ParseFloat\<close> (the bits
  of the result) and the fraction step of \<^verbatim>\<open>time.ParseDuration\<close>.
\<close>

section \<open>Digits\<close>

definition is_digit :: "char \<Rightarrow> bool" where
  "is_digit c \<longleftrightarrow> byte_in 48 57 c"

definition digit_val :: "char \<Rightarrow> int" where
  "digit_val c = code c - 48"

definition digits_val :: "string \<Rightarrow> int" where
  "digits_val s = foldl (\<lambda>n c. n * 10 + digit_val c) 0 s"

section \<open>strconv.Atoi\<close>

definition min64 :: int where "min64 = - (2 ^ 63)"
definition max64 :: int where "max64 = 2 ^ 63 - 1"

definition err_syntax :: go_error where
  "err_syntax = ErrorsNew ''invalid syntax''"

definition err_range :: go_error where
  "err_range = ErrorsNew ''value out of range''"

definition Atoi :: "string \<Rightarrow> go_error + int" where
  "Atoi s =
     (let neg = HasPrefix s ''-'';
          ds = (if HasPrefix s ''-'' \<or> HasPrefix s ''+'' then tl s else s)
      in if ds = [] \<or> \<not> list_all is_digit ds
         then Inl (Errorf ''strconv.Atoi: parsing %q: %w'' [s] [err_syntax])
         else let n = (if neg then - digits_val ds else digits_val ds)
              in if n < min64 \<or> max64 < n
                 then Inl (Errorf ''strconv.Atoi: parsing %q: %w'' [s] [err_range])
                 else Inr n)"

section \<open>Floating point, as arguments\<close>

record go_float =
  ParseFloat :: "string \<Rightarrow> go_error + 64 word"
  \<comment> \<open>\<^verbatim>\<open>uint64(float64(f) * (float64(unit) / 10^k))\<close>\<close>
  fracScale :: "int \<Rightarrow> int \<Rightarrow> nat \<Rightarrow> int"

section \<open>time.ParseDuration\<close>

definition err_duration :: "string \<Rightarrow> go_error" where
  "err_duration s = Errorf ''time: invalid duration %s'' [s] []"

text \<open>\<^verbatim>\<open>leadingInt\<close>: \<open>None\<close> on overflow.\<close>

fun leadingInt :: "int \<Rightarrow> string \<Rightarrow> (int \<times> string) option" where
  "leadingInt x [] = Some (x, [])"
| "leadingInt x (c # s) =
     (if \<not> is_digit c then Some (x, c # s)
      else if x > 2 ^ 63 div 10 then None
      else let y = x * 10 + digit_val c in if y > 2 ^ 63 then None else leadingInt y s)"

text \<open>\<^verbatim>\<open>leadingFraction\<close>: the digits read, the number of decimal places they fill, the rest.\<close>

fun leadingFraction :: "bool \<Rightarrow> int \<Rightarrow> nat \<Rightarrow> string \<Rightarrow> int \<times> nat \<times> string" where
  "leadingFraction ovf x k [] = (x, k, [])"
| "leadingFraction ovf x k (c # s) =
     (if \<not> is_digit c then (x, k, c # s)
      else if ovf then leadingFraction True x k s
      else if x > (2 ^ 63 - 1) div 10 then leadingFraction True x k s
      else let y = x * 10 + digit_val c
           in if y > 2 ^ 63 then leadingFraction True x k s
              else leadingFraction False y (Suc k) s)"

definition unitMap :: "(string \<times> int) list" where
  "unitMap =
     [(''ns'', 1), (''us'', 1000),
      ([CHR 0xC2, CHR 0xB5, CHR ''s''], 1000), ([CHR 0xCE, CHR 0xBC, CHR ''s''], 1000),
      (''ms'', 1000000), (''s'', 1000000000), (''m'', 60000000000), (''h'', 3600000000000)]"

text \<open>
  One round of the loop of \<^verbatim>\<open>ParseDuration\<close>: a number, its fraction and its unit. \<open>None\<close> is any of
  the error returns, which all report the whole input.
\<close>

definition duration_term :: "go_float \<Rightarrow> string \<Rightarrow> (int \<times> string) option" where
  "duration_term fl s =
     (if s = [] \<or> \<not> (hd s = CHR ''.'' \<or> is_digit (hd s)) then None
      else case leadingInt 0 s of
        None \<Rightarrow> None
      | Some (v, s1) \<Rightarrow>
          (let pre = (length s1 \<noteq> length s);
               (f, k, s2, post) =
                 (if s1 \<noteq> [] \<and> hd s1 = CHR ''.''
                  then let (f, k, r) = leadingFraction False 0 0 (tl s1)
                       in (f, k, r, length r \<noteq> length (tl s1))
                  else (0, 0, s1, False));
               u = takeWhile (\<lambda>c. \<not> (c = CHR ''.'' \<or> is_digit c)) s2;
               s3 = dropWhile (\<lambda>c. \<not> (c = CHR ''.'' \<or> is_digit c)) s2
           in if \<not> pre \<and> \<not> post then None
              else if u = [] then None
              else case map_of unitMap u of
                None \<Rightarrow> None
              | Some unit \<Rightarrow>
                  if v > 2 ^ 63 div unit then None
                  else let v' = (if f > 0 then v * unit + fracScale fl f unit k else v * unit)
                       in if f > 0 \<and> v' > 2 ^ 63 then None else Some (v', s3)))"

text \<open>
  The loop, with fuel: every round that does not fail consumes at least one byte, so the length
  of the input is enough.
\<close>

fun duration_loop :: "go_float \<Rightarrow> nat \<Rightarrow> int \<Rightarrow> string \<Rightarrow> int option" where
  "duration_loop fl fuel d [] = Some d"
| "duration_loop fl 0 d (c # s) = None"
| "duration_loop fl (Suc fuel) d (c # s) =
     (case duration_term fl (c # s) of
        None \<Rightarrow> None
      | Some (v, s') \<Rightarrow>
          let d' = (d + v) mod 2 ^ 64
          in if d' > 2 ^ 63 then None else duration_loop fl fuel d' s')"

definition ParseDuration :: "go_float \<Rightarrow> string \<Rightarrow> go_error + duration" where
  "ParseDuration fl s =
     (let neg = HasPrefix s ''-'';
          r = (if HasPrefix s ''-'' \<or> HasPrefix s ''+'' then tl s else s)
      in if r = ''0'' then Inr 0
         else if r = [] then Inl (err_duration s)
         else case duration_loop fl (length r) 0 r of
           None \<Rightarrow> Inl (err_duration s)
         | Some d \<Rightarrow>
             if neg then Inr (- of_int d)
             else if d > max64 then Inl (err_duration s)
             else Inr (of_int d))"

section \<open>Instants\<close>

type_synonym instant = int

definition IsZero :: "instant \<Rightarrow> bool" where
  "IsZero t \<longleftrightarrow> t = 0"

definition time_Sub :: "instant \<Rightarrow> instant \<Rightarrow> duration" where
  "time_Sub t u = of_int (max min64 (min max64 (t - u)))"

definition leap :: "int \<Rightarrow> bool" where
  "leap y \<longleftrightarrow> 4 dvd y \<and> (\<not> 100 dvd y \<or> 400 dvd y)"

definition daysIn :: "int \<Rightarrow> int \<Rightarrow> int" where
  "daysIn m y =
     (if m = 2 \<and> leap y then 29
      else if m = 2 then 28
      else if m \<in> {4, 6, 9, 11} then 30 else 31)"

definition daysBeforeYear :: "int \<Rightarrow> int" where
  "daysBeforeYear y = 365 * (y - 1) + (y - 1) div 4 - (y - 1) div 100 + (y - 1) div 400"

definition time_Date :: "int \<Rightarrow> int \<Rightarrow> int \<Rightarrow> int \<Rightarrow> int \<Rightarrow> int \<Rightarrow> int \<Rightarrow> instant" where
  "time_Date y mo d h mi s ns =
     (let days = daysBeforeYear y + sum_list (map (\<lambda>m. daysIn m y) [1..mo - 1]) + d - 1
      in ((days * 24 + h) * 60 + mi) * 60000000000 + s * 1000000000 + ns)"

section \<open>time.Parse with the RFC3339 layout\<close>

text \<open>\<^verbatim>\<open>getnum(s, fixed)\<close>: one or two digits, two where \<open>fixed\<close>.\<close>

fun getnum :: "bool \<Rightarrow> string \<Rightarrow> (int \<times> string) option" where
  "getnum fixed (a # b # s) =
     (if \<not> is_digit a then None
      else if is_digit b then Some (digit_val a * 10 + digit_val b, s)
      else if fixed then None else Some (digit_val a, b # s))"
| "getnum fixed [a] = (if is_digit a \<and> \<not> fixed then Some (digit_val a, []) else None)"
| "getnum fixed [] = None"

definition parse_num :: "bool \<Rightarrow> int \<Rightarrow> int \<Rightarrow> string \<Rightarrow> (int \<times> string) option" where
  "parse_num fixed lo hi s =
     (case getnum fixed s of
        None \<Rightarrow> None
      | Some (n, r) \<Rightarrow> if lo \<le> n \<and> n < hi then Some (n, r) else None)"

definition parse_year :: "string \<Rightarrow> (int \<times> string) option" where
  "parse_year s =
     (if 4 \<le> length s \<and> list_all is_digit (take 4 s) then Some (digits_val (take 4 s), drop 4 s)
      else None)"

text \<open>A fraction of a second after \<^verbatim>\<open>.\<close> or \<^verbatim>\<open>,\<close>: nanoseconds, digits past the ninth ignored.\<close>

definition parse_frac :: "string \<Rightarrow> int \<times> string" where
  "parse_frac s =
     (case s of
        c # d # r \<Rightarrow>
          if (c = CHR ''.'' \<or> c = CHR '','') \<and> is_digit d
          then let ds = take 9 (takeWhile is_digit (d # r))
               in (digits_val ds * 10 ^ (9 - length ds), dropWhile is_digit (d # r))
          else (0, s)
      | _ \<Rightarrow> (0, s))"

text \<open>\<^verbatim>\<open>Z07:00\<close>: the offset from UTC in seconds.\<close>

definition parse_zone :: "string \<Rightarrow> (int \<times> string) option" where
  "parse_zone s =
     (case s of
        [] \<Rightarrow> None
      | c # r \<Rightarrow>
          if c = CHR ''Z'' then Some (0, r)
          else if length s < 6 \<or> s ! 3 \<noteq> CHR '':'' then None
          else (case (parse_num True 0 25 (take 2 r), parse_num True 0 61 (take 2 (drop 4 s))) of
            (Some (hh, _), Some (mm, _)) \<Rightarrow>
              (let off = (hh * 60 + mm) * 60
               in if c = CHR ''+'' then Some (off, drop 6 s)
                  else if c = CHR ''-'' then Some (- off, drop 6 s)
                  else None)
          | _ \<Rightarrow> None))"

definition time_Parse :: "string \<Rightarrow> instant option" where
  "time_Parse v =
     Option.bind (parse_year v) (\<lambda>(y, s).
     Option.bind (CutPrefix s ''-'') (\<lambda>s.
     Option.bind (parse_num True 1 13 s) (\<lambda>(mo, s).
     Option.bind (CutPrefix s ''-'') (\<lambda>s.
     Option.bind (getnum True s) (\<lambda>(d, s).
     Option.bind (CutPrefix s ''T'') (\<lambda>s.
     Option.bind (parse_num False 0 24 s) (\<lambda>(h, s).
     Option.bind (CutPrefix s '':'') (\<lambda>s.
     Option.bind (parse_num True 0 60 s) (\<lambda>(mi, s).
     Option.bind (CutPrefix s '':'') (\<lambda>s.
     Option.bind (parse_num True 0 60 s) (\<lambda>(sec, s).
     let (ns, s) = parse_frac s in
     Option.bind (parse_zone s) (\<lambda>(off, s).
       if s \<noteq> [] \<or> d < 1 \<or> daysIn mo y < d then None
       else Some (time_Date y mo d h mi sec ns - off * 1000000000)))))))))))))"

section \<open>Facts about durations and instants\<close>

lemma sint_of_int_range: "min64 \<le> n \<Longrightarrow> n \<le> max64 \<Longrightarrow> sint (of_int n :: int64) = n"
  unfolding min64_def max64_def by (simp add: sint_sbintrunc' signed_take_bit_int_eq_self)

lemma sint_time_Sub: "sint (time_Sub t u) = max min64 (min max64 (t - u))"
proof -
  have "min64 \<le> max64" by (simp add: min64_def max64_def)
  then show ?thesis unfolding time_Sub_def by (intro sint_of_int_range) auto
qed

lemma sint_len64:
  assumes "int (length xs) \<le> max64" shows "sint (len64 xs) = int (length xs)"
proof -
  have "sint (of_int (int (length xs)) :: int64) = int (length xs)"
    using assms by (intro sint_of_int_range) (auto simp: min64_def)
  then show ?thesis by (simp add: len64_def)
qed

lemma duration_term_consumes:
  assumes "duration_term fl s = Some (v, s')" shows "length s' < length s"
proof -
  have li: "leadingInt x t = Some (y, r) \<Longrightarrow> length r \<le> length t" for x t y r
    by (induction x t rule: leadingInt.induct) (auto simp: Let_def split: if_splits)
  have lf: "leadingFraction b x k t = (y, j, r) \<Longrightarrow> length r \<le> length t" for b x k t y j r
    by (induction b x k t rule: leadingFraction.induct) (auto simp: Let_def split: if_splits)
  have dw: "takeWhile P t \<noteq> [] \<Longrightarrow> length (dropWhile P t) < length t" for P and t :: string
    by (cases t) (auto simp: length_dropWhile_le le_imp_less_Suc split: if_splits)
  show ?thesis
    using assms unfolding duration_term_def
    by (auto simp: Let_def split: if_splits option.splits prod.splits
             dest!: li lf dw intro: less_le_trans)
qed

lemma duration_loop_fuel:
  "length s \<le> fuel \<Longrightarrow> length s \<le> fuel' \<Longrightarrow> duration_loop fl fuel d s = duration_loop fl fuel' d s"
proof (induction fuel arbitrary: fuel' d s)
  case 0
  then show ?case by simp
next
  case (Suc fuel)
  show ?case
  proof (cases s)
    case Nil
    then show ?thesis by simp
  next
    case (Cons c cs)
    with Suc.prems obtain f where f: "fuel' = Suc f" by (cases fuel') auto
    have "duration_loop fl fuel d' r = duration_loop fl f d' r"
      if "duration_term fl (c # cs) = Some (v, r)" for v r d'
      using duration_term_consumes [OF that] Suc.prems Cons f by (intro Suc.IH) auto
    then show ?thesis by (auto simp: Cons f Let_def split: option.splits)
  qed
qed

end
