(* ===== verification/Go_Json.thy ===== *)
theory Go_Json
  imports Go_Time
begin

text \<open>
  The part of Go's \<^verbatim>\<open>encoding/json\<close> the program uses: a JSON value, its compact text as
  \<^verbatim>\<open>json.Marshal\<close> writes it (with the HTML-safe escapes and the replacement of invalid UTF-8), the
  parser \<^verbatim>\<open>json.Unmarshal\<close> applies to a text, and the decoding of strings and integers into struct
  fields. The parser carries fuel; \<open>json_Parse\<close> gives it twice the length of the input, which is
  enough because every second call consumes a byte. Go's nesting limit of 10000 is not modelled.

  The main lemma is the round trip \<open>json_Parse_Print\<close>: a value whose strings are valid UTF-8 and
  whose numbers are integers is read back unchanged.
\<close>

section \<open>Values\<close>

datatype json =
    JNull
  | JBool bool
  | JNum string \<comment> \<open>the literal\<close>
  | JStr string
  | JArr "json list"
  | JObj "(string \<times> json) list"

section \<open>Writing\<close>

definition hexDigit :: "int \<Rightarrow> char" where
  "hexDigit n = char_of (if n < 10 then 48 + n else 87 + n)"

definition escapeByte :: "char \<Rightarrow> string" where
  "escapeByte c =
     (if c = CHR 0x22 \<or> c = CHR 0x5C then [CHR 0x5C, c]
      else if code c = 8 then [CHR 0x5C, CHR ''b'']
      else if code c = 12 then [CHR 0x5C, CHR ''f'']
      else if code c = 10 then [CHR 0x5C, CHR ''n'']
      else if code c = 13 then [CHR 0x5C, CHR ''r'']
      else if code c = 9 then [CHR 0x5C, CHR ''t'']
      else if code c < 32 \<or> c = CHR ''<'' \<or> c = CHR ''>'' \<or> c = CHR ''&''
           then [CHR 0x5C, CHR ''u'', CHR ''0'', CHR ''0'', hexDigit (code c div 16), hexDigit (code c mod 16)]
      else [c])"

definition escapeRune :: "int \<times> string \<Rightarrow> string" where
  "escapeRune p =
     (case p of (r, bs) \<Rightarrow>
        if r < 128 then concat (map escapeByte bs)
        else if r = RuneError \<and> length bs = 1 then CHR 0x5C # ''ufffd''
        else if r = 8232 then CHR 0x5C # ''u2028''
        else if r = 8233 then CHR 0x5C # ''u2029''
        else bs)"

definition json_String :: "string \<Rightarrow> string" where
  "json_String s = CHR 0x22 # concat (map escapeRune (Runes s)) @ [CHR 0x22]"

fun json_Print :: "json \<Rightarrow> string"
  and json_PrintElems :: "json list \<Rightarrow> string"
  and json_PrintMembers :: "(string \<times> json) list \<Rightarrow> string" where
  "json_Print JNull = ''null''"
| "json_Print (JBool b) = (if b then ''true'' else ''false'')"
| "json_Print (JNum n) = n"
| "json_Print (JStr s) = json_String s"
| "json_Print (JArr vs) = CHR ''['' # json_PrintElems vs"
| "json_Print (JObj kvs) = CHR ''{'' # json_PrintMembers kvs"
| "json_PrintElems [] = '']''"
| "json_PrintElems [v] = json_Print v @ '']''"
| "json_PrintElems (v # w # vs) = json_Print v @ CHR '','' # json_PrintElems (w # vs)"
| "json_PrintMembers [] = ''}''"
| "json_PrintMembers [(k, v)] = json_String k @ CHR '':'' # json_Print v @ ''}''"
| "json_PrintMembers ((k, v) # kv # kvs) =
     json_String k @ CHR '':'' # json_Print v @ CHR '','' # json_PrintMembers (kv # kvs)"

text \<open>\<^verbatim>\<open>strconv.FormatInt(n, 10)\<close>.\<close>

function showNat :: "int \<Rightarrow> string" where
  "showNat n = (if n < 10 then [char_of (48 + n)] else showNat (n div 10) @ [char_of (48 + n mod 10)])"
  by pat_completeness auto
termination
  by (relation "measure nat") auto

declare showNat.simps [simp del]

definition FormatInt :: "int \<Rightarrow> string" where
  "FormatInt n = (if n < 0 then CHR ''-'' # showNat (- n) else showNat n)"

section \<open>Reading\<close>

definition isWs :: "char \<Rightarrow> bool" where
  "isWs c \<longleftrightarrow> c \<in> {CHR 0x20, CHR 0x09, CHR 0x0A, CHR 0x0D}"

definition skipWs :: "string \<Rightarrow> string" where
  "skipWs s = dropWhile isWs s"

definition hexVal :: "char \<Rightarrow> int option" where
  "hexVal c =
     (if byte_in 48 57 c then Some (code c - 48)
      else if byte_in 97 102 c then Some (code c - 87)
      else if byte_in 65 70 c then Some (code c - 55)
      else None)"

text \<open>\<^verbatim>\<open>getu4\<close> on the text after \<^verbatim>\<open>\u\<close>.\<close>

fun getu4 :: "string \<Rightarrow> (int \<times> string) option" where
  "getu4 (a # b # c # d # s) =
     (case (hexVal a, hexVal b, hexVal c, hexVal d) of
        (Some w, Some x, Some y, Some z) \<Rightarrow> Some (((w * 16 + x) * 16 + y) * 16 + z, s)
      | _ \<Rightarrow> None)"
| "getu4 _ = None"

definition isSurrogate :: "int \<Rightarrow> bool" where
  "isSurrogate r \<longleftrightarrow> 55296 \<le> r \<and> r < 57344"

text \<open>
  The rune an escape \<^verbatim>\<open>\uXXXX\<close> stands for and the text after it; a high surrogate takes a
  following low one with it, any other surrogate is \<^verbatim>\<open>RuneError\<close>.
\<close>

definition unicodeEscape :: "string \<Rightarrow> (int \<times> string) option" where
  "unicodeEscape s =
     (case getu4 s of
        None \<Rightarrow> None
      | Some (r, t) \<Rightarrow>
          if \<not> isSurrogate r then Some (r, t)
          else (case t of
                  b # u # t' \<Rightarrow>
                    if b = CHR 0x5C \<and> u = CHR ''u'' then
                      (case getu4 t' of
                         Some (r2, t'') \<Rightarrow>
                           if r < 56320 \<and> 56320 \<le> r2 \<and> r2 < 57344
                           then Some ((r - 55296) * 1024 + (r2 - 56320) + 65536, t'')
                           else Some (RuneError, t)
                       | None \<Rightarrow> Some (RuneError, t))
                    else Some (RuneError, t)
                | _ \<Rightarrow> Some (RuneError, t)))"

definition EncodeRune :: "int \<Rightarrow> string" where
  "EncodeRune r =
     (if r < 128 then [char_of r]
      else if r < 2048 then [char_of (192 + r div 64), char_of (128 + r mod 64)]
      else if r < 65536 then
        [char_of (224 + r div 4096), char_of (128 + r div 64 mod 64), char_of (128 + r mod 64)]
      else [char_of (240 + r div 262144), char_of (128 + r div 4096 mod 64),
            char_of (128 + r div 64 mod 64), char_of (128 + r mod 64)])"

definition simpleEscape :: "char \<Rightarrow> char option" where
  "simpleEscape e =
     (if e = CHR 0x22 \<or> e = CHR 0x5C \<or> e = CHR ''/'' then Some e
      else if e = CHR ''b'' then Some (CHR 0x08)
      else if e = CHR ''f'' then Some (CHR 0x0C)
      else if e = CHR ''n'' then Some (CHR 0x0A)
      else if e = CHR ''r'' then Some (CHR 0x0D)
      else if e = CHR ''t'' then Some (CHR 0x09)
      else None)"

lemma getu4_shorter: "getu4 s = Some (r, t) \<Longrightarrow> length t < length s"
  by (induction s rule: getu4.induct) (auto split: option.splits)

lemma unicodeEscape_shorter: "unicodeEscape s = Some (r, t) \<Longrightarrow> length t < length s"
  by (auto simp: unicodeEscape_def split: option.splits if_splits list.splits dest!: getu4_shorter)

text \<open>The rest of a string literal after its opening quote: the decoded string, the text after it.\<close>

function parseStr :: "string \<Rightarrow> (string \<times> string) option" where
  "parseStr [] = None"
| "parseStr (c # s) =
     (if c = CHR 0x22 then Some ([], s)
      else if c = CHR 0x5C then
        (case s of
           [] \<Rightarrow> None
         | e # s' \<Rightarrow>
             if e = CHR ''u'' then
               (case unicodeEscape s' of
                  None \<Rightarrow> None
                | Some (r, t) \<Rightarrow> map_option (\<lambda>(u, q). (EncodeRune r @ u, q)) (parseStr t))
             else (case simpleEscape e of
                     None \<Rightarrow> None
                   | Some d \<Rightarrow> map_option (\<lambda>(u, q). (d # u, q)) (parseStr s')))
      else if code c < 32 then None
      else let (r, n) = rune_at c s;
               bs = (if r = RuneError \<and> n = 0 then EncodeRune RuneError else c # take n s)
           in map_option (\<lambda>(u, q). (bs @ u, q)) (parseStr (drop n s)))"
  by pat_completeness auto
termination
  by (relation "measure length") (auto dest: unicodeEscape_shorter)

declare parseStr.simps [simp del]

text \<open>
  A number literal: an optional minus sign, an integer without leading zeros, an optional
  fraction, an optional exponent.
\<close>

definition takeDigits :: "string \<Rightarrow> string \<times> string" where
  "takeDigits s = (takeWhile is_digit s, dropWhile is_digit s)"

definition parseFrac :: "string \<Rightarrow> (string \<times> string) option" where
  "parseFrac s =
     (if s \<noteq> [] \<and> hd s = CHR ''.''
      then let (ds, r) = takeDigits (tl s) in if ds = [] then None else Some (CHR ''.'' # ds, r)
      else Some ([], s))"

definition parseExp :: "string \<Rightarrow> (string \<times> string) option" where
  "parseExp s =
     (if s \<noteq> [] \<and> (hd s = CHR ''e'' \<or> hd s = CHR ''E'')
      then let sgn = (if tl s \<noteq> [] \<and> (hd (tl s) = CHR ''+'' \<or> hd (tl s) = CHR ''-'') then [hd (tl s)] else []);
               (ds, r) = takeDigits (drop (length sgn) (tl s))
           in if ds = [] then None else Some (hd s # sgn @ ds, r)
      else Some ([], s))"

definition parseNumber :: "string \<Rightarrow> (string \<times> string) option" where
  "parseNumber s =
     (let sgn = (if HasPrefix s ''-'' then ''-'' else []);
          (ds, r) = takeDigits (drop (length sgn) s)
      in if ds = [] then None
         else let (i, r1) = (if hd ds = CHR ''0'' then (''0'', tl ds @ r) else (ds, r))
              in case parseFrac r1 of
                   None \<Rightarrow> None
                 | Some (f, r2) \<Rightarrow>
                     (case parseExp r2 of
                        None \<Rightarrow> None
                      | Some (e, r3) \<Rightarrow> Some (sgn @ i @ f @ e, r3)))"

fun parseValue :: "nat \<Rightarrow> string \<Rightarrow> (json \<times> string) option"
  and parseElems :: "nat \<Rightarrow> string \<Rightarrow> (json list \<times> string) option"
  and parseMembers :: "nat \<Rightarrow> string \<Rightarrow> ((string \<times> json) list \<times> string) option" where
  "parseValue 0 s = None"
| "parseValue (Suc n) s =
     (case skipWs s of
        [] \<Rightarrow> None
      | c # r \<Rightarrow>
          if c = CHR 0x22 then map_option (\<lambda>(u, q). (JStr u, q)) (parseStr r)
          else if c = CHR ''['' then
            (if HasPrefix (skipWs r) '']'' then Some (JArr [], tl (skipWs r))
             else map_option (\<lambda>(vs, q). (JArr vs, q)) (parseElems n r))
          else if c = CHR ''{'' then
            (if HasPrefix (skipWs r) ''}'' then Some (JObj [], tl (skipWs r))
             else map_option (\<lambda>(kvs, q). (JObj kvs, q)) (parseMembers n r))
          else if HasPrefix (c # r) ''null'' then Some (JNull, drop 4 (c # r))
          else if HasPrefix (c # r) ''true'' then Some (JBool True, drop 4 (c # r))
          else if HasPrefix (c # r) ''false'' then Some (JBool False, drop 5 (c # r))
          else map_option (\<lambda>(l, q). (JNum l, q)) (parseNumber (c # r)))"
| "parseElems 0 s = None"
| "parseElems (Suc n) s =
     (case parseValue n s of
        None \<Rightarrow> None
      | Some (v, r) \<Rightarrow>
          (case skipWs r of
             [] \<Rightarrow> None
           | c # r' \<Rightarrow>
               if c = CHR '','' then map_option (\<lambda>(vs, q). (v # vs, q)) (parseElems n r')
               else if c = CHR '']'' then Some ([v], r')
               else None))"
| "parseMembers 0 s = None"
| "parseMembers (Suc n) s =
     (case skipWs s of
        [] \<Rightarrow> None
      | c # r \<Rightarrow>
          if c \<noteq> CHR 0x22 then None
          else (case parseStr r of
                  None \<Rightarrow> None
                | Some (k, r1) \<Rightarrow>
                    if \<not> HasPrefix (skipWs r1) '':'' then None
                    else (case parseValue n (tl (skipWs r1)) of
                            None \<Rightarrow> None
                          | Some (v, r2) \<Rightarrow>
                              (case skipWs r2 of
                                 [] \<Rightarrow> None
                               | d # r3 \<Rightarrow>
                                   if d = CHR '','' then map_option (\<lambda>(kvs, q). ((k, v) # kvs, q)) (parseMembers n r3)
                                   else if d = CHR ''}'' then Some ([(k, v)], r3)
                                   else None))))"

definition json_Parse :: "string \<Rightarrow> json option" where
  "json_Parse s =
     (case parseValue (2 * length s + 2) s of
        Some (v, r) \<Rightarrow> if skipWs r = [] then Some v else None
      | None \<Rightarrow> None)"

section \<open>Decoding into struct fields\<close>

text \<open>
  A JSON key names a struct field if it equals the field's tag up to case. Of the runes outside
  ASCII, only the long s and the Kelvin sign fold to an ASCII letter.
\<close>

definition foldRune :: "int \<Rightarrow> int" where
  "foldRune r = (if 97 \<le> r \<and> r \<le> 122 then r - 32 else if r = 383 then 83 else if r = 8490 then 75 else r)"

definition foldName :: "string \<Rightarrow> int list" where
  "foldName s = map (\<lambda>p. foldRune (fst p)) (Runes s)"

definition keyIs :: "string \<Rightarrow> string \<Rightarrow> bool" where
  "keyIs k tag \<longleftrightarrow> foldName k = foldName tag"

text \<open>Storing a value into a \<^verbatim>\<open>string\<close> field: null leaves it alone, another type is an error.\<close>

definition decodeString :: "string \<Rightarrow> json \<Rightarrow> string option" where
  "decodeString old v = (case v of JStr s \<Rightarrow> Some s | JNull \<Rightarrow> Some old | _ \<Rightarrow> None)"

definition decodeInt :: "int \<Rightarrow> json \<Rightarrow> int option" where
  "decodeInt old v =
     (case v of
        JNum l \<Rightarrow> (case Atoi l of Inr n \<Rightarrow> Some n | Inl e \<Rightarrow> None)
      | JNull \<Rightarrow> Some old
      | _ \<Rightarrow> None)"

section \<open>Reading back a string\<close>

text \<open>Strings the encoder does not change: valid UTF-8.\<close>

definition utf8_ok :: "string \<Rightarrow> bool" where
  "utf8_ok s \<longleftrightarrow> (\<forall>(r, bs) \<in> set (Runes s). \<not> (r = RuneError \<and> length bs = 1))"

lemma code_range: "0 \<le> code c" "code c < 256"
proof -
  have "code c = int (of_char c)" unfolding code_def by (rule of_nat_of_char [symmetric])
  moreover have "(of_char c :: nat) < 256" by (rule nat_of_char_less_256)
  ultimately show "0 \<le> code c" "code c < 256" by auto
qed

lemma char_of_code [simp]: "char_of (code c) = c"
  by (simp add: code_def)

lemma code_eq_iff [simp]: "code c = code d \<longleftrightarrow> c = d"
  by (simp add: code_def)

lemma code_char_of: "0 \<le> n \<Longrightarrow> n < 256 \<Longrightarrow> code (char_of n) = n"
  by (simp add: code_def)

lemma hexVal_hexDigit:
  assumes "0 \<le> n" and "n < 16" shows "hexVal (hexDigit n) = Some n"
proof -
  have "code (hexDigit n) = (if n < 10 then 48 + n else 87 + n)"
    using assms by (simp add: hexDigit_def code_char_of)
  with assms show ?thesis by (auto simp: hexVal_def byte_in_def)
qed

lemma hexVal_0 [simp]: "hexVal (CHR ''0'') = Some 0"
  by (simp add: hexVal_def byte_in_def code_def)

lemma EncodeRune_ascii [simp]: "code b < 128 \<Longrightarrow> EncodeRune (code b) = [b]"
  by (simp add: EncodeRune_def)

lemma getu4_byte:
  "getu4 (CHR ''0'' # CHR ''0'' # hexDigit (code b div 16) # hexDigit (code b mod 16) # t) = Some (code b, t)"
proof -
  have "0 \<le> code b div 16" "code b div 16 < 16"
    using code_range [of b] by auto
  then show ?thesis by (simp add: hexVal_hexDigit)
qed

lemma parseStr_escapeByte:
  assumes "code b < 128"
  shows "parseStr (escapeByte b @ t) = map_option (\<lambda>(u, q). (b # u, q)) (parseStr t)"
proof -
  have special: "code b = 8 \<longleftrightarrow> b = CHR 0x08" "code b = 12 \<longleftrightarrow> b = CHR 0x0C" "code b = 10 \<longleftrightarrow> b = CHR 0x0A"
    "code b = 13 \<longleftrightarrow> b = CHR 0x0D" "code b = 9 \<longleftrightarrow> b = CHR 0x09"
    using code_eq_iff [of b "CHR 0x08"] code_eq_iff [of b "CHR 0x0C"] code_eq_iff [of b "CHR 0x0A"]
      code_eq_iff [of b "CHR 0x0D"] code_eq_iff [of b "CHR 0x09"]
    by (simp_all add: code_def)
  have "\<not> isSurrogate (code b)"
    using assms by (simp add: isSurrogate_def)
  then have u: "unicodeEscape (CHR ''0'' # CHR ''0'' # hexDigit (code b div 16) # hexDigit (code b mod 16) # t)
                = Some (code b, t)"
    unfolding unicodeEscape_def getu4_byte by simp
  show ?thesis
    unfolding escapeByte_def using assms u
    by (auto simp: parseStr.simps special simpleEscape_def rune_at_ascii RuneError_def)
qed

lemma rune_at_stable:
  assumes "rune_at b s = (r, n)" and "\<not> (r = RuneError \<and> n = 0)"
  shows "n \<le> length s \<and> rune_at b (take n s @ t) = (r, n)"
  using assms unfolding rune_at_def Let_def
  by (auto split: if_splits list.splits)

lemma rune_at_high:
  assumes "rune_at b s = (r, n)" and "\<not> (r = RuneError \<and> n = 0)" and "128 \<le> code b"
  shows "128 \<le> r"
  using assms unfolding rune_at_def Let_def byte_in_def
  by (auto split: if_splits list.splits)

lemma rune_at_separator:
  assumes "rune_at b s = (r, n)" and "r = 8232 \<or> r = 8233"
  shows "b # take n s = EncodeRune r"
proof -
  obtain b1 b2 s' where s: "s = b1 # b2 # s'" and n: "n = 2"
    and r: "r = (code b - 224) * 4096 + (code b1 - 128) * 64 + (code b2 - 128)"
    and rng: "224 \<le> code b" "128 \<le> code b1" "code b1 \<le> 191" "128 \<le> code b2" "code b2 \<le> 191"
    using assms unfolding rune_at_def Let_def byte_in_def RuneError_def
    by (auto split: if_splits list.splits)
  from r rng assms(2) have b: "code b = 226" by auto
  with r rng assms(2) have b1: "code b1 = 128" by auto
  with b r have "code b2 = r - 8064" by simp
  note b b1 this
  then have "b = char_of (226 :: int)" "b1 = char_of (128 :: int)" "b2 = char_of (r - 8064)"
    using char_of_code [of b] char_of_code [of b1] char_of_code [of b2] by auto
  with assms(2) show ?thesis by (auto simp: s n EncodeRune_def)
qed

lemma unicodeEscape_separator:
  "unicodeEscape (''2028'' @ t) = Some (8232, t)" "unicodeEscape (''2029'' @ t) = Some (8233, t)"
  by (simp_all add: unicodeEscape_def isSurrogate_def hexVal_def byte_in_def code_def)

lemma parseStr_escapeRune:
  assumes "rune_at b s = (r, n)" and ok: "\<not> (r = RuneError \<and> length (b # take n s) = 1)"
  shows "parseStr (escapeRune (r, b # take n s) @ t) = map_option (\<lambda>(u, q). ((b # take n s) @ u, q)) (parseStr t)"
proof (cases "code b < 128")
  case True
  with assms(1) have "r = code b" "n = 0" by (auto simp: rune_at_ascii)
  with True show ?thesis by (simp add: escapeRune_def parseStr_escapeByte)
next
  case False
  have valid: "\<not> (r = RuneError \<and> n = 0)" using ok by auto
  have st: "n \<le> length s" "rune_at b (take n s @ t) = (r, n)"
    using rune_at_stable [OF assms(1) valid] by auto
  have hi: "128 \<le> r" using rune_at_high [OF assms(1) valid] False by simp
  have nb: "b \<noteq> CHR 0x22" "b \<noteq> CHR 0x5C" using False by (auto simp: code_def)
  consider "r = 8232" | "r = 8233" | "r \<noteq> 8232" "r \<noteq> 8233" by blast
  then show ?thesis
  proof cases
    case 1
    with rune_at_separator [OF assms(1)] show ?thesis
      by (simp add: escapeRune_def RuneError_def parseStr.simps(2) [of "CHR 0x5C"]
            unicodeEscape_separator [simplified])
  next
    case 2
    with rune_at_separator [OF assms(1)] show ?thesis
      by (simp add: escapeRune_def RuneError_def parseStr.simps(2) [of "CHR 0x5C"]
            unicodeEscape_separator [simplified])
  next
    case 3
    then have "escapeRune (r, b # take n s) = b # take n s"
      using hi ok by (auto simp: escapeRune_def min_def split: if_splits)
    then show ?thesis
      using st nb False valid by (auto simp: parseStr.simps(2) [of b])
  qed
qed

lemma utf8_ok_Cons:
  "rune_at b s = (r, n) \<Longrightarrow>
   utf8_ok (b # s) \<longleftrightarrow> \<not> (r = RuneError \<and> length (b # take n s) = 1) \<and> utf8_ok (drop n s)"
  by (auto simp: utf8_ok_def)

lemma parseStr_escaped:
  "utf8_ok s \<Longrightarrow> parseStr (concat (map escapeRune (Runes s)) @ CHR 0x22 # t) = Some (s, t)"
proof (induction s rule: Runes.induct)
  case 1
  then show ?case by (simp add: parseStr.simps)
next
  case (2 b s)
  obtain r n where rn: "rune_at b s = (r, n)" by (cases "rune_at b s")
  with 2 have ok: "\<not> (r = RuneError \<and> length (b # take n s) = 1)"
    and ih: "parseStr (concat (map escapeRune (Runes (drop n s))) @ CHR 0x22 # t) = Some (drop n s, t)"
    by (auto simp: utf8_ok_Cons)
  show ?case
    using parseStr_escapeRune [OF rn ok] ih by (simp add: rn)
qed

lemma parseStr_json_String:
  "utf8_ok s \<Longrightarrow> json_String s @ t = CHR 0x22 # u \<Longrightarrow> parseStr u = Some (s, t)"
  by (auto simp: json_String_def parseStr_escaped)

lemma utf8_ok_append:
  assumes "utf8_ok s" and "utf8_ok t" shows "utf8_ok (s @ t)"
  using assms(1)
proof (induction s rule: Runes.induct)
  case 1
  then show ?case using assms(2) by simp
next
  case (2 b s)
  obtain r n where rn: "rune_at b s = (r, n)" by (cases "rune_at b s")
  with 2 have ok: "\<not> (r = RuneError \<and> length (b # take n s) = 1)" "utf8_ok (drop n s @ t)" by (auto simp: utf8_ok_Cons)
  then have "n \<le> length s" "rune_at b (take n s @ drop n s @ t) = (r, n)" using rune_at_stable [OF rn] by auto
  then have "rune_at b (s @ t) = (r, n)" "n \<le> length s" by (simp_all add: append_assoc [symmetric] del: append_assoc)
  with ok show ?case by (simp add: utf8_ok_Cons)
qed

lemma utf8_ok_ascii: "(\<And>c. c \<in> set s \<Longrightarrow> code c < 128) \<Longrightarrow> utf8_ok s"
  by (fastforce simp: utf8_ok_def Runes_ascii RuneError_def)

section \<open>Reading back an integer\<close>

lemma digit_char: "0 \<le> d \<Longrightarrow> d < 10 \<Longrightarrow> is_digit (char_of (48 + d)) \<and> digit_val (char_of (48 + d)) = d"
  by (simp add: is_digit_def byte_in_def digit_val_def code_char_of)

lemma digits_val_snoc: "digits_val (s @ [c]) = digits_val s * 10 + digit_val c"
  by (simp add: digits_val_def)

lemma showNat_props:
  assumes "0 \<le> n"
  shows "showNat n \<noteq> []" and "list_all is_digit (showNat n)" and "digits_val (showNat n) = n"
    and "hd (showNat n) = CHR ''0'' \<Longrightarrow> showNat n = ''0''"
proof -
  have "showNat n \<noteq> [] \<and> list_all is_digit (showNat n) \<and> digits_val (showNat n) = n \<and>
        (hd (showNat n) = CHR ''0'' \<longrightarrow> n = 0)"
    using assms
  proof (induction n rule: showNat.induct)
    case (1 n)
    show ?case
    proof (cases "n < 10")
      case True
      have "char_of (48 + n) = CHR ''0'' \<Longrightarrow> n = 0"
        using True 1 code_char_of [of "48 + n"] by (simp add: code_def)
      with True 1 show ?thesis
        using digit_char [of n] by (auto simp: showNat.simps [of n] digits_val_def digit_val_def code_char_of)
    next
      case False
      with 1 have ih: "showNat (n div 10) \<noteq> [] \<and> list_all is_digit (showNat (n div 10)) \<and>
          digits_val (showNat (n div 10)) = n div 10 \<and> (hd (showNat (n div 10)) = CHR ''0'' \<longrightarrow> n div 10 = 0)"
        by auto
      moreover from False have "n div 10 \<noteq> 0" by auto
      ultimately show ?thesis
        using False digit_char [of "n mod 10"]
        by (auto simp: showNat.simps [of n] digits_val_snoc)
    qed
  qed
  then show "showNat n \<noteq> []" "list_all is_digit (showNat n)" "digits_val (showNat n) = n"
    "hd (showNat n) = CHR ''0'' \<Longrightarrow> showNat n = ''0''"
    by (auto simp: showNat.simps [of 0] char_of_def)
qed

text \<open>What may follow a value inside a document.\<close>

definition delimited :: "string \<Rightarrow> bool" where
  "delimited t \<longleftrightarrow> t = [] \<or> hd t \<in> {CHR '','', CHR '']'', CHR ''}'', CHR 0x0A}"

lemma delimited_Cons [simp]:
  "delimited []" "delimited (CHR '','' # t)" "delimited (CHR '']'' # t)" "delimited (CHR ''}'' # t)" "delimited (CHR 0x0A # t)"
  by (simp_all add: delimited_def)

lemma minus_not_digit [simp]: "\<not> is_digit (CHR ''-'')"
  by (simp add: is_digit_def byte_in_def code_def)

lemma takeDigits_showNat:
  assumes "0 \<le> n" and "delimited t" shows "takeDigits (showNat n @ t) = (showNat n, t)"
proof -
  have d: "\<forall>c \<in> set (showNat n). is_digit c"
    using showNat_props(2) [OF assms(1)] by (simp add: list_all_iff)
  have "t = [] \<or> \<not> is_digit (hd t)"
    using assms(2) by (auto simp: delimited_def is_digit_def byte_in_def code_def)
  then have "takeWhile is_digit t = []" "dropWhile is_digit t = t"
    by (cases t; simp)+
  with d show ?thesis by (simp add: takeDigits_def)
qed

lemma hd_showNat_digit: "0 \<le> n \<Longrightarrow> is_digit (hd (showNat n))"
  using showNat_props(1,2) [of n] by (cases "showNat n") auto

lemma parseNumber_FormatInt:
  assumes "delimited t" shows "parseNumber (FormatInt n @ t) = Some (FormatInt n, t)"
proof -
  define m where "m = (if n < 0 then - n else n)"
  have m: "0 \<le> m" by (simp add: m_def)
  have fe: "parseFrac t = Some ([], t)" "parseExp t = Some ([], t)"
    using assms by (auto simp: parseFrac_def parseExp_def delimited_def)
  have "hd (showNat m) \<noteq> CHR ''-''"
    using hd_showNat_digit [OF m] by auto
  then have hp: "\<not> HasPrefix (showNat m @ t) ''-''"
    using showNat_props(1) [OF m] by (cases "showNat m") auto
  have z: "hd (showNat m) = CHR ''0'' \<Longrightarrow> showNat m = ''0''"
    using showNat_props(4) [OF m] .
  show ?thesis
    using takeDigits_showNat [OF m assms] showNat_props(1) [OF m] fe hp z
    by (auto simp: parseNumber_def FormatInt_def m_def Let_def split: if_splits)
qed

lemma Atoi_FormatInt:
  assumes "min64 \<le> n" and "n \<le> max64" shows "Atoi (FormatInt n) = Inr n"
proof -
  define m where "m = (if n < 0 then - n else n)"
  have m: "0 \<le> m" by (simp add: m_def)
  have "is_digit (hd (showNat m))" by (rule hd_showNat_digit [OF m])
  then have "hd (showNat m) \<noteq> CHR ''-''" "hd (showNat m) \<noteq> CHR ''+''"
    by (auto simp: is_digit_def byte_in_def code_def)
  then have hp: "\<not> HasPrefix (showNat m) ''-''" "\<not> HasPrefix (showNat m) ''+''"
    using showNat_props(1) [OF m] by (cases "showNat m"; simp)+
  show ?thesis
    using showNat_props(1,2,3) [OF m] hp assms
    by (auto simp: Atoi_def FormatInt_def m_def Let_def split: if_splits)
qed

section \<open>Reading back a value\<close>

fun json_ok :: "json \<Rightarrow> bool" where
  "json_ok (JNum l) \<longleftrightarrow> (\<exists>n. l = FormatInt n)"
| "json_ok (JStr s) \<longleftrightarrow> utf8_ok s"
| "json_ok (JArr vs) \<longleftrightarrow> (\<forall>v \<in> set vs. json_ok v)"
| "json_ok (JObj kvs) \<longleftrightarrow> (\<forall>kv \<in> set kvs. utf8_ok (fst kv) \<and> json_ok (snd kv))"
| "json_ok _ \<longleftrightarrow> True"

lemma FormatInt_hd:
  "\<exists>c cs. FormatInt n = c # cs \<and> (c = CHR ''-'' \<or> is_digit c)"
proof (cases "n < 0")
  case False
  then have "0 \<le> n" by simp
  with False show ?thesis
    using showNat_props(1) [OF \<open>0 \<le> n\<close>] hd_showNat_digit [OF \<open>0 \<le> n\<close>]
    by (cases "showNat n") (auto simp: FormatInt_def)
qed (simp add: FormatInt_def)

lemma digit_not_special:
  "is_digit c \<Longrightarrow> \<not> isWs c \<and> c \<notin> {CHR 0x22, CHR ''['', CHR ''{'', CHR '']'', CHR ''}'', CHR ''n'', CHR ''t'', CHR ''f''}"
  by (auto simp: is_digit_def byte_in_def code_def isWs_def)

lemma json_Print_hd:
  assumes "json_ok v"
  shows "\<exists>c cs. json_Print v = c # cs \<and> \<not> isWs c \<and> c \<noteq> CHR '']'' \<and> c \<noteq> CHR ''}''"
proof (cases v)
  case (JNum l)
  with assms obtain n where "l = FormatInt n" by auto
  moreover obtain c cs where "FormatInt n = c # cs" and "c = CHR ''-'' \<or> is_digit c"
    using FormatInt_hd by blast
  moreover from this(2) have "\<not> isWs c \<and> c \<noteq> CHR '']'' \<and> c \<noteq> CHR ''}''"
    using digit_not_special [of c] by (elim disjE) (simp add: isWs_def, blast)
  ultimately show ?thesis by (simp add: JNum)
qed (auto simp: isWs_def json_String_def)

lemma skipWs_Cons [simp]: "skipWs (c # s) = (if isWs c then skipWs s else c # s)"
  by (simp add: skipWs_def)

lemma isWs_special [simp]:
  "\<not> isWs (CHR 0x22)" "\<not> isWs (CHR ''['')" "\<not> isWs (CHR '']'')" "\<not> isWs (CHR ''{'')" "\<not> isWs (CHR ''}'')"
  "\<not> isWs (CHR '','')" "\<not> isWs (CHR '':'')"
  by (simp_all add: isWs_def)

lemma parseValue_number:
  assumes "delimited t" shows "parseValue (Suc n) (FormatInt i @ t) = Some (JNum (FormatInt i), t)"
proof -
  obtain c cs where c: "FormatInt i = c # cs" and "c = CHR ''-'' \<or> is_digit c"
    using FormatInt_hd by blast
  then have "\<not> isWs c \<and> c \<notin> {CHR 0x22, CHR ''['', CHR ''{'', CHR ''n'', CHR ''t'', CHR ''f''}"
    using digit_not_special [of c] by (elim disjE) (simp add: isWs_def, blast)
  with parseNumber_FormatInt [OF assms, of i] c show ?thesis by simp
qed

lemma parseValue_string:
  assumes "utf8_ok s" shows "parseValue (Suc n) (json_String s @ t) = Some (JStr s, t)"
  using assms by (simp add: json_String_def parseStr_escaped)

lemma PrintElems_open:
  assumes "\<forall>v \<in> set vs. json_ok v" and "vs \<noteq> []" shows "\<not> HasPrefix (skipWs (json_PrintElems vs @ t)) '']''"
proof (cases vs)
  case (Cons w ws)
  with assms(1) obtain c cs where "json_Print w = c # cs" "\<not> isWs c" "c \<noteq> CHR '']''" using json_Print_hd [of w] by auto
  then show ?thesis by (cases ws) (simp_all add: Cons)
qed (use assms in simp)

lemma PrintMembers_open: "kvs \<noteq> [] \<Longrightarrow> \<not> HasPrefix (skipWs (json_PrintMembers kvs @ t)) ''}''"
  by (cases kvs rule: json_PrintMembers.cases) (auto simp: json_String_def)

lemma roundtrip_gen:
  "json_ok v \<Longrightarrow> delimited t \<Longrightarrow> 2 * length (json_Print v) \<le> n \<Longrightarrow>
     parseValue n (json_Print v @ t) = Some (v, t)"
  "\<forall>v \<in> set vs. json_ok v \<Longrightarrow> vs \<noteq> [] \<Longrightarrow> 2 * length (json_PrintElems vs) \<le> n \<Longrightarrow>
     parseElems n (json_PrintElems vs @ t) = Some (vs, t)"
  "\<forall>kv \<in> set kvs. utf8_ok (fst kv) \<and> json_ok (snd kv) \<Longrightarrow> kvs \<noteq> [] \<Longrightarrow>
     2 * length (json_PrintMembers kvs) \<le> n \<Longrightarrow> parseMembers n (json_PrintMembers kvs @ t) = Some (kvs, t)"
proof (induction v and vs and kvs arbitrary: n t and n t and n t
    rule: json_Print_json_PrintElems_json_PrintMembers.induct)
  case (3 l)
  then obtain i where l: "l = FormatInt i" by auto
  moreover obtain c cs where "FormatInt i = c # cs" using FormatInt_hd by blast
  ultimately obtain m where "n = Suc m" using 3 by (cases n) auto
  with 3 l show ?case by (simp add: parseValue_number del: parseValue.simps)
next
  case (4 s)
  then obtain m where "n = Suc m" by (cases n) (auto simp: json_String_def)
  with 4 show ?case by (simp add: parseValue_string del: parseValue.simps)
next
  case (5 vs)
  then obtain m where "n = Suc m" by (cases n) auto
  with 5 PrintElems_open [of vs t] show ?case by (cases "vs = []") auto
next
  case (6 kvs)
  then obtain m where "n = Suc m" by (cases n) auto
  with 6 PrintMembers_open [of kvs t] show ?case by (cases "kvs = []") auto
next
  case (11 k v)
  then obtain m where "n = Suc m" by (cases n) (auto simp: json_String_def)
  with 11 show ?case by (simp add: json_String_def parseStr_escaped)
next
  case (12 k v kv kvs)
  then obtain m where "n = Suc m" by (cases n) (auto simp: json_String_def)
  with 12 show ?case by (simp add: json_String_def parseStr_escaped)
qed (case_tac n; auto simp: isWs_def split: if_splits)+

theorem json_Parse_Print: "json_ok v \<Longrightarrow> json_Parse (json_Print v) = Some v"
  using roundtrip_gen(1) [of v "[]" "2 * length (json_Print v) + 2"]
  by (simp add: json_Parse_def skipWs_def)

end
