(* ===== verification/Catalog.thy ===== *)
theory Catalog
  imports Go_Json
begin

text \<open>
  The in-memory file registry (\<^verbatim>\<open>internal/catalog/catalog.go\<close>): two indexes, \<^verbatim>\<open>byKey\<close> and
  \<^verbatim>\<open>byRoute\<close>, kept by \<^verbatim>\<open>Register\<close>, \<^verbatim>\<open>Set\<close>, \<^verbatim>\<open>Remove\<close> and \<^verbatim>\<open>Clear\<close>, each of which runs under the
  catalog's mutex and is therefore one atomic step. A run of the service interleaves such steps
  from its request handlers, the bootstrap and the periodic sync in any order; \<open>cat_step\<close> and
  \<open>cat_reachable\<close> are those runs.

  Shown here: the invariant of the two indexes in every reachable state, that the pair of
  indexes implements one abstract ownership map, which bucket owns a key after any sequence of
  registrations, that the listing does not depend on Go's map order, and that the manifests
  written for a catalog restore it.
\<close>

section \<open>Data\<close>

record Entry =
  eKey :: string
  eBucket :: string
  eBucketType :: string
  eRoute :: string
  eSize :: int64
  eLastModified :: string

definition zeroEntry :: Entry where
  "zeroEntry = \<lparr>eKey = [], eBucket = [], eBucketType = [], eRoute = [], eSize = 0, eLastModified = []\<rparr>"

record Manifest =
  mVersion :: int
  mBucket :: string
  mFiles :: "Entry list"

record BucketManifest =
  bmBucket :: string
  bmContent :: bytes

record Catalog =
  byKey :: "(string, Entry) gomap"
  byRoute :: "(string, string) gomap"
  priority :: "string \<Rightarrow> int"
  bucketType :: "string \<Rightarrow> string"

definition catalog_New :: "(string \<Rightarrow> int) \<Rightarrow> (string \<Rightarrow> string) \<Rightarrow> Catalog" where
  "catalog_New prio bt = \<lparr>byKey = [], byRoute = [], priority = prio, bucketType = bt\<rparr>"

definition routeFor :: "string \<Rightarrow> string \<Rightarrow> string" where
  "routeFor bucket key = ''/'' @ bucket @ ''/'' @ key"

section \<open>Operations\<close>

text \<open>The entry literal and the two index writes that \<^verbatim>\<open>Register\<close> and \<^verbatim>\<open>Set\<close> end with.\<close>

definition storeEntry :: "string \<Rightarrow> string \<Rightarrow> int64 \<Rightarrow> string \<Rightarrow> Catalog \<Rightarrow> Catalog" where
  "storeEntry key bucket sz lastModified c =
     (let entry = \<lparr>eKey = key, eBucket = bucket, eBucketType = bucketType c bucket,
                   eRoute = routeFor bucket key, eSize = sz, eLastModified = lastModified\<rparr>
      in c\<lparr>byKey := gm_set key entry (byKey c), byRoute := gm_set (eRoute entry) key (byRoute c)\<rparr>)"

definition Register :: "string \<Rightarrow> string \<Rightarrow> int64 \<Rightarrow> string \<Rightarrow> Catalog \<Rightarrow> Catalog" where
  "Register key bucket sz lastModified c =
     (case gm_get (byKey c) key of
        Some existing \<Rightarrow>
          if priority c (eBucket existing) < priority c bucket then c
          else storeEntry key bucket sz lastModified
                 (c\<lparr>byRoute := gm_del (eRoute existing) (byRoute c)\<rparr>)
      | None \<Rightarrow> storeEntry key bucket sz lastModified c)"

definition SetEntry :: "string \<Rightarrow> string \<Rightarrow> int64 \<Rightarrow> string \<Rightarrow> Catalog \<Rightarrow> Catalog" where
  "SetEntry key bucket sz lastModified c =
     (case gm_get (byKey c) key of
        Some existing \<Rightarrow> storeEntry key bucket sz lastModified
                           (c\<lparr>byRoute := gm_del (eRoute existing) (byRoute c)\<rparr>)
      | None \<Rightarrow> storeEntry key bucket sz lastModified c)"

definition Remove :: "string \<Rightarrow> Catalog \<Rightarrow> Catalog" where
  "Remove key c =
     (let c' = (case gm_get (byKey c) key of
                  Some entry \<Rightarrow> c\<lparr>byRoute := gm_del (eRoute entry) (byRoute c)\<rparr>
                | None \<Rightarrow> c)
      in c'\<lparr>byKey := gm_del key (byKey c')\<rparr>)"

definition Lookup :: "Catalog \<Rightarrow> string \<Rightarrow> Entry option" where
  "Lookup c key = gm_get (byKey c) key"

text \<open>An absent key would give the zero \<^verbatim>\<open>Entry\<close> here, as \<^verbatim>\<open>c.byKey[key]\<close> does in Go.\<close>

definition LookupByRoute :: "Catalog \<Rightarrow> string \<Rightarrow> Entry option" where
  "LookupByRoute c route =
     (case gm_get (byRoute c) route of
        None \<Rightarrow> None
      | Some key \<Rightarrow> Some (case gm_get (byKey c) key of Some e \<Rightarrow> e | None \<Rightarrow> zeroEntry))"

definition keyLess :: "Entry \<Rightarrow> Entry \<Rightarrow> bool" where
  "keyLess a b \<longleftrightarrow> eKey a < eKey b"

definition ListAll :: "Catalog \<Rightarrow> Entry list" where
  "ListAll c = sort_slice keyLess (map snd (byKey c))"

definition ListByBucket :: "Catalog \<Rightarrow> string \<Rightarrow> Entry list" where
  "ListByBucket c bucket = filter (\<lambda>e. eBucket e = bucket) (ListAll c)"

definition ManifestForBucket :: "Catalog \<Rightarrow> string \<Rightarrow> Manifest" where
  "ManifestForBucket c bucket = \<lparr>mVersion = 1, mBucket = bucket, mFiles = ListByBucket c bucket\<rparr>"

definition Clear :: "Catalog \<Rightarrow> Catalog" where
  "Clear c = c\<lparr>byKey := [], byRoute := []\<rparr>"

definition Count :: "Catalog \<Rightarrow> nat" where
  "Count c = length (byKey c)"

section \<open>Manifests\<close>

definition encodeEntry :: "Entry \<Rightarrow> json" where
  "encodeEntry e =
     JObj [(''key'', JStr (eKey e)), (''bucket'', JStr (eBucket e)), (''bucket_type'', JStr (eBucketType e)),
           (''route'', JStr (eRoute e)), (''size'', JNum (FormatInt (sint (eSize e)))),
           (''last_modified'', JStr (eLastModified e))]"

definition encodeManifest :: "Manifest \<Rightarrow> json" where
  "encodeManifest m =
     JObj [(''version'', JNum (FormatInt (mVersion m))), (''bucket'', JStr (mBucket m)),
           (''files'', JArr (map encodeEntry (mFiles m)))]"

text \<open>\<^verbatim>\<open>json.Marshal(manifest)\<close>; no field of a manifest makes it fail.\<close>

definition marshalManifest :: "Manifest \<Rightarrow> go_error + bytes" where
  "marshalManifest m = Inr (json_Print (encodeManifest m))"

text \<open>One member of a JSON object stored into an \<^verbatim>\<open>Entry\<close>; \<open>None\<close> once a type does not fit.\<close>

definition decodeEntryField :: "Entry option \<Rightarrow> string \<times> json \<Rightarrow> Entry option" where
  "decodeEntryField r kv =
     (case r of
        None \<Rightarrow> None
      | Some e \<Rightarrow>
          (case kv of (k, v) \<Rightarrow>
             if keyIs k ''key'' then map_option (\<lambda>s. e\<lparr>eKey := s\<rparr>) (decodeString (eKey e) v)
             else if keyIs k ''bucket'' then map_option (\<lambda>s. e\<lparr>eBucket := s\<rparr>) (decodeString (eBucket e) v)
             else if keyIs k ''bucket_type'' then map_option (\<lambda>s. e\<lparr>eBucketType := s\<rparr>) (decodeString (eBucketType e) v)
             else if keyIs k ''route'' then map_option (\<lambda>s. e\<lparr>eRoute := s\<rparr>) (decodeString (eRoute e) v)
             else if keyIs k ''size'' then map_option (\<lambda>n. e\<lparr>eSize := of_int n\<rparr>) (decodeInt (sint (eSize e)) v)
             else if keyIs k ''last_modified'' then map_option (\<lambda>s. e\<lparr>eLastModified := s\<rparr>) (decodeString (eLastModified e) v)
             else Some e))"

definition decodeEntry :: "json \<Rightarrow> Entry option" where
  "decodeEntry v =
     (case v of
        JObj kvs \<Rightarrow> foldl decodeEntryField (Some zeroEntry) kvs
      | JNull \<Rightarrow> Some zeroEntry
      | _ \<Rightarrow> None)"

text \<open>A value stored into a field of type \<^verbatim>\<open>[]Entry\<close>; the inner \<open>None\<close> is the nil slice.\<close>

definition decodeEntries :: "json \<Rightarrow> Entry list option option" where
  "decodeEntries v =
     (case v of
        JArr vs \<Rightarrow> map_option Some (those (map decodeEntry vs))
      | JNull \<Rightarrow> Some None
      | _ \<Rightarrow> None)"

text \<open>\<^verbatim>\<open>json.Unmarshal(content, &envelope)\<close>: the \<^verbatim>\<open>Files\<close> field, or an error.\<close>

definition unmarshalEnvelope :: "json \<Rightarrow> Entry list option option" where
  "unmarshalEnvelope v =
     (case v of
        JObj kvs \<Rightarrow>
          foldl (\<lambda>r (k, w). case r of
                   None \<Rightarrow> None
                 | Some files \<Rightarrow> if keyIs k ''files'' then decodeEntries w else Some files)
            (Some None) kvs
      | JNull \<Rightarrow> Some None
      | _ \<Rightarrow> None)"

definition decodeManifestFiles :: "bytes \<Rightarrow> Entry list option" where
  "decodeManifestFiles content =
     (case json_Parse content of
        None \<Rightarrow> None
      | Some v \<Rightarrow>
          (case unmarshalEnvelope v of
             Some (Some files) \<Rightarrow> Some files
           | _ \<Rightarrow>
               (case decodeEntries v of
                  Some (Some bare) \<Rightarrow> Some bare
                | Some None \<Rightarrow> Some []
                | None \<Rightarrow> None)))"

text \<open>One file of a manifest in \<^verbatim>\<open>LoadManifests\<close>.\<close>

definition loadItem :: "string \<Rightarrow> Entry \<Rightarrow> Catalog \<Rightarrow> Catalog" where
  "loadItem mb item c =
     (if eKey item = [] then c
      else let bucket = (if eBucket item = [] then mb else eBucket item)
           in Register (eKey item) bucket (eSize item) (eLastModified item) c)"

definition loadManifest :: "BucketManifest \<Rightarrow> Catalog \<Rightarrow> Catalog" where
  "loadManifest m c =
     (if bmContent m = [] then c
      else (case decodeManifestFiles (bmContent m) of
              None \<Rightarrow> c
            | Some files \<Rightarrow> foldl (\<lambda>c item. loadItem (bmBucket m) item c) c files))"

definition LoadManifests :: "BucketManifest list \<Rightarrow> Catalog \<Rightarrow> Catalog" where
  "LoadManifests ms c = foldl (\<lambda>c m. loadManifest m c) (Clear c) ms"

section \<open>Runs\<close>

text \<open>
  One atomic step of the catalog, whoever takes it, when only buckets of \<open>B\<close> are registered.
\<close>

inductive cat_step :: "string set \<Rightarrow> Catalog \<Rightarrow> Catalog \<Rightarrow> bool" for B where
  step_Register: "bucket \<in> B \<Longrightarrow> cat_step B c (Register key bucket sz lm c)"
| step_Set: "bucket \<in> B \<Longrightarrow> cat_step B c (SetEntry key bucket sz lm c)"
| step_Remove: "cat_step B c (Remove key c)"
| step_Clear: "cat_step B c (Clear c)"

inductive cat_reachable :: "string set \<Rightarrow> Catalog \<Rightarrow> bool" for B where
  reach_New: "cat_reachable B (catalog_New prio bt)"
| reach_step: "cat_reachable B c \<Longrightarrow> cat_step B c c' \<Longrightarrow> cat_reachable B c'"

section \<open>The invariant\<close>

text \<open>
  \<open>entry_ok\<close>: an entry's fields agree with each other. \<open>cat_inv\<close>: every route index entry points
  at the registered entry that has this route.
\<close>

definition entry_ok :: "Catalog \<Rightarrow> string \<Rightarrow> Entry \<Rightarrow> bool" where
  "entry_ok c k e \<longleftrightarrow>
     eKey e = k \<and> eRoute e = routeFor (eBucket e) k \<and> eBucketType e = bucketType c (eBucket e)"

definition cat_inv :: "Catalog \<Rightarrow> bool" where
  "cat_inv c \<longleftrightarrow>
     gm_ok (byKey c) \<and> gm_ok (byRoute c) \<and>
     (\<forall>k e. gm_get (byKey c) k = Some e \<longrightarrow> entry_ok c k e) \<and>
     (\<forall>r k. gm_get (byRoute c) r = Some k \<longrightarrow> (\<exists>e. gm_get (byKey c) k = Some e \<and> eRoute e = r))"

lemma entry_ok_record [simp]: "entry_ok (c\<lparr>byKey := m\<rparr>) = entry_ok c" "entry_ok (c\<lparr>byRoute := n\<rparr>) = entry_ok c"
  by (simp_all add: entry_ok_def fun_eq_iff)

lemma cat_invI:
  assumes "gm_ok (byKey c)" "gm_ok (byRoute c)"
    and "\<And>k e. gm_get (byKey c) k = Some e \<Longrightarrow> entry_ok c k e"
    and "\<And>r k. gm_get (byRoute c) r = Some k \<Longrightarrow> \<exists>e. gm_get (byKey c) k = Some e \<and> eRoute e = r"
  shows "cat_inv c"
  using assms by (simp add: cat_inv_def)

lemma cat_invD:
  assumes "cat_inv c"
  shows "gm_ok (byKey c)" "gm_ok (byRoute c)"
    and "\<And>k e. gm_get (byKey c) k = Some e \<Longrightarrow> entry_ok c k e"
    and "\<And>r k. gm_get (byRoute c) r = Some k \<Longrightarrow> \<exists>e. gm_get (byKey c) k = Some e \<and> eRoute e = r"
  using assms by (simp_all add: cat_inv_def)

text \<open>
  Storing under a key whose old route has been taken out of the index: the step that
  \<^verbatim>\<open>Register\<close> and \<^verbatim>\<open>Set\<close> share.
\<close>

definition dropRoute :: "string \<Rightarrow> Catalog \<Rightarrow> Catalog" where
  "dropRoute key c =
     (case gm_get (byKey c) key of
        Some e \<Rightarrow> c\<lparr>byRoute := gm_del (eRoute e) (byRoute c)\<rparr>
      | None \<Rightarrow> c)"

lemma Register_cases:
  "Register k b s l c =
     (if \<exists>e. gm_get (byKey c) k = Some e \<and> priority c (eBucket e) < priority c b then c
      else storeEntry k b s l (dropRoute k c))"
  by (auto simp: Register_def dropRoute_def split: option.splits)

lemma SetEntry_eq: "SetEntry k b s l c = storeEntry k b s l (dropRoute k c)"
  by (auto simp: SetEntry_def dropRoute_def split: option.splits)

lemma Remove_eq: "Remove k c = (dropRoute k c)\<lparr>byKey := gm_del k (byKey c)\<rparr>"
  by (auto simp: Remove_def dropRoute_def Let_def split: option.splits)

lemma dropRoute_fields [simp]:
  "byKey (dropRoute k c) = byKey c" "priority (dropRoute k c) = priority c" "bucketType (dropRoute k c) = bucketType c"
  by (simp_all add: dropRoute_def split: option.splits)

lemma storeEntry_fields [simp]:
  "priority (storeEntry k b s l c) = priority c" "bucketType (storeEntry k b s l c) = bucketType c"
  "byKey (storeEntry k b s l c) =
     gm_set k \<lparr>eKey = k, eBucket = b, eBucketType = bucketType c b, eRoute = routeFor b k, eSize = s, eLastModified = l\<rparr> (byKey c)"
  "byRoute (storeEntry k b s l c) = gm_set (routeFor b k) k (byRoute c)"
  by (simp_all add: storeEntry_def)

lemma ops_fields [simp]:
  "priority (Register k b s l c) = priority c" "bucketType (Register k b s l c) = bucketType c"
  "priority (SetEntry k b s l c) = priority c" "bucketType (SetEntry k b s l c) = bucketType c"
  "priority (Remove k c) = priority c" "bucketType (Remove k c) = bucketType c"
  "priority (Clear c) = priority c" "bucketType (Clear c) = bucketType c"
  by (simp_all add: Register_cases SetEntry_eq Remove_eq Clear_def)

text \<open>After \<open>dropRoute\<close> no route points at the key, the other routes are as before.\<close>

lemma dropRoute_byRoute:
  assumes "cat_inv c"
  shows "gm_ok (byRoute (dropRoute k c))"
    and "gm_get (byRoute (dropRoute k c)) r = Some k' \<Longrightarrow> k' \<noteq> k \<and> gm_get (byRoute c) r = Some k'"
  using assms by (fastforce simp: dropRoute_def cat_inv_def split: option.splits if_splits)+

lemma cat_inv_store:
  assumes "cat_inv c" shows "cat_inv (storeEntry k b s l (dropRoute k c))"
  using cat_invD [OF assms] dropRoute_byRoute [OF assms, of k]
  by (intro cat_invI) (auto simp: entry_ok_def split: if_splits)

lemma cat_inv_Register [simp, intro]: "cat_inv c \<Longrightarrow> cat_inv (Register k b s l c)"
  by (simp add: Register_cases cat_inv_store)

lemma cat_inv_SetEntry [simp, intro]: "cat_inv c \<Longrightarrow> cat_inv (SetEntry k b s l c)"
  by (simp add: SetEntry_eq cat_inv_store)

lemma cat_inv_Remove [simp, intro]:
  assumes "cat_inv c" shows "cat_inv (Remove k c)"
  using cat_invD [OF assms] dropRoute_byRoute [OF assms, of k]
  by (intro cat_invI) (auto simp: Remove_eq entry_ok_def split: if_splits)

lemma cat_inv_Clear [simp, intro]: "cat_inv (Clear c)"
  by (simp add: cat_inv_def Clear_def)

lemma cat_inv_New [simp, intro]: "cat_inv (catalog_New p t)"
  by (simp add: cat_inv_def catalog_New_def)

lemma cat_inv_loadManifest: "cat_inv c \<Longrightarrow> cat_inv (loadManifest m c)"
proof -
  have "cat_inv c \<Longrightarrow> cat_inv (foldl (\<lambda>c item. loadItem b item c) c files)" for c b files
    by (induction files arbitrary: c) (auto simp: loadItem_def Let_def)
  then show "cat_inv c \<Longrightarrow> cat_inv (loadManifest m c)"
    by (auto simp: loadManifest_def split: option.splits)
qed

lemma cat_inv_LoadManifests [simp, intro]: "cat_inv (LoadManifests ms c)"
proof -
  have "cat_inv c \<Longrightarrow> cat_inv (foldl (\<lambda>c m. loadManifest m c) c ms)" for c
    by (induction ms arbitrary: c) (auto simp: cat_inv_loadManifest)
  then show ?thesis by (auto simp: LoadManifests_def)
qed

lemma cat_step_inv: "cat_step B c c' \<Longrightarrow> cat_inv c \<Longrightarrow> cat_inv c'"
  by (induction rule: cat_step.induct) auto

lemma cat_reachable_inv: "cat_reachable B c \<Longrightarrow> cat_inv c"
  by (induction rule: cat_reachable.induct) (auto intro: cat_step_inv)

section \<open>Route completeness\<close>

text \<open>
  Bucket names without a slash make routes unambiguous; then the route index also has every
  registered entry. Without that, two entries may share a route and the index keeps the later.
\<close>

definition slash_free :: "string \<Rightarrow> bool" where
  "slash_free s \<longleftrightarrow> CHR ''/'' \<notin> set s"

lemma slash_free_split:
  assumes "slash_free b" and "slash_free b'" and "b @ CHR ''/'' # k = b' @ CHR ''/'' # k'"
  shows "b = b' \<and> k = k'"
  using assms
proof (induction b arbitrary: b')
  case Nil
  then show ?case by (cases b') (auto simp: slash_free_def)
next
  case (Cons x b)
  then show ?case by (cases b') (auto simp: slash_free_def)
qed

lemma routeFor_inj:
  "slash_free b \<Longrightarrow> slash_free b' \<Longrightarrow> routeFor b k = routeFor b' k' \<longleftrightarrow> b = b' \<and> k = k'"
  using slash_free_split [of b b' k k'] by (simp add: routeFor_def) blast

definition routes_complete :: "Catalog \<Rightarrow> bool" where
  "routes_complete c \<longleftrightarrow>
     (\<forall>k e. gm_get (byKey c) k = Some e \<longrightarrow> slash_free (eBucket e) \<and> gm_get (byRoute c) (eRoute e) = Some k)"

lemma dropRoute_complete:
  assumes "cat_inv c" "routes_complete c" "gm_get (byKey c) k' = Some e" "k' \<noteq> k"
  shows "gm_get (byRoute (dropRoute k c)) (eRoute e) = Some k'"
proof (cases "gm_get (byKey c) k")
  case None
  with assms show ?thesis by (simp add: dropRoute_def routes_complete_def)
next
  case (Some f)
  with assms have "gm_get (byRoute c) (eRoute e) = Some k'" "gm_get (byRoute c) (eRoute f) = Some k"
    by (auto simp: routes_complete_def)
  with assms(4) Some show ?thesis by (auto simp: dropRoute_def)
qed

lemma routes_complete_store:
  assumes "cat_inv c" "routes_complete c" "slash_free b"
  shows "routes_complete (storeEntry k b s l (dropRoute k c))"
proof -
  have "routeFor b k \<noteq> eRoute e" if "gm_get (byKey c) k' = Some e" "k' \<noteq> k" for k' e
    using that assms cat_invD(3) [OF assms(1) that(1)] routeFor_inj
    by (auto simp: entry_ok_def routes_complete_def)
  with assms dropRoute_complete [OF assms(1,2), of _ _ k] show ?thesis
    by (fastforce simp: routes_complete_def)
qed

lemma cat_step_complete:
  "cat_step B c c' \<Longrightarrow> \<forall>b \<in> B. slash_free b \<Longrightarrow> cat_inv c \<Longrightarrow> routes_complete c \<Longrightarrow> routes_complete c'"
proof (induction rule: cat_step.induct)
  case (step_Register b c k s l)
  then show ?case by (simp add: Register_cases routes_complete_store)
next
  case (step_Set b c k s l)
  then show ?case by (simp add: SetEntry_eq routes_complete_store)
next
  case (step_Remove c k)
  then show ?case
    using dropRoute_complete [of c _ _ k] by (auto simp: Remove_eq routes_complete_def)
next
  case (step_Clear c)
  then show ?case by (simp add: Clear_def routes_complete_def)
qed

lemma cat_reachable_complete:
  "cat_reachable B c \<Longrightarrow> \<forall>b \<in> B. slash_free b \<Longrightarrow> routes_complete c"
proof (induction rule: cat_reachable.induct)
  case (reach_New prio bt)
  then show ?case by (simp add: catalog_New_def routes_complete_def)
next
  case (reach_step c c')
  then show ?case by (auto intro: cat_step_complete cat_reachable_inv)
qed

lemma LookupByRoute_inv:
  assumes "cat_inv c"
  shows "LookupByRoute c r = Some e \<Longrightarrow> Lookup c (eKey e) = Some e \<and> eRoute e = r"
  using cat_invD(3,4) [OF assms]
  by (fastforce simp: LookupByRoute_def Lookup_def entry_ok_def split: option.splits)

section \<open>The registry interface\<close>

text \<open>
  What the resolver and \<^verbatim>\<open>LoadManifests\<close> rely on: the effect of each operation on lookups.
  \<open>mk\<close> builds the entry of a key in a bucket, \<open>prio\<close> ranks buckets (lower wins).
\<close>

type_synonym reg_item = "string \<times> string \<times> int64 \<times> string"

text \<open>
  The item that owns \<open>k\<close> after registering \<open>items\<close> in order: no item of \<open>k\<close> ranks above it, and
  of those that rank equal it is the last.
\<close>

definition wins :: "(string \<Rightarrow> int) \<Rightarrow> reg_item list \<Rightarrow> string \<Rightarrow> string \<times> int64 \<times> string \<Rightarrow> bool" where
  "wins p items k w \<longleftrightarrow>
     (\<exists>xs ys. items = xs @ (k, w) # ys \<and>
        (\<forall>x \<in> set xs. fst x = k \<longrightarrow> p (fst w) \<le> p (fst (snd x))) \<and>
        (\<forall>y \<in> set ys. fst y = k \<longrightarrow> p (fst w) < p (fst (snd y))))"

lemma wins_Nil [simp]: "\<not> wins p [] k w"
  by (simp add: wins_def)

lemma snoc_split:
  "items @ [it] = xs @ x # ys \<longleftrightarrow>
     (ys = [] \<and> items = xs \<and> it = x) \<or> (\<exists>zs. ys = zs @ [it] \<and> items = xs @ x # zs)"
  by (cases ys rule: rev_cases) auto

lemma wins_snoc:
  "wins p (items @ [it]) k w \<longleftrightarrow>
     (it = (k, w) \<and> (\<forall>x \<in> set items. fst x = k \<longrightarrow> p (fst w) \<le> p (fst (snd x)))) \<or>
     (wins p items k w \<and> (fst it = k \<longrightarrow> p (fst w) < p (fst (snd it))))"
  unfolding wins_def snoc_split by (fastforce simp: ex_disj_distrib conj_disj_distribR)

lemma wins_minimal:
  "wins p items k w \<Longrightarrow> (k, w) \<in> set items \<and> (\<forall>x \<in> set items. fst x = k \<longrightarrow> p (fst w) \<le> p (fst (snd x)))"
  by (fastforce simp: wins_def)

lemma wins_exists: "x \<in> set items \<Longrightarrow> fst x = k \<Longrightarrow> \<exists>w. wins p items k w"
proof (induction items arbitrary: x rule: rev_induct)
  case Nil
  then show ?case by simp
next
  case (snoc it items)
  show ?case
  proof (cases "\<exists>y \<in> set items. fst y = k")
    case True
    then obtain w where w: "wins p items k w" using snoc.IH by blast
    show ?thesis
    proof (cases "fst it = k \<longrightarrow> p (fst w) < p (fst (snd it))")
      case True
      with w show ?thesis unfolding wins_snoc by blast
    next
      case False
      with wins_minimal [OF w] have "wins p (items @ [it]) k (snd it)"
        by (cases it) (force simp: wins_snoc)
      then show ?thesis by blast
    qed
  next
    case False
    with snoc.prems have "wins p (items @ [it]) k (snd it)"
      by (cases it) (auto simp: wins_snoc)
    then show ?thesis by blast
  qed
qed

text \<open>Where equal rank means the same item, the winner does not depend on the order.\<close>

lemma wins_perm:
  assumes "\<And>x y. x \<in> set items \<Longrightarrow> y \<in> set items \<Longrightarrow> fst x = k \<Longrightarrow> fst y = k \<Longrightarrow>
             p (fst (snd x)) = p (fst (snd y)) \<Longrightarrow> x = y"
  shows "wins p items k w \<longleftrightarrow>
           (k, w) \<in> set items \<and> (\<forall>x \<in> set items. fst x = k \<longrightarrow> p (fst w) \<le> p (fst (snd x)))"
proof
  assume r: "(k, w) \<in> set items \<and> (\<forall>x \<in> set items. fst x = k \<longrightarrow> p (fst w) \<le> p (fst (snd x)))"
  then obtain xs ys where s: "items = xs @ (k, w) # ys" and n: "(k, w) \<notin> set ys"
    using split_list_last [of "(k, w)" items] by blast
  have "p (fst w) < p (fst (snd y))" if "y \<in> set ys" "fst y = k" for y
    using that r n s assms [of "(k, w)" y] by (fastforce simp: order.order_iff_strict)
  with r s show "wins p items k w"
    unfolding wins_def by (intro exI [of _ xs] exI [of _ ys]) auto
qed (rule wins_minimal)

locale registry =
  fixes lookup :: "'c \<Rightarrow> string \<Rightarrow> Entry option"
    and register :: "string \<Rightarrow> string \<Rightarrow> int64 \<Rightarrow> string \<Rightarrow> 'c \<Rightarrow> 'c"
    and setEntry :: "string \<Rightarrow> string \<Rightarrow> int64 \<Rightarrow> string \<Rightarrow> 'c \<Rightarrow> 'c"
    and remove :: "string \<Rightarrow> 'c \<Rightarrow> 'c"
    and clear :: "'c \<Rightarrow> 'c"
    and prio :: "'c \<Rightarrow> string \<Rightarrow> int"
    and mk :: "'c \<Rightarrow> string \<Rightarrow> string \<Rightarrow> int64 \<Rightarrow> string \<Rightarrow> Entry"
  assumes lookup_register:
      "lookup (register k b s l c) k' =
         (if k' = k \<and> (\<forall>e. lookup c k = Some e \<longrightarrow> prio c b \<le> prio c (eBucket e))
          then Some (mk c k b s l) else lookup c k')"
    and lookup_set: "lookup (setEntry k b s l c) k' = (if k' = k then Some (mk c k b s l) else lookup c k')"
    and lookup_remove: "lookup (remove k c) k' = (if k' = k then None else lookup c k')"
    and lookup_clear: "lookup (clear c) k' = None"
    and prio_const: "prio (register k b s l c) = prio c" "prio (setEntry k b s l c) = prio c"
      "prio (remove k c) = prio c" "prio (clear c) = prio c"
    and mk_const: "mk (register k b s l c) = mk c" "mk (setEntry k b s l c) = mk c"
      "mk (remove k c) = mk c" "mk (clear c) = mk c"
    and mk_fields: "eKey (mk c k b s l) = k" "eBucket (mk c k b s l) = b" "eSize (mk c k b s l) = s"
      "eLastModified (mk c k b s l) = l"
begin

lemma prio_fold: "prio (foldl (\<lambda>c (k, b, s, l). register k b s l c) c items) = prio c"
  by (induction items arbitrary: c) (auto simp: prio_const)

lemma mk_fold: "mk (foldl (\<lambda>c (k, b, s, l). register k b s l c) c items) = mk c"
  by (induction items arbitrary: c) (auto simp: mk_const)

text \<open>Bulk registration into an empty registry: the winner owns the key.\<close>

lemma register_all:
  "lookup (foldl (\<lambda>c (k, b, s, l). register k b s l c) (clear c) items) k = Some e \<longleftrightarrow>
     (\<exists>b s l. wins (prio c) items k (b, s, l) \<and> e = mk c k b s l)"
proof (induction items arbitrary: e rule: rev_induct)
  case Nil
  then show ?case by (simp add: lookup_clear)
next
  case (snoc it items)
  let ?c = "foldl (\<lambda>c (k, b, s, l). register k b s l c) (clear c) items"
  obtain k0 b0 s0 l0 where it: "it = (k0, b0, s0, l0)" by (cases it)
  have rank: "(\<forall>e. lookup ?c k = Some e \<longrightarrow> prio c b0 \<le> prio c (eBucket e)) \<longleftrightarrow>
              (\<forall>x \<in> set items. fst x = k \<longrightarrow> prio c b0 \<le> prio c (fst (snd x)))"
  proof
    assume l: "\<forall>e. lookup ?c k = Some e \<longrightarrow> prio c b0 \<le> prio c (eBucket e)"
    show "\<forall>x \<in> set items. fst x = k \<longrightarrow> prio c b0 \<le> prio c (fst (snd x))"
    proof (intro ballI impI)
      fix x assume x: "x \<in> set items" "fst x = k"
      from wins_exists [OF this] obtain b s l where w: "wins (prio c) items k (b, s, l)" by (metis prod_cases3)
      then have "lookup ?c k = Some (mk c k b s l)" unfolding snoc.IH by blast
      with l have "prio c b0 \<le> prio c b" by (metis mk_fields(2))
      also have "\<dots> \<le> prio c (fst (snd x))" using wins_minimal [OF w] x by auto
      finally show "prio c b0 \<le> prio c (fst (snd x))" .
    qed
  next
    assume "\<forall>x \<in> set items. fst x = k \<longrightarrow> prio c b0 \<le> prio c (fst (snd x))"
    then show "\<forall>e. lookup ?c k = Some e \<longrightarrow> prio c b0 \<le> prio c (eBucket e)"
      by (auto simp: snoc.IH mk_fields dest!: wins_minimal)
  qed
  define top where "top \<longleftrightarrow> (\<forall>x \<in> set items. fst x = k \<longrightarrow> prio c b0 \<le> prio c (fst (snd x)))"
  have 1: "lookup (register k0 b0 s0 l0 ?c) k = Some e \<longleftrightarrow>
        (if k0 = k \<and> top
         then e = mk c k b0 s0 l0 else \<exists>b s l. wins (prio c) items k (b, s, l) \<and> e = mk c k b s l)"
    unfolding snoc.IH [symmetric] lookup_register prio_fold prio_const mk_fold mk_const
    using rank by (cases "k0 = k") (auto simp: top_def simp del: split_paired_All)
  have 2: "prio c b < prio c b0 \<longleftrightarrow> \<not> top" if "wins (prio c) items k (b, s, l)" for b s l
    using wins_minimal [OF that] by (fastforce simp: top_def)
  have 3: "wins (prio c) (items @ [it]) k (b, s, l) \<longleftrightarrow>
      k0 = k \<and> b = b0 \<and> s = s0 \<and> l = l0 \<and> top \<or> wins (prio c) items k (b, s, l) \<and> (k0 = k \<longrightarrow> \<not> top)" for b s l
    unfolding wins_snoc using 2 [of b s l] by (auto simp: it top_def)
  have "foldl (\<lambda>c (k, b, s, l). register k b s l c) (clear c) (items @ [it]) = register k0 b0 s0 l0 ?c"
    by (simp add: it)
  then show ?case unfolding 3 using 1 by (cases "k0 = k \<and> top") auto
qed

end

text \<open>The catalog is such a registry.\<close>

definition entryOf :: "Catalog \<Rightarrow> string \<Rightarrow> string \<Rightarrow> int64 \<Rightarrow> string \<Rightarrow> Entry" where
  "entryOf c key bucket sz lm =
     \<lparr>eKey = key, eBucket = bucket, eBucketType = bucketType c bucket, eRoute = routeFor bucket key,
      eSize = sz, eLastModified = lm\<rparr>"

lemma entryOf_sel [simp]:
  "eKey (entryOf c k b s l) = k" "eBucket (entryOf c k b s l) = b" "eRoute (entryOf c k b s l) = routeFor b k"
  "eSize (entryOf c k b s l) = s" "eLastModified (entryOf c k b s l) = l"
  "eBucketType (entryOf c k b s l) = bucketType c b"
  by (simp_all add: entryOf_def)

interpretation cat: registry Lookup Register SetEntry Remove Clear priority entryOf
proof unfold_locales
  show "Lookup (Register k b s l c) k' =
         (if k' = k \<and> (\<forall>e. Lookup c k = Some e \<longrightarrow> priority c b \<le> priority c (eBucket e))
          then Some (entryOf c k b s l) else Lookup c k')" for k b s l c k'
    by (auto simp: Register_cases Lookup_def entryOf_def not_less)
qed (auto simp: SetEntry_eq Remove_eq Lookup_def entryOf_def Clear_def Register_cases fun_eq_iff)

section \<open>Listing\<close>

interpretation keyLess: strict_weak_order keyLess
  unfolding keyLess_def by (rule strict_weak_order_field)

lemma byKey_eKey: "cat_inv c \<Longrightarrow> (k, e) \<in> set (byKey c) \<Longrightarrow> eKey e = k"
  using cat_invD(1,3) by (fastforce simp: gm_get_in_set entry_ok_def)

lemma map_eKey: "cat_inv c \<Longrightarrow> map eKey (map snd (byKey c)) = map fst (byKey c)"
  using byKey_eKey by auto

lemma set_ListAll:
  assumes "cat_inv c"
  shows "e \<in> set (ListAll c) \<longleftrightarrow> Lookup c (eKey e) = Some e"
proof -
  have "e \<in> set (ListAll c) \<longleftrightarrow> (\<exists>k. (k, e) \<in> set (byKey c))"
    by (force simp: ListAll_def)
  also have "\<dots> \<longleftrightarrow> (eKey e, e) \<in> set (byKey c)"
    using byKey_eKey [OF assms] by blast
  also have "\<dots> \<longleftrightarrow> Lookup c (eKey e) = Some e"
    by (simp add: Lookup_def gm_get_in_set [OF cat_invD(1) [OF assms]])
  finally show ?thesis .
qed

lemma distinct_ListAll: "cat_inv c \<Longrightarrow> distinct (map eKey (ListAll c))"
proof -
  assume "cat_inv c"
  then have "distinct (map eKey (map snd (byKey c)))"
    using cat_invD(1) by (simp add: map_eKey gm_ok_def del: map_map)
  moreover have "mset (map eKey (ListAll c)) = mset (map eKey (map snd (byKey c)))"
    by (simp add: ListAll_def del: map_map)
  ultimately show ?thesis by (metis mset_eq_imp_distinct_iff)
qed

lemma sorted_ListAll:
  assumes "cat_inv c" shows "sorted_wrt (<) (map eKey (ListAll c))"
proof -
  have "sorted (map eKey (ListAll c))"
    using keyLess.sorted_slice [of "map snd (byKey c)"]
    by (simp add: ListAll_def keyLess_def not_less sorted_wrt_map)
  with distinct_ListAll [OF assms] show ?thesis by (simp add: strict_sorted_iff)
qed

lemma ListAll_unique:
  assumes "cat_inv c" and "cat_inv c'" and "\<And>k. Lookup c k = Lookup c' k"
  shows "ListAll c = ListAll c'"
proof -
  have "sorted_wrt (\<lambda>a b. eKey a < eKey b) (ListAll c)" "sorted_wrt (\<lambda>a b. eKey a < eKey b) (ListAll c')"
    using assms(1,2) sorted_ListAll by (auto simp: sorted_wrt_map)
  moreover have "mset (ListAll c) = mset (ListAll c')"
    using assms distinct_ListAll
    by (intro set_eq_iff_mset_eq_distinct [THEN iffD1])
       (auto simp: set_ListAll distinct_map)
  moreover have "a = b" if "a \<in> set (ListAll c)" "b \<in> set (ListAll c)" "eKey a = eKey b" for a b
    using that assms(1) by (simp add: set_ListAll)
  ultimately show ?thesis
    by (intro keyLess.slice_unique)
       (auto simp: keyLess_def elim: sorted_wrt_mono_rel [rotated])
qed

section \<open>Properties of the catalog\<close>

text \<open>
  C14. In every state the catalog's operations can produce, in whatever order and from whichever
  goroutine they come, a route lookup returns a registered entry of exactly that route (never
  the zero entry), and a registered entry's key, route and bucket type agree with its bucket.
\<close>

theorem catalog_reachable_consistent:
  assumes "cat_reachable UNIV c"
  shows "(\<forall>r e. LookupByRoute c r = Some e \<longrightarrow> Lookup c (eKey e) = Some e \<and> eRoute e = r) \<and>
         (\<forall>k e. Lookup c k = Some e \<longrightarrow>
            eKey e = k \<and> eRoute e = routeFor (eBucket e) k \<and> eBucketType e = bucketType c (eBucket e))"
  using cat_reachable_inv [OF assms] LookupByRoute_inv
  by (auto simp: Lookup_def entry_ok_def dest: cat_invD(3))

text \<open>
  C15. When bucket names have no slash, the route index answers exactly for the registered entries:
  it is a function of the key index alone.
\<close>

theorem catalog_route_index_exact:
  assumes "cat_reachable B c" and "\<forall>b \<in> B. slash_free b"
  shows "LookupByRoute c r = Some e \<longleftrightarrow> Lookup c (eKey e) = Some e \<and> eRoute e = r"
proof
  show "LookupByRoute c r = Some e \<Longrightarrow> Lookup c (eKey e) = Some e \<and> eRoute e = r"
    using LookupByRoute_inv [OF cat_reachable_inv [OF assms(1)]] by blast
  show "Lookup c (eKey e) = Some e \<and> eRoute e = r \<Longrightarrow> LookupByRoute c r = Some e"
    using cat_reachable_complete [OF assms]
    by (auto simp: LookupByRoute_def Lookup_def routes_complete_def)
qed

text \<open>
  The listing is strictly sorted by key, holds exactly the registered entries, and does not
  depend on the iteration order of Go's map: two catalogs with the same lookups list the same.
\<close>

theorem ListAll_deterministic:
  assumes "cat_reachable UNIV c" and "cat_reachable UNIV c'"
  shows "sorted_wrt (<) (map eKey (ListAll c)) \<and>
         (\<forall>e. e \<in> set (ListAll c) \<longleftrightarrow> Lookup c (eKey e) = Some e) \<and>
         ((\<forall>k. Lookup c k = Lookup c' k) \<longrightarrow> ListAll c = ListAll c')"
  using assms [THEN cat_reachable_inv] sorted_ListAll set_ListAll ListAll_unique by blast

text \<open>
  C16. Registering any sequence of files into a cleared catalog, the owner of a key is a bucket of
  minimal priority value among those the key was registered from, and of equal ones the last.
\<close>

theorem Register_sequence_owner:
  "Lookup (foldl (\<lambda>c (k, b, s, l). Register k b s l c) (Clear c) items) k = Some e \<longleftrightarrow>
     (\<exists>b s l. wins (priority c) items k (b, s, l) \<and> e = entryOf c k b s l)"
  by (rule cat.register_all)

text \<open>A run with three buckets, for the witnesses.\<close>

definition witness_catalog :: Catalog where
  "witness_catalog =
     Remove ''c'' (Register ''c'' ''pub'' 1 [] (SetEntry ''a'' ''priv'' 3 []
       (Register ''b'' ''npm'' 2 [] (Register ''a'' ''pub'' 3 []
          (catalog_New (\<lambda>b. if b = ''pub'' then 0 else if b = ''priv'' then 1 else 2) (\<lambda>b. ''private''))))))"

lemma witness_catalog_reachable: "cat_reachable {''pub'', ''priv'', ''npm''} witness_catalog"
  unfolding witness_catalog_def by (intro reach_step [OF _ step_Remove] reach_step [OF _ step_Register]
      reach_step [OF _ step_Set] reach_New) simp_all

lemma cat_step_mono: "cat_step B c c' \<Longrightarrow> B \<subseteq> B' \<Longrightarrow> cat_step B' c c'"
  by (induction rule: cat_step.induct) (simp_all add: cat_step.intros subset_iff)

lemma cat_reachable_mono: "cat_reachable B c \<Longrightarrow> B \<subseteq> B' \<Longrightarrow> cat_reachable B' c"
  by (induction rule: cat_reachable.induct) (blast intro: cat_reachable.intros cat_step_mono)+

theorem catalog_reachable_consistent_witness:
  "LookupByRoute witness_catalog ''/priv/a'' = Some (entryOf witness_catalog ''a'' ''priv'' 3 []) \<and>
   Lookup witness_catalog ''a'' = Some (entryOf witness_catalog ''a'' ''priv'' 3 [])"
proof -
  have "cat_reachable UNIV witness_catalog" by (rule cat_reachable_mono [OF witness_catalog_reachable]) simp
  note t = catalog_reachable_consistent [OF this]
  have "LookupByRoute witness_catalog ''/priv/a'' = Some (entryOf witness_catalog ''a'' ''priv'' 3 [])" by code_simp
  moreover from this t have "Lookup witness_catalog (eKey (entryOf witness_catalog ''a'' ''priv'' 3 [])) =
      Some (entryOf witness_catalog ''a'' ''priv'' 3 [])" by blast
  ultimately show ?thesis unfolding entryOf_sel by blast
qed

theorem catalog_route_index_exact_witness:
  "LookupByRoute witness_catalog ''/npm/b'' = Some (entryOf witness_catalog ''b'' ''npm'' 2 [])"
proof -
  have "\<forall>b \<in> {''pub'', ''priv'', ''npm''}. slash_free b" by (simp add: slash_free_def)
  from catalog_route_index_exact [OF witness_catalog_reachable this, of "''/npm/b''" "entryOf witness_catalog ''b'' ''npm'' 2 []"]
  show ?thesis by (simp add: routeFor_def) code_simp
qed

theorem ListAll_deterministic_witness:
  "sorted_wrt (<) (map eKey (ListAll witness_catalog)) \<and> map eKey (ListAll witness_catalog) = [''a'', ''b'']"
proof -
  have "cat_reachable UNIV witness_catalog" by (rule cat_reachable_mono [OF witness_catalog_reachable]) simp
  from ListAll_deterministic [OF this this] have "sorted_wrt (<) (map eKey (ListAll witness_catalog))" by blast
  moreover have "map eKey (ListAll witness_catalog) = [''a'', ''b'']" by code_simp
  ultimately show ?thesis by blast
qed

end
