(* ===== verification/Catalog_Manifests.thy ===== *)
theory Catalog_Manifests
  imports Catalog
begin

text \<open>
  Persistence of the catalog: the JSON manifests \<^verbatim>\<open>ManifestForBucket\<close> and \<^verbatim>\<open>json.Marshal\<close> produce
  and \<^verbatim>\<open>LoadManifests\<close> reads back (\<^verbatim>\<open>internal/catalog/catalog.go\<close>).

  Shown here: the encoder and the decoder of a manifest are inverse, loading manifests is a bulk
  registration, the manifests of a catalog restore it, and when the order of the manifests
  matters.
\<close>

section \<open>Decoding what was encoded\<close>

lemma entry_tags [simp]:
  "keyIs ''key'' ''key''" "keyIs ''bucket'' ''bucket''" "keyIs ''bucket_type'' ''bucket_type''"
  "keyIs ''route'' ''route''" "keyIs ''size'' ''size''" "keyIs ''last_modified'' ''last_modified''"
  "keyIs ''files'' ''files''"
  by (simp_all add: keyIs_def)

lemma entry_tags_differ [simp]:
  "\<not> keyIs ''bucket'' ''key''" "\<not> keyIs ''bucket_type'' ''key''" "\<not> keyIs ''bucket_type'' ''bucket''"
  "\<not> keyIs ''route'' ''key''" "\<not> keyIs ''route'' ''bucket''" "\<not> keyIs ''route'' ''bucket_type''"
  "\<not> keyIs ''size'' ''key''" "\<not> keyIs ''size'' ''bucket''" "\<not> keyIs ''size'' ''bucket_type''"
  "\<not> keyIs ''size'' ''route''" "\<not> keyIs ''last_modified'' ''key''" "\<not> keyIs ''last_modified'' ''bucket''"
  "\<not> keyIs ''last_modified'' ''bucket_type''" "\<not> keyIs ''last_modified'' ''route''"
  "\<not> keyIs ''last_modified'' ''size''" "\<not> keyIs ''version'' ''files''" "\<not> keyIs ''bucket'' ''files''"
  by code_simp+

lemma decodeInt_FormatInt [simp]: "decodeInt n (JNum (FormatInt (sint (s :: int64)))) = Some (sint s)"
  using Atoi_FormatInt [of "sint s"] sint_ge [of s] sint_lt [of s] by (simp add: decodeInt_def min64_def max64_def)

lemma decodeEntry_encodeEntry [simp]: "decodeEntry (encodeEntry e) = Some e"
  by (simp add: decodeEntry_def encodeEntry_def decodeEntryField_def decodeString_def zeroEntry_def)

text \<open>The entries JSON can carry: their strings are valid UTF-8.\<close>

definition entry_utf8 :: "Entry \<Rightarrow> bool" where
  "entry_utf8 e \<longleftrightarrow> utf8_ok (eKey e) \<and> utf8_ok (eBucket e) \<and> utf8_ok (eBucketType e) \<and>
                   utf8_ok (eRoute e) \<and> utf8_ok (eLastModified e)"

lemma tags_utf8 [simp]:
  "utf8_ok ''key''" "utf8_ok ''bucket''" "utf8_ok ''bucket_type''" "utf8_ok ''route''" "utf8_ok ''size''"
  "utf8_ok ''last_modified''" "utf8_ok ''version''" "utf8_ok ''files''"
  by code_simp+

lemma json_ok_encodeEntry: "entry_utf8 e \<Longrightarrow> json_ok (encodeEntry e)"
  by (auto simp: encodeEntry_def entry_utf8_def)

lemma those_map_Some [simp]: "those (map (\<lambda>x. Some (f x)) xs) = Some (map f xs)"
  by (induction xs) auto

lemma decodeEntries_encode [simp]: "decodeEntries (JArr (map encodeEntry es)) = Some (Some es)"
  by (simp add: decodeEntries_def comp_def)

lemma decodeManifestFiles_marshal:
  assumes "utf8_ok (mBucket m)" and "\<forall>e \<in> set (mFiles m). entry_utf8 e"
  shows "marshalManifest m = Inr body \<Longrightarrow> decodeManifestFiles body = Some (mFiles m)"
proof -
  have "json_ok (encodeManifest m)"
    using assms by (auto simp: encodeManifest_def json_ok_encodeEntry)
  then show "marshalManifest m = Inr body \<Longrightarrow> decodeManifestFiles body = Some (mFiles m)"
    by (auto simp: marshalManifest_def decodeManifestFiles_def json_Parse_Print)
       (simp add: encodeManifest_def unmarshalEnvelope_def)
qed

section \<open>Loading is bulk registration\<close>

text \<open>The registrations a manifest amounts to.\<close>

definition manifestItems :: "BucketManifest \<Rightarrow> reg_item list" where
  "manifestItems m =
     (if bmContent m = [] then []
      else (case decodeManifestFiles (bmContent m) of
              None \<Rightarrow> []
            | Some files \<Rightarrow>
                map (\<lambda>e. (eKey e, if eBucket e = [] then bmBucket m else eBucket e, eSize e, eLastModified e))
                  (filter (\<lambda>e. eKey e \<noteq> []) files)))"

lemma loadManifest_items:
  "loadManifest m c = foldl (\<lambda>c (k, b, s, l). Register k b s l c) c (manifestItems m)"
proof -
  have "foldl (\<lambda>c item. loadItem mb item c) c files =
        foldl (\<lambda>c (k, b, s, l). Register k b s l c) c
          (map (\<lambda>e. (eKey e, if eBucket e = [] then mb else eBucket e, eSize e, eLastModified e))
            (filter (\<lambda>e. eKey e \<noteq> []) files))" for mb files
    by (induction files arbitrary: c) (auto simp: loadItem_def Let_def)
  then show ?thesis
    by (simp add: loadManifest_def manifestItems_def split: option.split)
qed

lemma LoadManifests_items:
  "LoadManifests ms c = foldl (\<lambda>c (k, b, s, l). Register k b s l c) (Clear c) (concat (map manifestItems ms))"
proof -
  have "foldl (\<lambda>c m. loadManifest m c) d ms =
        foldl (\<lambda>c (k, b, s, l). Register k b s l c) d (concat (map manifestItems ms))" for d
    by (induction ms arbitrary: d) (simp_all add: loadManifest_items)
  then show ?thesis by (simp add: LoadManifests_def)
qed

lemma LoadManifests_lookup:
  "Lookup (LoadManifests ms c) k = Some e \<longleftrightarrow>
     (\<exists>b s l. wins (priority c) (concat (map manifestItems ms)) k (b, s, l) \<and> e = entryOf c k b s l)"
  unfolding LoadManifests_items by (rule cat.register_all)

text \<open>The manifests of a catalog, as \<^verbatim>\<open>PersistManifests\<close> writes them.\<close>

definition manifestsOf :: "Catalog \<Rightarrow> string list \<Rightarrow> BucketManifest list" where
  "manifestsOf c bs =
     map (\<lambda>b. \<lparr>bmBucket = b, bmContent = (case marshalManifest (ManifestForBucket c b) of Inr body \<Rightarrow> body | Inl e \<Rightarrow> [])\<rparr>) bs"

definition catalog_storable :: "Catalog \<Rightarrow> string list \<Rightarrow> bool" where
  "catalog_storable c bs \<longleftrightarrow>
     (\<forall>e \<in> set (ListAll c). entry_utf8 e \<and> eKey e \<noteq> [] \<and> eBucket e \<noteq> [] \<and> eBucket e \<in> set bs) \<and>
     (\<forall>b \<in> set bs. utf8_ok b)"

lemma json_Print_manifest_nonempty: "json_Print (encodeManifest m) \<noteq> []"
  by (simp add: encodeManifest_def)

lemma manifestItems_of:
  assumes "catalog_storable c bs" and "m \<in> set (manifestsOf c bs)"
  shows "manifestItems m =
           map (\<lambda>e. (eKey e, eBucket e, eSize e, eLastModified e)) (ListByBucket c (bmBucket m))"
proof -
  let ?body = "json_Print (encodeManifest (ManifestForBucket c (bmBucket m)))"
  have m: "bmContent m = ?body" "bmBucket m \<in> set bs"
    using assms(2) by (auto simp: manifestsOf_def marshalManifest_def)
  have files: "\<forall>e \<in> set (ListByBucket c (bmBucket m)). entry_utf8 e \<and> eKey e \<noteq> [] \<and> eBucket e \<noteq> []"
    using assms(1) by (auto simp: catalog_storable_def ListByBucket_def)
  have "decodeManifestFiles ?body = Some (ListByBucket c (bmBucket m))"
    using decodeManifestFiles_marshal [of "ManifestForBucket c (bmBucket m)" ?body] assms(1) m files
    by (auto simp: ManifestForBucket_def catalog_storable_def marshalManifest_def)
  with files m show ?thesis
    by (simp add: manifestItems_def json_Print_manifest_nonempty cong: filter_cong)
qed

lemma manifests_all_items:
  assumes "cat_inv c" and "catalog_storable c bs"
  shows "x \<in> set (concat (map manifestItems (manifestsOf c bs))) \<longleftrightarrow>
           (\<exists>e. Lookup c (eKey e) = Some e \<and> x = (eKey e, eBucket e, eSize e, eLastModified e))"
proof -
  have "x \<in> set (concat (map manifestItems (manifestsOf c bs))) \<longleftrightarrow>
        (\<exists>b \<in> set bs. x \<in> (\<lambda>e. (eKey e, eBucket e, eSize e, eLastModified e)) ` set (ListByBucket c b))"
    using manifestItems_of [OF assms(2)] by (auto simp: manifestsOf_def)
  also have "\<dots> \<longleftrightarrow> (\<exists>e \<in> set (ListAll c). x = (eKey e, eBucket e, eSize e, eLastModified e))"
    using assms(2) by (auto simp: ListByBucket_def catalog_storable_def)
  finally show ?thesis by (auto simp: set_ListAll [OF assms(1)])
qed

lemma entryOf_self:
  "cat_inv c \<Longrightarrow> Lookup c k = Some e \<Longrightarrow> bucketType c' = bucketType c \<Longrightarrow>
   entryOf c' k (eBucket e) (eSize e) (eLastModified e) = e"
  using cat_invD(3) [of c k e] by (simp add: Lookup_def entryOf_def entry_ok_def)

lemma manifests_restore:
  assumes inv: "cat_inv c" and st: "catalog_storable c bs" and bt: "bucketType c' = bucketType c"
  shows "Lookup (LoadManifests (manifestsOf c bs) c') k = Lookup c k"
proof (rule option.expand)
  let ?items = "concat (map manifestItems (manifestsOf c bs))"
  have key: "x = y" if x: "x \<in> set ?items" and y: "y \<in> set ?items" and k: "fst x = k" "fst y = k" for x y
  proof -
    obtain e where "Lookup c (eKey e) = Some e" "x = (eKey e, eBucket e, eSize e, eLastModified e)"
      using x unfolding manifests_all_items [OF inv st] by blast
    moreover obtain f where "Lookup c (eKey f) = Some f" "y = (eKey f, eBucket f, eSize f, eLastModified f)"
      using y unfolding manifests_all_items [OF inv st] by blast
    ultimately show "x = y" using k by simp
  qed
  have w: "wins (priority c') ?items k v \<longleftrightarrow> (k, v) \<in> set ?items" for v
  proof -
    have "wins (priority c') ?items k v \<longleftrightarrow>
          (k, v) \<in> set ?items \<and> (\<forall>x \<in> set ?items. fst x = k \<longrightarrow> priority c' (fst v) \<le> priority c' (fst (snd x)))"
      by (rule wins_perm) (rule key)
    moreover have "priority c' (fst v) \<le> priority c' (fst (snd x))"
      if "(k, v) \<in> set ?items" "x \<in> set ?items" "fst x = k" for x
      using key [OF that(1,2) _ that(3)] by auto
    ultimately show ?thesis by blast
  qed
  have iff: "Lookup (LoadManifests (manifestsOf c bs) c') k = Some e \<longleftrightarrow> Lookup c k = Some e" for e
  proof -
    have "Lookup (LoadManifests (manifestsOf c bs) c') k = Some e \<longleftrightarrow>
          (\<exists>f. Lookup c k = Some f \<and> eKey f = k \<and> e = entryOf c' k (eBucket f) (eSize f) (eLastModified f))"
      unfolding LoadManifests_lookup w manifests_all_items [OF inv st] by auto
    also have "\<dots> \<longleftrightarrow> (\<exists>f. Lookup c k = Some f \<and> e = f)"
      using entryOf_self [OF inv _ bt] cat_invD(3) [OF inv] unfolding Lookup_def entry_ok_def by metis
    finally show ?thesis by simp
  qed
  show "(Lookup (LoadManifests (manifestsOf c bs) c') k = None) = (Lookup c k = None)"
    using iff by (metis option.exhaust option.distinct(1))
  show "\<lbrakk>Lookup (LoadManifests (manifestsOf c bs) c') k \<noteq> None; Lookup c k \<noteq> None\<rbrakk> \<Longrightarrow>
        the (Lookup (LoadManifests (manifestsOf c bs) c') k) = the (Lookup c k)"
    using iff by force
qed

section \<open>Properties of the manifests\<close>

text \<open>
  Restart safety: the manifests of a reachable catalog, read back by \<^verbatim>\<open>LoadManifests\<close> under the
  same configuration, restore the owner, size and timestamp of every key, and with it the
  listing, provided every string is valid UTF-8, no key or bucket name is empty, and every owner
  is among the buckets whose manifests are written.
\<close>

theorem manifests_roundtrip:
  assumes "cat_reachable UNIV c" and "catalog_storable c bs" and "bucketType c' = bucketType c"
  shows "(\<forall>k. Lookup (LoadManifests (manifestsOf c bs) c') k = Lookup c k) \<and>
         ListAll (LoadManifests (manifestsOf c bs) c') = ListAll c"
  using manifests_restore [OF cat_reachable_inv [OF assms(1)] assms(2,3)]
  by (auto intro: ListAll_unique cat_reachable_inv [OF assms(1)])

theorem manifests_roundtrip_witness:
  "ListAll (LoadManifests (manifestsOf witness_catalog [''pub'', ''priv'', ''npm'']) (Clear witness_catalog)) =
   ListAll witness_catalog"
proof -
  have "cat_reachable UNIV witness_catalog" by (rule cat_reachable_mono [OF witness_catalog_reachable]) simp
  moreover have "catalog_storable witness_catalog [''pub'', ''priv'', ''npm'']" by code_simp
  ultimately show ?thesis using manifests_roundtrip [of witness_catalog _ "Clear witness_catalog"] by simp
qed

text \<open>
  When the order of the manifests does not matter: if, among all files the manifests list, two of
  the same key from buckets of equal priority are the same file, then any two orders of the
  manifests give the same catalog.
\<close>

theorem LoadManifests_order:
  assumes "mset ms = mset ms'"
    and "\<forall>x \<in> set (concat (map manifestItems ms)). \<forall>y \<in> set (concat (map manifestItems ms)).
           fst x = fst y \<and> priority c (fst (snd x)) = priority c (fst (snd y)) \<longrightarrow> x = y"
  shows "Lookup (LoadManifests ms c) k = Lookup (LoadManifests ms' c) k"
proof -
  have s: "set (concat (map manifestItems ms')) = set (concat (map manifestItems ms))"
    using mset_eq_setD [OF assms(1)] by simp
  have u: "x = y" if "x \<in> set (concat (map manifestItems ms))" "y \<in> set (concat (map manifestItems ms))"
      "fst x = k" "fst y = k" "priority c (fst (snd x)) = priority c (fst (snd y))" for x y
    using that by (intro assms(2) [rule_format]) simp_all
  have "wins (priority c) (concat (map manifestItems ns)) k w \<longleftrightarrow>
        (k, w) \<in> set (concat (map manifestItems ms)) \<and>
        (\<forall>x \<in> set (concat (map manifestItems ms)). fst x = k \<longrightarrow> priority c (fst w) \<le> priority c (fst (snd x)))"
    if "set (concat (map manifestItems ns)) = set (concat (map manifestItems ms))" for w ns
    unfolding that [symmetric] by (rule wins_perm) (rule u [folded that])
  from this [OF refl] this [OF s]
  have "wins (priority c) (concat (map manifestItems ms)) k w \<longleftrightarrow>
        wins (priority c) (concat (map manifestItems ms')) k w" for w by blast
  then have "Lookup (LoadManifests ms c) k = Some e \<longleftrightarrow> Lookup (LoadManifests ms' c) k = Some e" for e
    unfolding LoadManifests_lookup by simp
  then show ?thesis by (metis option.exhaust)
qed

definition witness_manifests :: "BucketManifest list" where
  "witness_manifests =
     [\<lparr>bmBucket = ''pub'', bmContent = ''{\"files\":[{\"key\":\"a\",\"size\":3}]}''\<rparr>,
      \<lparr>bmBucket = ''npm'', bmContent = ''[{\"key\":\"a\",\"size\":4},{\"key\":\"b\"}]''\<rparr>]"

theorem LoadManifests_order_witness:
  "Lookup (LoadManifests witness_manifests witness_catalog) ''a'' =
   Lookup (LoadManifests (rev witness_manifests) witness_catalog) ''a'' \<and>
   map_option eBucket (Lookup (LoadManifests witness_manifests witness_catalog) ''a'') = Some ''pub''"
proof -
  have "\<forall>x \<in> set (concat (map manifestItems witness_manifests)).
        \<forall>y \<in> set (concat (map manifestItems witness_manifests)).
          fst x = fst y \<and> priority witness_catalog (fst (snd x)) = priority witness_catalog (fst (snd y)) \<longrightarrow> x = y"
    by code_simp
  from LoadManifests_order [OF _ this, of "rev witness_manifests" "''a''"]
  have "Lookup (LoadManifests witness_manifests witness_catalog) ''a'' =
        Lookup (LoadManifests (rev witness_manifests) witness_catalog) ''a''" by simp
  moreover have "map_option eBucket (Lookup (LoadManifests witness_manifests witness_catalog) ''a'') = Some ''pub''"
    by code_simp
  ultimately show ?thesis by blast
qed

text \<open>
  Where it does matter, against the comment of \<^verbatim>\<open>LoadManifests\<close>: manifests listing the same key
  under two buckets that are no longer configured (equal priority) give an owner that depends
  on the order.
\<close>

theorem LoadManifests_order_matters:
  "\<exists>ms c. map_option eBucket (Lookup (LoadManifests ms c) ''k'') \<noteq>
          map_option eBucket (Lookup (LoadManifests (rev ms) c) ''k'')"
proof -
  let ?ms = "[\<lparr>bmBucket = ''pub'', bmContent = ''[{\"key\":\"k\",\"bucket\":\"old1\"}]''\<rparr>,
              \<lparr>bmBucket = ''priv'', bmContent = ''[{\"key\":\"k\",\"bucket\":\"old2\"}]''\<rparr>]"
  have 1: "map_option eBucket (Lookup (LoadManifests ?ms witness_catalog) ''k'') = Some ''old2''" by code_simp
  have 2: "map_option eBucket (Lookup (LoadManifests (rev ?ms) witness_catalog) ''k'') = Some ''old1''" by code_simp
  show ?thesis by (intro exI [of _ ?ms] exI [of _ witness_catalog]) (simp only: 1 2, simp)
qed

end
