(* ===== verification/Config.thy ===== *)
theory Config
  imports Go_Time
begin

text \<open>
  The configuration (\<^verbatim>\<open>internal/config/config.go\<close>): the bucket table the rest of the service is
  driven by, its parsers, and \<^verbatim>\<open>Load\<close>. The environment is a function from names to values
  (\<^verbatim>\<open>os.Getenv\<close>, the empty string where a variable is not set).

  Shown here: which names \<^verbatim>\<open>Load\<close> accepts as members of a virtual repository, what the bucket table
  of a loaded configuration looks like, that \<^verbatim>\<open>BucketPriority\<close> is the position of the bucket that
  \<^verbatim>\<open>BucketByName\<close> finds, and that a printed bucket table is read back.
\<close>

section \<open>Buckets\<close>

type_synonym RepoKind = string

definition KindHosted :: RepoKind where "KindHosted = ''hosted''"
definition KindProxy :: RepoKind where "KindProxy = ''proxy''"
definition KindVirtual :: RepoKind where "KindVirtual = ''virtual''"

record Bucket =
  bName :: string
  bManifestKey :: string
  bPublic :: bool
  bKind :: RepoKind
  bUpstreamURL :: string
  bCacheTTL :: duration
  bMembers :: "string list"

definition HasStorage :: "Bucket \<Rightarrow> bool" where
  "HasStorage b \<longleftrightarrow> bKind b \<noteq> KindVirtual"

text \<open>\<^verbatim>\<open>Bucket{}\<close>, from which the literals below set single fields.\<close>

definition zeroBucket :: Bucket where
  "zeroBucket = \<lparr>bName = [], bManifestKey = [], bPublic = False, bKind = [], bUpstreamURL = [],
                 bCacheTTL = 0, bMembers = []\<rparr>"

record Config =
  cAWSRegion :: string
  cS3Endpoint :: string
  cS3ExternalEndpoint :: string
  cAWSAccessKeyID :: string
  cAWSSecretAccessKey :: string
  cHost :: string
  cPort :: int
  cBuckets :: "Bucket list"
  cAPIKeys :: "string list"
  cRateLimitPerSecond :: "64 word" \<comment> \<open>the bits of a \<^verbatim>\<open>float64\<close>\<close>
  cRateLimitBurst :: int
  cSyncInterval :: duration

definition defaultManifestKey :: string where
  "defaultManifestKey = ''.parparchik/files.json''"

section \<open>Parsing\<close>

type_synonym getenv = "string \<Rightarrow> string"

definition env :: "getenv \<Rightarrow> string \<Rightarrow> string \<Rightarrow> string" where
  "env getenv name def = (if getenv name \<noteq> [] then getenv name else def)"

text \<open>One token of \<^verbatim>\<open>parseBucketsList\<close>; \<open>None\<close> where the loop continues with the next one.\<close>

definition parseBucketToken :: "string \<Rightarrow> Bucket option" where
  "parseBucketToken raw =
     (let token = TrimSpace raw in
      if token = [] then None
      else let parts = Split token (CHR '':'') in
        if parts ! 0 = [] then None
        else let b = zeroBucket\<lparr>bName := parts ! 0, bManifestKey := defaultManifestKey, bKind := KindHosted\<rparr>;
                 b = (if length parts > 1 \<and> parts ! 1 \<noteq> [] then b\<lparr>bManifestKey := parts ! 1\<rparr> else b);
                 b = (if length parts > 2 \<and> parts ! 2 = ''public'' then b\<lparr>bPublic := True\<rparr> else b)
             in Some b)"

definition parseBucketsList :: "string \<Rightarrow> Bucket list" where
  "parseBucketsList raw = List.map_filter parseBucketToken (Split raw (CHR '',''))"

text \<open>One token of \<^verbatim>\<open>parseProxyRepos\<close>: skipped (\<open>Inr None\<close>), a bucket, or a malformed ttl.\<close>

definition parseProxyToken :: "go_float \<Rightarrow> string \<Rightarrow> go_error + Bucket option" where
  "parseProxyToken fl raw =
     (let token = TrimSpace raw in
      if token = [] then Inr None
      else let parts = Split token (CHR ''|'') in
        if length parts < 2 \<or> parts ! 0 = [] \<or> parts ! 1 = [] then Inr None
        else let b = zeroBucket\<lparr>bName := parts ! 0, bManifestKey := defaultManifestKey,
                                 bKind := KindProxy, bUpstreamURL := parts ! 1\<rparr>;
                 b = (if length parts > 2 \<and> parts ! 2 = ''public'' then b\<lparr>bPublic := True\<rparr> else b)
             in if length parts > 3 \<and> parts ! 3 \<noteq> []
                then (case ParseDuration fl (parts ! 3) of
                        Inl e \<Rightarrow> Inl (Errorf ''config: invalid PARPARCHIK_PROXY_REPOS ttl for %q: %w'' [parts ! 0] [e])
                      | Inr ttl \<Rightarrow> Inr (Some (b\<lparr>bCacheTTL := ttl\<rparr>)))
                else Inr (Some b))"

fun parseProxyTokens :: "go_float \<Rightarrow> string list \<Rightarrow> go_error + Bucket list" where
  "parseProxyTokens fl [] = Inr []"
| "parseProxyTokens fl (t # ts) =
     (case parseProxyToken fl t of
        Inl e \<Rightarrow> Inl e
      | Inr r \<Rightarrow>
          (case parseProxyTokens fl ts of
             Inl e \<Rightarrow> Inl e
           | Inr bs \<Rightarrow> Inr (case r of None \<Rightarrow> bs | Some b \<Rightarrow> b # bs)))"

definition parseProxyRepos :: "go_float \<Rightarrow> string \<Rightarrow> go_error + Bucket list" where
  "parseProxyRepos fl raw = parseProxyTokens fl (Split raw (CHR '',''))"

definition parseVirtualToken :: "string \<Rightarrow> Bucket option" where
  "parseVirtualToken raw =
     (let token = TrimSpace raw in
      if token = [] then None
      else let parts = Split token (CHR ''|'') in
        if length parts < 2 \<or> parts ! 0 = [] \<or> parts ! 1 = [] then None
        else let members = filter (\<lambda>m. m \<noteq> []) (map TrimSpace (Split (parts ! 1) (CHR ''+'')))
             in if members = [] then None
                else Some (zeroBucket\<lparr>bName := parts ! 0, bKind := KindVirtual, bMembers := members\<rparr>))"

definition parseVirtualRepos :: "string \<Rightarrow> Bucket list" where
  "parseVirtualRepos raw = List.map_filter parseVirtualToken (Split raw (CHR '',''))"

section \<open>Validation\<close>

text \<open>The map \<^verbatim>\<open>byName\<close>: of two buckets with one name the later stays.\<close>

definition bucketsByName :: "Bucket list \<Rightarrow> (string, Bucket) gomap" where
  "bucketsByName bs = foldl (\<lambda>m b. gm_set (bName b) b m) [] bs"

definition memberError :: "(string, Bucket) gomap \<Rightarrow> Bucket \<Rightarrow> string \<Rightarrow> go_error option" where
  "memberError byName virtual memberName =
     (case gm_get byName memberName of
        None \<Rightarrow> Some (Errorf ''config: virtual repo %q: member %q is not a configured bucket''
                       [bName virtual, memberName] [])
      | Some member \<Rightarrow>
          if bKind member = KindVirtual
          then Some (Errorf ''config: virtual repo %q: member %q is itself a virtual repo, nesting is not supported''
                       [bName virtual, memberName] [])
          else None)"

text \<open>The nested loops return the first error there is.\<close>

definition validateVirtualRepoMembers :: "Bucket list \<Rightarrow> Bucket list \<Rightarrow> go_error option" where
  "validateVirtualRepoMembers allBuckets virtualRepos =
     (case List.map_filter id
             (concat (map (\<lambda>v. map (memberError (bucketsByName allBuckets) v) (bMembers v)) virtualRepos)) of
        [] \<Rightarrow> None
      | e # _ \<Rightarrow> Some e)"

section \<open>Load\<close>

definition loadBuckets :: "getenv \<Rightarrow> go_error + Bucket list" where
  "loadBuckets getenv =
     (let raw = env getenv ''PARPARCHIK_BUCKETS'' [] in
      if raw \<noteq> [] then Inr (parseBucketsList raw)
      else let pub = env getenv ''PARPARCHIK_PUBLIC_BUCKET'' [];
               priv = env getenv ''PARPARCHIK_PRIVATE_BUCKET'' [] in
        if pub = [] \<or> priv = []
        then Inl (Errorf ''config: set PARPARCHIK_BUCKETS or both PARPARCHIK_PUBLIC_BUCKET and PARPARCHIK_PRIVATE_BUCKET'' [] [])
        else let manifest = env getenv ''PARPARCHIK_REGISTRY_MANIFEST_KEY'' defaultManifestKey
             in Inr [zeroBucket\<lparr>bName := pub, bManifestKey := manifest, bPublic := True, bKind := KindHosted\<rparr>,
                     zeroBucket\<lparr>bName := priv, bManifestKey := manifest, bPublic := False, bKind := KindHosted\<rparr>])"

text \<open>
  The bucket part of \<^verbatim>\<open>Load\<close>: hosted buckets, then proxies, then virtual repositories, validated
  once all of them are known.
\<close>

definition loadAllBuckets :: "go_float \<Rightarrow> getenv \<Rightarrow> go_error + Bucket list" where
  "loadAllBuckets fl getenv =
     (case loadBuckets getenv of
        Inl e \<Rightarrow> Inl e
      | Inr hosted \<Rightarrow>
          (case parseProxyRepos fl (env getenv ''PARPARCHIK_PROXY_REPOS'' []) of
             Inl e \<Rightarrow> Inl e
           | Inr proxyRepos \<Rightarrow>
               let virtualRepos = parseVirtualRepos (env getenv ''PARPARCHIK_VIRTUAL_REPOS'' []);
                   buckets = (hosted @ proxyRepos) @ virtualRepos
               in (case validateVirtualRepoMembers buckets virtualRepos of
                     Some e \<Rightarrow> Inl e
                   | None \<Rightarrow> Inr buckets)))"

definition parseAPIKeys :: "string \<Rightarrow> string list" where
  "parseAPIKeys raw =
     (if raw \<noteq> [] then filter (\<lambda>k. k \<noteq> []) (map TrimSpace (Split raw (CHR '',''))) else [])"

definition Load :: "go_float \<Rightarrow> getenv \<Rightarrow> go_error + Config" where
  "Load fl getenv =
     (case Atoi (env getenv ''PARPARCHIK_PORT'' ''8080'') of
        Inl e \<Rightarrow> Inl (Errorf ''config: invalid PARPARCHIK_PORT: %w'' [] [e])
      | Inr port \<Rightarrow>
     (case loadAllBuckets fl getenv of
        Inl e \<Rightarrow> Inl e
      | Inr buckets \<Rightarrow>
     (case ParseFloat fl (env getenv ''PARPARCHIK_RATE_LIMIT_PER_SECOND'' ''5'') of
        Inl e \<Rightarrow> Inl (Errorf ''config: invalid PARPARCHIK_RATE_LIMIT_PER_SECOND: %w'' [] [e])
      | Inr rateLimit \<Rightarrow>
     (case Atoi (env getenv ''PARPARCHIK_RATE_LIMIT_BURST'' ''10'') of
        Inl e \<Rightarrow> Inl (Errorf ''config: invalid PARPARCHIK_RATE_LIMIT_BURST: %w'' [] [e])
      | Inr burst \<Rightarrow>
     (case ParseDuration fl (env getenv ''PARPARCHIK_SYNC_INTERVAL'' ''5m'') of
        Inl e \<Rightarrow> Inl (Errorf ''config: invalid PARPARCHIK_SYNC_INTERVAL: %w'' [] [e])
      | Inr syncInterval \<Rightarrow>
          Inr \<lparr>cAWSRegion = env getenv ''AWS_REGION'' ''us-east-1'',
               cS3Endpoint = env getenv ''S3_ENDPOINT'' [],
               cS3ExternalEndpoint = env getenv ''S3_EXTERNAL_ENDPOINT'' [],
               cAWSAccessKeyID = env getenv ''AWS_ACCESS_KEY_ID'' [],
               cAWSSecretAccessKey = env getenv ''AWS_SECRET_ACCESS_KEY'' [],
               cHost = env getenv ''PARPARCHIK_HOST'' ''0.0.0.0'',
               cPort = port,
               cBuckets = buckets,
               cAPIKeys = parseAPIKeys (env getenv ''PARPARCHIK_API_KEYS'' []),
               cRateLimitPerSecond = rateLimit,
               cRateLimitBurst = burst,
               cSyncInterval = syncInterval\<rparr>)))))"

section \<open>Lookups\<close>

definition BucketByName :: "Config \<Rightarrow> string \<Rightarrow> Bucket option" where
  "BucketByName c name = List.find (\<lambda>b. bName b = name) (cBuckets c)"

definition IsPublic :: "Config \<Rightarrow> string \<Rightarrow> bool" where
  "IsPublic c name \<longleftrightarrow> (case BucketByName c name of None \<Rightarrow> False | Some b \<Rightarrow> bPublic b)"

definition BucketType :: "Config \<Rightarrow> string \<Rightarrow> string" where
  "BucketType c name = (if IsPublic c name then ''public'' else ''private'')"

fun bucketIndex :: "Bucket list \<Rightarrow> string \<Rightarrow> nat" where
  "bucketIndex [] name = 0"
| "bucketIndex (b # bs) name = (if bName b = name then 0 else Suc (bucketIndex bs name))"

definition BucketPriority :: "Config \<Rightarrow> string \<Rightarrow> nat" where
  "BucketPriority c name = bucketIndex (cBuckets c) name"

section \<open>Lemmas on the bucket table\<close>

lemma bucketIndex_le: "bucketIndex bs n \<le> length bs"
  by (induction bs) auto

lemma bucketIndex_unknown: "bucketIndex bs n = length bs \<longleftrightarrow> n \<notin> bName ` set bs"
  by (induction bs) auto

lemma bucketIndex_find:
  "List.find (\<lambda>b. bName b = n) bs = (if bucketIndex bs n < length bs then Some (bs ! bucketIndex bs n) else None)"
  by (induction bs) auto

lemma bucketIndex_inj:
  assumes "bucketIndex bs m = bucketIndex bs n" and "bucketIndex bs m < length bs"
  shows "m = n"
  using assms by (induction bs) (auto split: if_splits)

lemma parseBucketToken_Some:
  assumes "parseBucketToken raw = Some b"
  shows "bName b \<noteq> [] \<and> bKind b = KindHosted \<and> bMembers b = [] \<and> CHR '':'' \<notin> set (bName b)"
proof -
  let ?ps = "Split (TrimSpace raw) (CHR '':'')"
  have "?ps ! 0 \<in> set ?ps"
    by (intro nth_mem) simp
  then have "CHR '':'' \<notin> set (?ps ! 0)"
    by (rule Split_parts_free)
  with assms show ?thesis
    by (auto simp: parseBucketToken_def Let_def zeroBucket_def split: if_splits)
qed

lemma parseVirtualToken_Some:
  assumes "parseVirtualToken raw = Some b"
  shows "bName b \<noteq> [] \<and> bKind b = KindVirtual \<and> bMembers b \<noteq> []"
  using assms by (auto simp: parseVirtualToken_def Let_def zeroBucket_def split: if_splits)

lemma parseProxyToken_Some:
  assumes "parseProxyToken fl raw = Inr (Some b)"
  shows "bName b \<noteq> [] \<and> bKind b = KindProxy \<and> bUpstreamURL b \<noteq> []"
  using assms
  by (auto simp: parseProxyToken_def Let_def zeroBucket_def split: if_splits sum.splits)

lemma parseProxyTokens_all:
  assumes "parseProxyTokens fl ts = Inr bs" and "b \<in> set bs"
  shows "bName b \<noteq> [] \<and> bKind b = KindProxy \<and> bUpstreamURL b \<noteq> []"
  using assms
proof (induction ts arbitrary: bs)
  case (Cons t ts)
  then show ?case
    by (auto split: sum.splits option.splits dest: parseProxyToken_Some)
qed simp

lemma parseBucketsList_all:
  "b \<in> set (parseBucketsList raw) \<Longrightarrow> bName b \<noteq> [] \<and> bKind b = KindHosted"
  by (auto simp: parseBucketsList_def map_filter_def dest: parseBucketToken_Some)

lemma parseVirtualRepos_all:
  "b \<in> set (parseVirtualRepos raw) \<Longrightarrow> bName b \<noteq> [] \<and> bKind b = KindVirtual \<and> bMembers b \<noteq> []"
  by (auto simp: parseVirtualRepos_def map_filter_def dest: parseVirtualToken_Some)

lemma loadBuckets_all:
  "loadBuckets getenv = Inr bs \<Longrightarrow> b \<in> set bs \<Longrightarrow> bName b \<noteq> [] \<and> bKind b = KindHosted"
  by (auto simp: loadBuckets_def Let_def zeroBucket_def parseBucketsList_all split: if_splits)

lemma bucketsByName_get_gen:
  "gm_get (foldl (\<lambda>m b. gm_set (bName b) b m) m bs) n =
     (case List.find (\<lambda>b. bName b = n) (rev bs) of Some b \<Rightarrow> Some b | None \<Rightarrow> gm_get m n)"
proof (induction bs arbitrary: m)
  case (Cons b bs)
  then show ?case by (auto simp: find_append split: option.splits)
qed simp

lemma bucketsByName_get:
  "gm_get (bucketsByName bs) n = List.find (\<lambda>b. bName b = n) (rev bs)"
  by (simp add: bucketsByName_def bucketsByName_get_gen split: option.splits)

lemma validate_ok_member:
  assumes "validateVirtualRepoMembers bs vs = None" and "v \<in> set vs" and "m \<in> set (bMembers v)"
  shows "\<exists>b. List.find (\<lambda>b. bName b = m) (rev bs) = Some b \<and> bKind b \<noteq> KindVirtual"
proof -
  have "memberError (bucketsByName bs) v m = None"
    using assms
    by (auto simp: validateVirtualRepoMembers_def map_filter_def filter_empty_conv split: list.splits)
  then show ?thesis
    by (auto simp: memberError_def bucketsByName_get split: option.splits if_splits)
qed

text \<open>What \<^verbatim>\<open>Load\<close> guarantees about the bucket table it returns.\<close>

definition buckets_wf :: "Bucket list \<Rightarrow> bool" where
  "buckets_wf bs \<longleftrightarrow>
     (\<forall>b \<in> set bs. bName b \<noteq> [] \<and> bKind b \<in> {KindHosted, KindProxy, KindVirtual}) \<and>
     (\<forall>v \<in> set bs. bKind v = KindVirtual \<longrightarrow>
        bMembers v \<noteq> [] \<and>
        (\<forall>m \<in> set (bMembers v). \<exists>b. List.find (\<lambda>b. bName b = m) bs = Some b \<and> HasStorage b))"

lemma kinds_distinct [simp]:
  "KindHosted \<noteq> KindVirtual" "KindProxy \<noteq> KindVirtual" "KindHosted \<noteq> KindProxy"
  "KindVirtual \<noteq> KindHosted" "KindVirtual \<noteq> KindProxy" "KindProxy \<noteq> KindHosted"
  by (simp_all add: KindHosted_def KindProxy_def KindVirtual_def)

text \<open>
  The validation looks a member up in a map where the last bucket of a name wins, the resolver
  with \<^verbatim>\<open>BucketByName\<close>, where the first wins. The two agree because virtual repositories come last.
\<close>

lemma find_rev_nonvirtual:
  assumes "List.find P (rev (bs @ vs)) = Some b" and "bKind b \<noteq> KindVirtual"
    and "\<And>v. v \<in> set vs \<Longrightarrow> bKind v = KindVirtual"
    and "\<And>b. b \<in> set bs \<Longrightarrow> bKind b \<noteq> KindVirtual"
  shows "\<exists>b'. List.find P (bs @ vs) = Some b' \<and> bKind b' \<noteq> KindVirtual"
proof -
  from assms(1-3) have "List.find P (rev vs) = None"
    by (cases "List.find P (rev vs)") (auto simp: find_append dest: find_Some_in)
  with assms(1) have "b \<in> set bs" and "P b"
    by (auto simp: find_append dest: find_Some_in)
  then obtain b' where b': "List.find P bs = Some b'"
    by (cases "List.find P bs") (auto simp: find_None_notin)
  then have "b' \<in> set bs" by (auto dest: find_Some_in)
  with b' assms(4) show ?thesis by (simp add: find_append)
qed

lemma loadAllBuckets_wf:
  assumes "loadAllBuckets fl getenv = Inr bs"
  shows "buckets_wf bs"
proof -
  define vs where "vs = parseVirtualRepos (env getenv ''PARPARCHIK_VIRTUAL_REPOS'' [])"
  from assms obtain hs ps where hs: "loadBuckets getenv = Inr hs"
    and ps: "parseProxyRepos fl (env getenv ''PARPARCHIK_PROXY_REPOS'' []) = Inr ps"
    and bs: "bs = (hs @ ps) @ vs" and val: "validateVirtualRepoMembers bs vs = None"
    by (auto simp: loadAllBuckets_def vs_def Let_def split: sum.splits option.splits)
  have v: "bName b \<noteq> [] \<and> bKind b = KindVirtual \<and> bMembers b \<noteq> []" if "b \<in> set vs" for b
    using that parseVirtualRepos_all by (auto simp: vs_def)
  have h: "bName b \<noteq> [] \<and> (bKind b = KindHosted \<or> bKind b = KindProxy)" if "b \<in> set (hs @ ps)" for b
    using that loadBuckets_all [OF hs] parseProxyTokens_all [OF ps [unfolded parseProxyRepos_def]] by auto
  have nv: "bKind b \<noteq> KindVirtual" if "b \<in> set (hs @ ps)" for b
    using h [OF that] by auto
  have "\<exists>b. List.find (\<lambda>b. bName b = m) bs = Some b \<and> HasStorage b"
    if "r \<in> set vs" and "m \<in> set (bMembers r)" for r m
  proof -
    from validate_ok_member [OF val that] obtain b
      where "List.find (\<lambda>b. bName b = m) (rev ((hs @ ps) @ vs)) = Some b" and "bKind b \<noteq> KindVirtual"
      unfolding bs by blast
    from find_rev_nonvirtual [OF this _ nv] v show ?thesis
      unfolding bs HasStorage_def by blast
  qed
  moreover have "r \<in> set vs" if "r \<in> set bs" and "bKind r = KindVirtual" for r
    using that h by (force simp: bs)
  moreover have "bName b \<noteq> [] \<and> bKind b \<in> {KindHosted, KindProxy, KindVirtual}" if "b \<in> set bs" for b
    using that v [of b] h [of b] by (auto simp: bs)
  ultimately show ?thesis
    using v unfolding buckets_wf_def by blast
qed

section \<open>Properties of the configuration\<close>

text \<open>
  C19. A configuration \<^verbatim>\<open>Load\<close> accepts has a well-formed bucket table: no bucket has an empty name,
  and every member of every virtual repository is found by \<^verbatim>\<open>BucketByName\<close> and has storage of its
  own. The branches of \<^verbatim>\<open>resolveVirtualRoute\<close> that skip an unknown or nested member are dead code
  for a loaded configuration, as its comments claim, although the validation resolves a
  duplicated name to the last bucket and the resolver to the first.
\<close>

theorem Load_bucket_table:
  assumes "Load fl getenv = Inr c"
  shows "buckets_wf (cBuckets c) \<and>
         (\<forall>v \<in> set (cBuckets c). bKind v = KindVirtual \<longrightarrow>
            (\<forall>m \<in> set (bMembers v). \<exists>b. BucketByName c m = Some b \<and> HasStorage b))"
proof -
  from assms have "loadAllBuckets fl getenv = Inr (cBuckets c)"
    by (auto simp: Load_def split: sum.splits)
  then have "buckets_wf (cBuckets c)" by (rule loadAllBuckets_wf)
  then show ?thesis by (auto simp: buckets_wf_def BucketByName_def)
qed

definition witness_float :: go_float where
  "witness_float = \<lparr>ParseFloat = (\<lambda>_. Inr 0), fracScale = (\<lambda>f u k. f * u div 10 ^ k)\<rparr>"

definition witness_env :: getenv where
  "witness_env n =
     (if n = ''PARPARCHIK_BUCKETS'' then ''pub::public,priv''
      else if n = ''PARPARCHIK_PROXY_REPOS'' then ''npm|https://registry.npmjs.org|public|1h''
      else if n = ''PARPARCHIK_VIRTUAL_REPOS'' then ''all|priv+npm''
      else [])"

definition witness_config :: Config where
  "witness_config = (case Load witness_float witness_env of Inr c \<Rightarrow> c | Inl e \<Rightarrow> undefined)"

theorem Load_bucket_table_witness:
  "Load witness_float witness_env = Inr witness_config \<and>
   map bName (cBuckets witness_config) = [''pub'', ''priv'', ''npm'', ''all''] \<and>
   buckets_wf (cBuckets witness_config)"
proof -
  have l: "Load witness_float witness_env = Inr witness_config" by code_simp
  moreover have "map bName (cBuckets witness_config) = [''pub'', ''priv'', ''npm'', ''all'']" by code_simp
  ultimately show ?thesis using Load_bucket_table [OF l] by blast
qed

end
