(* ===== verification/Objectstore.thy ===== *)
theory Objectstore
  imports Config Go_Json
begin

text \<open>
  Object storage (\<^verbatim>\<open>internal/objectstore/store.go\<close>, \<^verbatim>\<open>s3.go\<close>) and the upstream fetcher of proxy
  repositories (\<^verbatim>\<open>internal/proxycache/fetcher.go\<close>). The \<^verbatim>\<open>Store\<close> interface is a record of operations on
  a world \<open>'w\<close> that each operation may change; what a caller may rely on is the locale
  \<open>object_store\<close>. It is interpreted on the in-memory store of the repository's resolver tests
  (\<^verbatim>\<open>internal/resolver/fakestore_test.go\<close>), and shown of \<^verbatim>\<open>S3Store\<close> for every SDK client with the
  documented behaviour of S3.

  The AWS SDK (\<^verbatim>\<open>aws-sdk-go-v2\<close>) and \<^verbatim>\<open>net/http\<close> transports are parameters: records of functions.
\<close>

section \<open>Printing times\<close>

definition padLeft :: "nat \<Rightarrow> string \<Rightarrow> string" where
  "padLeft n s = replicate (n - length s) (CHR ''0'') @ s"

text \<open>Year (from 1) and zero-based day of the year of a day number counted from 0001-01-01.\<close>

definition yearDay :: "int \<Rightarrow> int \<times> int" where
  "yearDay d =
     (let n400 = d div 146097; r = d mod 146097;
          n100 = min (r div 36524) 3; r1 = r - n100 * 36524;
          n4 = r1 div 1461; r2 = r1 mod 1461;
          n1 = min (r2 div 365) 3
      in (400 * n400 + 100 * n100 + 4 * n4 + n1 + 1, r2 - n1 * 365))"

fun monthDay :: "int \<Rightarrow> int list \<Rightarrow> int \<Rightarrow> int \<times> int" where
  "monthDay y [] d = (12, d + 1)"
| "monthDay y (m # ms) d = (if d < daysIn m y \<or> ms = [] then (m, d + 1) else monthDay y ms (d - daysIn m y))"

text \<open>\<^verbatim>\<open>t.UTC().Format(time.RFC3339)\<close>.\<close>

definition formatRFC3339 :: "instant \<Rightarrow> string" where
  "formatRFC3339 t =
     (let s = t div 1000000000; (y, yd) = yearDay (s div 86400);
          (mo, d) = monthDay y [1, 2, 3, 4, 5, 6, 7, 8, 9, 10, 11, 12] yd;
          sod = s mod 86400
      in (if y < 0 then ''-'' @ padLeft 4 (showNat (- y)) else padLeft 4 (showNat y)) @ ''-'' @ padLeft 2 (showNat mo) @ ''-'' @
         padLeft 2 (showNat d) @ ''T'' @ padLeft 2 (showNat (sod div 3600)) @ '':'' @
         padLeft 2 (showNat (sod div 60 mod 60)) @ '':'' @ padLeft 2 (showNat (sod mod 60)) @ ''Z'')"

text \<open>\<^verbatim>\<open>Duration.String\<close>: the fraction without trailing zeros, then the units.\<close>

definition durFrac :: "int \<Rightarrow> nat \<Rightarrow> string" where
  "durFrac v prec =
     (let ds = rev (dropWhile (\<lambda>c. c = CHR ''0'') (rev (padLeft prec (showNat (v mod 10 ^ prec)))))
      in if ds = [] then [] else CHR ''.'' # ds)"

definition durationString :: "duration \<Rightarrow> string" where
  "durationString d =
     (let u = \<bar>sint d\<bar>; sign = (if sint d < 0 then ''-'' else [])
      in if u = 0 then ''0s''
         else if u < 1000 then sign @ showNat u @ ''ns''
         else if u < 1000000 then sign @ showNat (u div 1000) @ durFrac u 3 @ [CHR 0xC2, CHR 0xB5] @ ''s''
         else if u < 1000000000 then sign @ showNat (u div 1000000) @ durFrac u 6 @ ''ms''
         else (let s = u div 1000000000; mi = s div 60; h = mi div 60;
                   secs = showNat (s mod 60) @ durFrac u 9 @ ''s''
               in sign @ (if h > 0 then showNat h @ ''h'' else []) @
                  (if mi > 0 then showNat (mi mod 60) @ ''m'' else []) @ secs))"

section \<open>The Store interface\<close>

record Object =
  oKey :: string
  oSize :: int64
  oLastModified :: string

record 'w Store =
  sListObjects :: "string \<Rightarrow> 'w \<Rightarrow> (go_error + Object list) \<times> 'w"
  sHeadObject :: "string \<Rightarrow> string \<Rightarrow> 'w \<Rightarrow> (go_error + Object option) \<times> 'w"
  sGetObject :: "string \<Rightarrow> string \<Rightarrow> 'w \<Rightarrow> (go_error + bytes) \<times> 'w"
  sPutObject :: "string \<Rightarrow> string \<Rightarrow> bytes \<Rightarrow> string \<Rightarrow> 'w \<Rightarrow> go_error option \<times> 'w"
  sDeleteObject :: "string \<Rightarrow> string \<Rightarrow> 'w \<Rightarrow> go_error option \<times> 'w"
  sPublicURL :: "string \<Rightarrow> string \<Rightarrow> string"
  sPresignedURL :: "string \<Rightarrow> string \<Rightarrow> duration \<Rightarrow> 'w \<Rightarrow> (go_error + string) \<times> 'w"

section \<open>The SDK\<close>

text \<open>
  One element of a listing page and the answer to a HEAD request; their pointer fields are options.
  \<open>cListPages\<close> is the sequence of results the paginator's \<^verbatim>\<open>NextPage\<close> gives until
  \<^verbatim>\<open>HasMorePages\<close> is false. A GET answers with a body whose reading may fail in turn.
\<close>

type_synonym s3_meta = "int64 option \<times> instant option"

record 'w s3_client =
  cListPages :: "string \<Rightarrow> 'w \<Rightarrow> (go_error + (string option \<times> s3_meta) list) list \<times> 'w"
  cHeadObject :: "string \<Rightarrow> string \<Rightarrow> 'w \<Rightarrow> (go_error + s3_meta) \<times> 'w"
  cGetObject :: "string \<Rightarrow> string \<Rightarrow> 'w \<Rightarrow> (go_error + (go_error + bytes)) \<times> 'w"
  cPutObject :: "string \<Rightarrow> string \<Rightarrow> bytes \<Rightarrow> string \<Rightarrow> 'w \<Rightarrow> go_error option \<times> 'w"
  cDeleteObject :: "string \<Rightarrow> string \<Rightarrow> 'w \<Rightarrow> go_error option \<times> 'w"
  asNotFound :: "go_error \<Rightarrow> bool"
  asNoSuchKey :: "go_error \<Rightarrow> bool"

type_synonym 'w s3_presigner = "string \<Rightarrow> string \<Rightarrow> duration \<Rightarrow> 'w \<Rightarrow> (go_error + string) \<times> 'w"

text \<open>
  \<^verbatim>\<open>LoadDefaultConfig\<close> with a region and perhaps static credentials, and the two constructors with
  perhaps a base endpoint, which is then addressed path-style.
\<close>

record ('a, 'w) s3_sdk =
  LoadDefaultConfig :: "string \<Rightarrow> (string \<times> string) option \<Rightarrow> go_error + 'a"
  NewFromConfig :: "'a \<Rightarrow> string option \<Rightarrow> 'w s3_client"
  NewPresignClient :: "'w s3_client \<Rightarrow> string option \<Rightarrow> 'w s3_presigner"

section \<open>S3Store\<close>

record 'w S3Store =
  s3client :: "'w s3_client"
  s3presign :: "'w s3_presigner"
  s3region :: string
  s3externalEndpoint :: string

definition resolveEndpointURL :: "string \<Rightarrow> string" where
  "resolveEndpointURL endpoint = (if Contains endpoint ''://'' then endpoint else ''http://'' @ endpoint)"

definition NewS3Store :: "('a, 'w) s3_sdk \<Rightarrow> Config \<Rightarrow> go_error + 'w S3Store" where
  "NewS3Store sdk cfg =
     (case LoadDefaultConfig sdk (cAWSRegion cfg)
             (if cAWSAccessKeyID cfg \<noteq> [] \<and> cAWSSecretAccessKey cfg \<noteq> []
              then Some (cAWSAccessKeyID cfg, cAWSSecretAccessKey cfg) else None) of
        Inl e \<Rightarrow> Inl (Errorf ''objectstore: load AWS config: %w'' [] [e])
      | Inr awsCfg \<Rightarrow>
          let external = (if cS3ExternalEndpoint cfg = [] then cS3Endpoint cfg else cS3ExternalEndpoint cfg);
              externalURL = (if external \<noteq> [] then resolveEndpointURL external else []);
              client = NewFromConfig sdk awsCfg
                (if cS3Endpoint cfg \<noteq> [] then Some (resolveEndpointURL (cS3Endpoint cfg)) else None);
              presign = NewPresignClient sdk client
                (if cS3Endpoint cfg \<noteq> [] then Some externalURL else None)
          in Inr \<lparr>s3client = client, s3presign = presign, s3region = cAWSRegion cfg, s3externalEndpoint = externalURL\<rparr>)"

definition isNotFound :: "'w s3_client \<Rightarrow> go_error \<Rightarrow> bool" where
  "isNotFound cl e \<longleftrightarrow> asNotFound cl e \<or> asNoSuchKey cl e"

definition formatTime :: "instant option \<Rightarrow> string" where
  "formatTime t = (case t of None \<Rightarrow> [] | Some t \<Rightarrow> formatRFC3339 t)"

text \<open>\<^verbatim>\<open>aws.ToString\<close> and \<^verbatim>\<open>aws.ToInt64\<close>: the zero value for a nil pointer.\<close>

definition toString :: "string option \<Rightarrow> string" where
  "toString s = (case s of None \<Rightarrow> [] | Some x \<Rightarrow> x)"

definition toInt64 :: "int64 option \<Rightarrow> int64" where
  "toInt64 n = (case n of None \<Rightarrow> 0 | Some x \<Rightarrow> x)"

fun collectPages :: "string \<Rightarrow> Object list \<Rightarrow> (go_error + (string option \<times> s3_meta) list) list \<Rightarrow> go_error + Object list" where
  "collectPages bucket result [] = Inr result"
| "collectPages bucket result (Inl e # pages) = Inl (Errorf ''objectstore: list objects in %q: %w'' [bucket] [e])"
| "collectPages bucket result (Inr page # pages) =
     collectPages bucket
       (result @ map (\<lambda>(k, n, t). \<lparr>oKey = toString k, oSize = toInt64 n, oLastModified = formatTime t\<rparr>) page) pages"

definition s3_ListObjects :: "'w S3Store \<Rightarrow> string \<Rightarrow> 'w \<Rightarrow> (go_error + Object list) \<times> 'w" where
  "s3_ListObjects s bucket w =
     (let (pages, w') = cListPages (s3client s) bucket w in (collectPages bucket [] pages, w'))"

definition s3_HeadObject :: "'w S3Store \<Rightarrow> string \<Rightarrow> string \<Rightarrow> 'w \<Rightarrow> (go_error + Object option) \<times> 'w" where
  "s3_HeadObject s bucket key w =
     (let (out, w') = cHeadObject (s3client s) bucket key w
      in (case out of
            Inl e \<Rightarrow> if isNotFound (s3client s) e then Inr None
                     else Inl (Errorf ''objectstore: head %q/%q: %w'' [bucket, key] [e])
          | Inr (n, t) \<Rightarrow> Inr (Some \<lparr>oKey = key, oSize = toInt64 n, oLastModified = formatTime t\<rparr>), w'))"

definition s3_GetObject :: "'w S3Store \<Rightarrow> string \<Rightarrow> string \<Rightarrow> 'w \<Rightarrow> (go_error + bytes) \<times> 'w" where
  "s3_GetObject s bucket key w =
     (let (out, w') = cGetObject (s3client s) bucket key w
      in (case out of
            Inl e \<Rightarrow> if isNotFound (s3client s) e then Inr []
                     else Inl (Errorf ''objectstore: get %q/%q: %w'' [bucket, key] [e])
          | Inr (Inl e) \<Rightarrow> Inl (Errorf ''objectstore: read %q/%q body: %w'' [bucket, key] [e])
          | Inr (Inr body) \<Rightarrow> Inr body, w'))"

definition s3_PutObject :: "'w S3Store \<Rightarrow> string \<Rightarrow> string \<Rightarrow> bytes \<Rightarrow> string \<Rightarrow> 'w \<Rightarrow> go_error option \<times> 'w" where
  "s3_PutObject s bucket key content contentType w =
     (let ct = (if contentType = [] then ''application/octet-stream'' else contentType);
          (err, w') = cPutObject (s3client s) bucket key content ct w
      in (map_option (\<lambda>e. Errorf ''objectstore: put %q/%q: %w'' [bucket, key] [e]) err, w'))"

definition s3_DeleteObject :: "'w S3Store \<Rightarrow> string \<Rightarrow> string \<Rightarrow> 'w \<Rightarrow> go_error option \<times> 'w" where
  "s3_DeleteObject s bucket key w =
     (let (err, w') = cDeleteObject (s3client s) bucket key w
      in (map_option (\<lambda>e. Errorf ''objectstore: delete %q/%q: %w'' [bucket, key] [e]) err, w'))"

definition s3_PublicURL :: "'w S3Store \<Rightarrow> string \<Rightarrow> string \<Rightarrow> string" where
  "s3_PublicURL s bucket key =
     (if s3externalEndpoint s \<noteq> [] then s3externalEndpoint s @ ''/'' @ bucket @ ''/'' @ key
      else ''https://'' @ bucket @ ''.s3.'' @ s3region s @ ''.amazonaws.com/'' @ key)"

definition s3_PresignedURL :: "'w S3Store \<Rightarrow> string \<Rightarrow> string \<Rightarrow> duration \<Rightarrow> 'w \<Rightarrow> (go_error + string) \<times> 'w" where
  "s3_PresignedURL s bucket key expires w =
     (let (req, w') = s3presign s bucket key expires w
      in (case req of
            Inl e \<Rightarrow> Inl (Errorf ''objectstore: presign %q/%q: %w'' [bucket, key] [e])
          | Inr url \<Rightarrow> Inr url, w'))"

definition s3_Store :: "'w S3Store \<Rightarrow> 'w Store" where
  "s3_Store s =
     \<lparr>sListObjects = s3_ListObjects s, sHeadObject = s3_HeadObject s, sGetObject = s3_GetObject s,
      sPutObject = s3_PutObject s, sDeleteObject = s3_DeleteObject s, sPublicURL = s3_PublicURL s,
      sPresignedURL = s3_PresignedURL s\<rparr>"

section \<open>The in-memory store of the tests\<close>

record fakeObject =
  foContent :: bytes
  foLastModified :: string

type_synonym fakeStore = "(string, (string, fakeObject) gomap) gomap"

definition fake_bucket :: "fakeStore \<Rightarrow> string \<Rightarrow> (string, fakeObject) gomap" where
  "fake_bucket s bucket = (case gm_get s bucket of Some m \<Rightarrow> m | None \<Rightarrow> [])"

definition fake_put :: "string \<Rightarrow> string \<Rightarrow> bytes \<Rightarrow> string \<Rightarrow> fakeStore \<Rightarrow> fakeStore" where
  "fake_put bucket key content lastModified s =
     gm_set bucket (gm_set key \<lparr>foContent = content, foLastModified = lastModified\<rparr> (fake_bucket s bucket)) s"

definition fake_object :: "string \<Rightarrow> fakeObject \<Rightarrow> Object" where
  "fake_object key obj = \<lparr>oKey = key, oSize = len64 (foContent obj), oLastModified = foLastModified obj\<rparr>"

definition objectKeyLess :: "Object \<Rightarrow> Object \<Rightarrow> bool" where
  "objectKeyLess a b \<longleftrightarrow> oKey a < oKey b"

definition fake_Store :: "fakeStore Store" where
  "fake_Store =
     \<lparr>sListObjects = (\<lambda>bucket s.
        (Inr (sort_slice objectKeyLess (map (\<lambda>(key, obj). fake_object key obj) (fake_bucket s bucket))), s)),
      sHeadObject = (\<lambda>bucket key s. (Inr (map_option (fake_object key) (gm_get (fake_bucket s bucket) key)), s)),
      sGetObject = (\<lambda>bucket key s.
        (Inr (case gm_get (fake_bucket s bucket) key of Some obj \<Rightarrow> foContent obj | None \<Rightarrow> []), s)),
      sPutObject = (\<lambda>bucket key content contentType s. (None, fake_put bucket key content [] s)),
      sDeleteObject = (\<lambda>bucket key s.
        (None, case gm_get s bucket of Some m \<Rightarrow> gm_set bucket (gm_del key m) s | None \<Rightarrow> s)),
      sPublicURL = (\<lambda>bucket key. ''http://public.example/'' @ bucket @ ''/'' @ key),
      sPresignedURL = (\<lambda>bucket key expires s.
        (Inr (''http://presigned.example/'' @ bucket @ ''/'' @ key @ ''?expires='' @ durationString expires), s))\<rparr>"

section \<open>The upstream fetcher\<close>

type_synonym 'w Fetcher = "string \<Rightarrow> string \<Rightarrow> 'w \<Rightarrow> (go_error + (bytes \<times> string) option) \<times> 'w"

text \<open>
  A response: the body's bytes up to its end or up to where reading it fails with \<open>hrBodyErr\<close>.
\<close>

record http_response =
  hrStatus :: int
  hrBody :: bytes
  hrBodyErr :: "go_error option"
  hrContentType :: string

record 'w http_client =
  NewRequest :: "string \<Rightarrow> go_error option"
  Do :: "string \<Rightarrow> 'w \<Rightarrow> (go_error + http_response) \<times> 'w"

record 'w HTTPFetcher =
  hfClient :: "'w http_client"
  hfMaxBodyBytes :: int64

definition defaultMaxBodyBytes :: int64 where
  "defaultMaxBodyBytes = 2 ^ 30"

text \<open>\<^verbatim>\<open>io.ReadAll(io.LimitReader(body, n))\<close>: a limit that is not positive reads nothing.\<close>

definition readLimited :: "int64 \<Rightarrow> http_response \<Rightarrow> go_error + bytes" where
  "readLimited n resp =
     (if sint n \<le> 0 then Inr []
      else if int (length (hrBody resp)) < sint n
           then (case hrBodyErr resp of Some e \<Rightarrow> Inl e | None \<Rightarrow> Inr (hrBody resp))
      else Inr (take (nat (sint n)) (hrBody resp)))"

definition Fetch :: "'w HTTPFetcher \<Rightarrow> 'w Fetcher" where
  "Fetch f upstreamURL key w =
     (let url = TrimRight upstreamURL (CHR ''/'') @ ''/'' @ TrimLeft key (CHR ''/'')
      in case NewRequest (hfClient f) url of
           Some e \<Rightarrow> (Inl (Errorf ''proxycache: build request for %q: %w'' [url] [e]), w)
         | None \<Rightarrow>
             (case Do (hfClient f) url w of
                (Inl e, w') \<Rightarrow> (Inl (Errorf ''proxycache: fetch %q: %w'' [url] [e]), w')
              | (Inr resp, w') \<Rightarrow>
                  (if hrStatus resp = 404 then Inr None
                   else if hrStatus resp \<noteq> 200
                   then Inl (Errorf ''proxycache: fetch %q: unexpected status %d'' [url, FormatInt (hrStatus resp)] [])
                   else let maxBytes = (if le64 (hfMaxBodyBytes f) 0 then defaultMaxBodyBytes else hfMaxBodyBytes f)
                        in case readLimited (maxBytes + 1) resp of
                             Inl e \<Rightarrow> Inl (Errorf ''proxycache: read body from %q: %w'' [url] [e])
                           | Inr body \<Rightarrow>
                               if lt64 maxBytes (len64 body)
                               then Inl (Errorf ''proxycache: response from %q exceeds %d byte limit'' [url, FormatInt (sint maxBytes)] [])
                               else Inr (Some (body, hrContentType resp)), w')))"

definition NewHTTPFetcher :: "'w http_client \<Rightarrow> 'w HTTPFetcher" where
  "NewHTTPFetcher client = \<lparr>hfClient = client, hfMaxBodyBytes = defaultMaxBodyBytes\<rparr>"

section \<open>What a caller may rely on\<close>

definition object_of :: "string \<Rightarrow> bytes \<times> string \<Rightarrow> Object" where
  "object_of key cl = \<lparr>oKey = key, oSize = len64 (fst cl), oLastModified = snd cl\<rparr>"

text \<open>
  \<open>obj w bucket key\<close> is what the world stores: content and timestamp. Operations may fail at any
  time; a failed write leaves at most its own key changed and never removes it.
\<close>

locale object_store =
  fixes st :: "'w Store"
    and inv :: "'w \<Rightarrow> bool"
    and obj :: "'w \<Rightarrow> string \<Rightarrow> string \<Rightarrow> (bytes \<times> string) option"
  assumes head_ok: "inv w \<Longrightarrow> sHeadObject st b k w = (Inr r, w') \<Longrightarrow> r = map_option (object_of k) (obj w b k)"
    and head_frame: "inv w \<Longrightarrow> sHeadObject st b k w = (x, w') \<Longrightarrow> obj w' = obj w \<and> inv w'"
    and get_ok: "inv w \<Longrightarrow> sGetObject st b k w = (Inr c, w') \<Longrightarrow> c = (case obj w b k of Some v \<Rightarrow> fst v | None \<Rightarrow> [])"
    and get_frame: "inv w \<Longrightarrow> sGetObject st b k w = (y, w') \<Longrightarrow> obj w' = obj w \<and> inv w'"
    and list_ok: "inv w \<Longrightarrow> sListObjects st b w = (Inr os, w') \<Longrightarrow>
      distinct (map oKey os) \<and> (\<forall>x. x \<in> set os \<longleftrightarrow> (\<exists>v. obj w b (oKey x) = Some v \<and> x = object_of (oKey x) v))"
    and list_frame: "inv w \<Longrightarrow> sListObjects st b w = (z, w') \<Longrightarrow> obj w' = obj w \<and> inv w'"
    and put_ok: "inv w \<Longrightarrow> sPutObject st b k c t w = (None, w') \<Longrightarrow> \<exists>l. obj w' b k = Some (c, l)"
    and put_frame: "inv w \<Longrightarrow> sPutObject st b k c t w = (e, w') \<Longrightarrow>
      inv w' \<and> (\<forall>b' k'. (b', k') \<noteq> (b, k) \<longrightarrow> obj w' b' k' = obj w b' k') \<and> (obj w b k \<noteq> None \<longrightarrow> obj w' b k \<noteq> None)"
    and delete_ok: "inv w \<Longrightarrow> sDeleteObject st b k w = (None, w') \<Longrightarrow> obj w' b k = None"
    and delete_frame: "inv w \<Longrightarrow> sDeleteObject st b k w = (e, w') \<Longrightarrow>
      inv w' \<and> (\<forall>b' k'. (b', k') \<noteq> (b, k) \<longrightarrow> obj w' b' k' = obj w b' k')"
begin

lemma put_mono: "inv w \<Longrightarrow> sPutObject st b k c t w = (e, w') \<Longrightarrow> obj w b' k' \<noteq> None \<Longrightarrow> obj w' b' k' \<noteq> None"
  using put_frame [of w b k c t e w'] by (cases "(b', k') = (b, k)") auto

text \<open>Reading back what was written, deleting it, deleting it again.\<close>

lemma put_get:
  "inv w \<Longrightarrow> sPutObject st b k c t w = (None, w') \<Longrightarrow> sGetObject st b k w' = (Inr c', w'') \<Longrightarrow> c' = c"
  using put_ok [of w b k c t w'] put_frame [of w b k c t None w'] get_ok [of w' b k c' w''] by auto

lemma delete_head:
  "inv w \<Longrightarrow> sDeleteObject st b k w = (None, w') \<Longrightarrow> sHeadObject st b k w' = (Inr r, w'') \<Longrightarrow> r = None"
  using delete_ok [of w b k w'] delete_frame [of w b k None w'] head_ok [of w' b k r w''] by auto

end

section \<open>The in-memory store satisfies it\<close>

definition fake_inv :: "fakeStore \<Rightarrow> bool" where
  "fake_inv s \<longleftrightarrow> (\<forall>b m. gm_get s b = Some m \<longrightarrow> gm_ok m)"

definition fake_obj :: "fakeStore \<Rightarrow> string \<Rightarrow> string \<Rightarrow> (bytes \<times> string) option" where
  "fake_obj s b k = map_option (\<lambda>ob. (foContent ob, foLastModified ob)) (gm_get (fake_bucket s b) k)"

lemma fake_bucket_ok: "fake_inv s \<Longrightarrow> gm_ok (fake_bucket s b)"
  by (auto simp: fake_inv_def fake_bucket_def split: option.splits)

lemma fake_bucket_put:
  "fake_bucket (fake_put b k c l s) b' =
     (if b' = b then gm_set k \<lparr>foContent = c, foLastModified = l\<rparr> (fake_bucket s b) else fake_bucket s b')"
  by (auto simp: fake_bucket_def fake_put_def)

lemma fake_list_distinct:
  "fake_inv s \<Longrightarrow> distinct (map oKey (sort_slice objectKeyLess (map (\<lambda>(key, ob). fake_object key ob) (fake_bucket s b))))"
proof -
  assume "fake_inv s"
  then have "distinct (map oKey (map (\<lambda>(key, ob). fake_object key ob) (fake_bucket s b)))"
    using fake_bucket_ok by (simp add: comp_def case_prod_beta fake_object_def gm_ok_def)
  then show ?thesis by (metis (no_types) mset_eq_imp_distinct_iff mset_map mset_sort_slice)
qed

interpretation objectKeyLess: strict_weak_order objectKeyLess
  unfolding objectKeyLess_def by (rule strict_weak_order_field)

lemma fake_object_of: "fake_object k = object_of k \<circ> (\<lambda>ob. (foContent ob, foLastModified ob))"
  by (simp add: fun_eq_iff fake_object_def object_of_def)

interpretation fake: object_store fake_Store fake_inv fake_obj
proof unfold_locales
  fix w b os w' assume inv: "fake_inv w" and l: "sListObjects fake_Store b w = (Inr os, w')"
  then have os: "os = sort_slice objectKeyLess (map (\<lambda>(key, ob). fake_object key ob) (fake_bucket w b))"
    by (auto simp: fake_Store_def)
  have "x \<in> set os \<longleftrightarrow> (\<exists>ob. gm_get (fake_bucket w b) (oKey x) = Some ob \<and> x = fake_object (oKey x) ob)" for x
    by (force simp: os gm_get_in_set [OF fake_bucket_ok [OF inv]] fake_object_def)
  then show "distinct (map oKey os) \<and> (\<forall>x. x \<in> set os \<longleftrightarrow> (\<exists>v. fake_obj w b (oKey x) = Some v \<and> x = object_of (oKey x) v))"
    using fake_list_distinct [OF inv, of b] by (auto simp: os fake_obj_def fake_object_def object_of_def)
qed (auto simp: fake_Store_def fake_obj_def fake_object_of option.map_comp fake_bucket_put fake_inv_def fake_bucket_def
          fake_put_def split: option.splits if_splits)

section \<open>S3Store satisfies it\<close>

text \<open>
  The documented behaviour of S3 behind an SDK client: \<open>s3obj\<close> is what the service stores. A HEAD or
  GET that answers tells the truth, a not-found error means the object is absent, a listing that
  comes back without an error has every object once, a write that succeeds is visible to later
  requests (S3's read-after-write consistency), a failed write has at most changed its own key.
\<close>

definition reads_only :: "('w \<Rightarrow> bool) \<Rightarrow> ('w \<Rightarrow> 'o) \<Rightarrow> ('w \<Rightarrow> 'a \<times> 'w) \<Rightarrow> bool" where
  "reads_only ok s3obj f \<longleftrightarrow> (\<forall>w. ok w \<longrightarrow> s3obj (snd (f w)) = s3obj w \<and> ok (snd (f w)))"

definition s3_read_laws :: "'w s3_client \<Rightarrow> ('w \<Rightarrow> bool) \<Rightarrow> ('w \<Rightarrow> string \<Rightarrow> string \<Rightarrow> (bytes \<times> instant) option) \<Rightarrow> bool" where
  "s3_read_laws cl ok s3obj \<longleftrightarrow>
     (\<forall>b k. reads_only ok s3obj (cHeadObject cl b k) \<and> reads_only ok s3obj (cGetObject cl b k)) \<and>
     (\<forall>b. reads_only ok s3obj (cListPages cl b)) \<and>
     (\<forall>w b k. ok w \<longrightarrow>
        (case fst (cHeadObject cl b k w) of
           Inr (n, t) \<Rightarrow> (\<exists>v. s3obj w b k = Some v \<and> n = Some (len64 (fst v)) \<and> t = Some (snd v))
         | Inl e \<Rightarrow> isNotFound cl e \<longrightarrow> s3obj w b k = None) \<and>
        (case fst (cGetObject cl b k w) of
           Inr (Inr c) \<Rightarrow> (\<exists>v. s3obj w b k = Some v \<and> c = fst v)
         | Inr (Inl e) \<Rightarrow> True
         | Inl e \<Rightarrow> isNotFound cl e \<longrightarrow> s3obj w b k = None)) \<and>
     (\<forall>w b. ok w \<longrightarrow> (\<forall>p \<in> set (fst (cListPages cl b w)). \<exists>xs. p = Inr xs) \<longrightarrow>
        (let listed = concat (map (\<lambda>p. case p of Inr xs \<Rightarrow> xs | Inl e \<Rightarrow> []) (fst (cListPages cl b w)))
         in distinct (map fst listed) \<and>
            (\<forall>k n t. (k, n, t) \<in> set listed \<longleftrightarrow>
               (\<exists>k' v. k = Some k' \<and> s3obj w b k' = Some v \<and> n = Some (len64 (fst v)) \<and> t = Some (snd v)))))"

definition s3_write_laws :: "'w s3_client \<Rightarrow> ('w \<Rightarrow> bool) \<Rightarrow> ('w \<Rightarrow> string \<Rightarrow> string \<Rightarrow> (bytes \<times> instant) option) \<Rightarrow> bool" where
  "s3_write_laws cl ok s3obj \<longleftrightarrow>
     (\<forall>w b k c t. ok w \<longrightarrow>
        (case cPutObject cl b k c t w of (e, w') \<Rightarrow>
           ok w' \<and> (\<forall>b' k'. (b', k') \<noteq> (b, k) \<longrightarrow> s3obj w' b' k' = s3obj w b' k') \<and>
           (e = None \<longrightarrow> (\<exists>l. s3obj w' b k = Some (c, l))) \<and> (s3obj w b k \<noteq> None \<longrightarrow> s3obj w' b k \<noteq> None))) \<and>
     (\<forall>w b k. ok w \<longrightarrow>
        (case cDeleteObject cl b k w of (e, w') \<Rightarrow>
           ok w' \<and> (\<forall>b' k'. (b', k') \<noteq> (b, k) \<longrightarrow> s3obj w' b' k' = s3obj w b' k') \<and>
           (e = None \<longrightarrow> s3obj w' b k = None)))"

lemma collectPages_Inr:
  "collectPages b acc pages = Inr os \<Longrightarrow>
   (\<forall>p \<in> set pages. \<exists>xs. p = Inr xs) \<and>
   os = acc @ map (\<lambda>(k, n, t). \<lparr>oKey = toString k, oSize = toInt64 n, oLastModified = formatTime t\<rparr>)
          (concat (map (\<lambda>p. case p of Inr xs \<Rightarrow> xs | Inl e \<Rightarrow> []) pages))"
  by (induction b acc pages rule: collectPages.induct) auto

definition s3_obj :: "('w \<Rightarrow> string \<Rightarrow> string \<Rightarrow> (bytes \<times> instant) option) \<Rightarrow> 'w \<Rightarrow> string \<Rightarrow> string \<Rightarrow> (bytes \<times> string) option" where
  "s3_obj s3obj w b k = map_option (\<lambda>(c, t). (c, formatRFC3339 t)) (s3obj w b k)"

lemma s3_obj_eqI: "s3obj w' = s3obj w \<Longrightarrow> s3_obj s3obj w' = s3_obj s3obj w"
  by (simp add: s3_obj_def fun_eq_iff)

lemma s3_list_ok:
  assumes "s3_read_laws (s3client s) ok s3obj" and "ok w" and "s3_ListObjects s b w = (Inr os, w')"
  shows "distinct (map oKey os) \<and>
         (\<forall>x. x \<in> set os \<longleftrightarrow> (\<exists>v. s3_obj s3obj w b (oKey x) = Some v \<and> x = object_of (oKey x) v))"
proof -
  define listed where "listed = concat (map (\<lambda>p. case p of Inr xs \<Rightarrow> xs | Inl e \<Rightarrow> []) (fst (cListPages (s3client s) b w)))"
  have col: "collectPages b [] (fst (cListPages (s3client s) b w)) = Inr os"
    using assms(3) by (auto simp: s3_ListObjects_def Let_def split: prod.splits)
  note c = collectPages_Inr [OF col, folded listed_def]
  from assms(1,2) c have d: "distinct (map fst listed)"
    and m: "(k, n, t) \<in> set listed \<longleftrightarrow>
      (\<exists>k' v. k = Some k' \<and> s3obj w b k' = Some v \<and> n = Some (len64 (fst v)) \<and> t = Some (snd v))" for k n t
    unfolding s3_read_laws_def listed_def Let_def by blast+
  have os: "os = map (\<lambda>(k, n, t). \<lparr>oKey = toString k, oSize = toInt64 n, oLastModified = formatTime t\<rparr>) listed"
    using c by simp
  have keys: "map fst listed = map Some (map oKey os)"
    using m by (auto simp: os toString_def)
  have "x \<in> set os \<longleftrightarrow> (\<exists>k' v. s3obj w b k' = Some v \<and> x = object_of k' (fst v, formatRFC3339 (snd v)))" for x
  proof
    assume "x \<in> set os"
    then obtain k n t where i: "(k, n, t) \<in> set listed"
      and x: "x = \<lparr>oKey = toString k, oSize = toInt64 n, oLastModified = formatTime t\<rparr>" by (auto simp: os)
    from i [unfolded m] obtain k' v where "k = Some k'" "s3obj w b k' = Some v" "n = Some (len64 (fst v))" "t = Some (snd v)" by blast
    then show "\<exists>k' v. s3obj w b k' = Some v \<and> x = object_of k' (fst v, formatRFC3339 (snd v))"
      using x by (intro exI [of _ k'] exI [of _ v]) (simp add: toString_def toInt64_def formatTime_def object_of_def)
  next
    assume "\<exists>k' v. s3obj w b k' = Some v \<and> x = object_of k' (fst v, formatRFC3339 (snd v))"
    then obtain k' v where v: "s3obj w b k' = Some v" and x: "x = object_of k' (fst v, formatRFC3339 (snd v))" by blast
    then have "(Some k', Some (len64 (fst v)), Some (snd v)) \<in> set listed" unfolding m by blast
    then show "x \<in> set os"
      by (force simp: os x object_of_def toString_def toInt64_def formatTime_def)
  qed
  then have "\<forall>x. x \<in> set os \<longleftrightarrow> (\<exists>v. s3_obj s3obj w b (oKey x) = Some v \<and> x = object_of (oKey x) v)"
    by (auto simp: s3_obj_def object_of_def)
  moreover have "distinct (map oKey os)"
    using d unfolding keys by (simp add: distinct_map [of Some] del: map_map)
  ultimately show ?thesis by blast
qed

lemma s3_head_ok:
  assumes "s3_read_laws (s3client s) ok s3obj" and "ok w" and "s3_HeadObject s b k w = (Inr r, w')"
  shows "r = map_option (object_of k) (s3_obj s3obj w b k)"
proof -
  from assms(1,2) have "case fst (cHeadObject (s3client s) b k w) of
           Inr (n, t) \<Rightarrow> (\<exists>v. s3obj w b k = Some v \<and> n = Some (len64 (fst v)) \<and> t = Some (snd v))
         | Inl e \<Rightarrow> isNotFound (s3client s) e \<longrightarrow> s3obj w b k = None"
    unfolding s3_read_laws_def by blast
  with assms(3) show ?thesis
    by (auto simp: s3_HeadObject_def s3_obj_def object_of_def toInt64_def formatTime_def Let_def
             split: prod.splits sum.splits if_splits)
qed

lemma s3_get_ok:
  assumes "s3_read_laws (s3client s) ok s3obj" and "ok w" and "s3_GetObject s b k w = (Inr c, w')"
  shows "c = (case s3_obj s3obj w b k of Some v \<Rightarrow> fst v | None \<Rightarrow> [])"
proof -
  from assms(1,2) have "case fst (cGetObject (s3client s) b k w) of
           Inr (Inr c) \<Rightarrow> (\<exists>v. s3obj w b k = Some v \<and> c = fst v)
         | Inr (Inl e) \<Rightarrow> True
         | Inl e \<Rightarrow> isNotFound (s3client s) e \<longrightarrow> s3obj w b k = None"
    unfolding s3_read_laws_def by blast
  with assms(3) show ?thesis
    by (auto simp: s3_GetObject_def s3_obj_def Let_def split: prod.splits sum.splits if_splits)
qed

lemma s3_frames:
  assumes "s3_read_laws (s3client s) ok s3obj" and "ok w"
  shows "s3_HeadObject s b k w = (x, w') \<Longrightarrow> s3obj w' = s3obj w \<and> ok w'"
    and "s3_GetObject s b k w = (y, w') \<Longrightarrow> s3obj w' = s3obj w \<and> ok w'"
    and "s3_ListObjects s b w = (z, w') \<Longrightarrow> s3obj w' = s3obj w \<and> ok w'"
proof -
  from assms have "reads_only ok s3obj (cHeadObject (s3client s) b k)" "reads_only ok s3obj (cGetObject (s3client s) b k)"
    "reads_only ok s3obj (cListPages (s3client s) b)"
    unfolding s3_read_laws_def by blast+
  with assms(2) show "s3_HeadObject s b k w = (x, w') \<Longrightarrow> s3obj w' = s3obj w \<and> ok w'"
    and "s3_GetObject s b k w = (y, w') \<Longrightarrow> s3obj w' = s3obj w \<and> ok w'"
    and "s3_ListObjects s b w = (z, w') \<Longrightarrow> s3obj w' = s3obj w \<and> ok w'"
    by (auto simp: reads_only_def s3_HeadObject_def s3_GetObject_def s3_ListObjects_def Let_def split: prod.splits)
qed

lemma s3_put:
  assumes "s3_write_laws (s3client s) ok s3obj" and "ok w" and "s3_PutObject s b k c t w = (e, w')"
  shows "ok w' \<and> (\<forall>b' k'. (b', k') \<noteq> (b, k) \<longrightarrow> s3obj w' b' k' = s3obj w b' k') \<and>
         (e = None \<longrightarrow> (\<exists>l. s3obj w' b k = Some (c, l))) \<and> (s3obj w b k \<noteq> None \<longrightarrow> s3obj w' b k \<noteq> None)"
proof -
  obtain e' where p: "cPutObject (s3client s) b k c (if t = [] then ''application/octet-stream'' else t) w = (e', w')"
    and e: "e = None \<longleftrightarrow> e' = None"
    using assms(3) by (auto simp: s3_PutObject_def Let_def split: prod.splits)
  have "case cPutObject (s3client s) b k c (if t = [] then ''application/octet-stream'' else t) w of (e, w') \<Rightarrow>
           ok w' \<and> (\<forall>b' k'. (b', k') \<noteq> (b, k) \<longrightarrow> s3obj w' b' k' = s3obj w b' k') \<and>
           (e = None \<longrightarrow> (\<exists>l. s3obj w' b k = Some (c, l))) \<and> (s3obj w b k \<noteq> None \<longrightarrow> s3obj w' b k \<noteq> None)"
    by (rule assms(1) [unfolded s3_write_laws_def, THEN conjunct1, rule_format, OF assms(2)])
  then show ?thesis unfolding p prod.case e .
qed

lemma s3_delete:
  assumes "s3_write_laws (s3client s) ok s3obj" and "ok w" and "s3_DeleteObject s b k w = (e, w')"
  shows "ok w' \<and> (\<forall>b' k'. (b', k') \<noteq> (b, k) \<longrightarrow> s3obj w' b' k' = s3obj w b' k') \<and> (e = None \<longrightarrow> s3obj w' b k = None)"
proof -
  obtain e' where p: "cDeleteObject (s3client s) b k w = (e', w')" and e: "e = None \<longleftrightarrow> e' = None"
    using assms(3) by (auto simp: s3_DeleteObject_def Let_def split: prod.splits)
  have "case cDeleteObject (s3client s) b k w of (e, w') \<Rightarrow>
           ok w' \<and> (\<forall>b' k'. (b', k') \<noteq> (b, k) \<longrightarrow> s3obj w' b' k' = s3obj w b' k') \<and> (e = None \<longrightarrow> s3obj w' b k = None)"
    by (rule assms(1) [unfolded s3_write_laws_def, THEN conjunct2, rule_format, OF assms(2)])
  then show ?thesis unfolding p prod.case e .
qed

section \<open>Properties of the stores and of the fetcher\<close>


text \<open>An in-memory S3 service, for the witness.\<close>

definition mem_client :: "(string \<times> string, bytes \<times> instant) gomap s3_client" where
  "mem_client =
     \<lparr>cListPages = (\<lambda>b w. (map (\<lambda>((b', k), c, t). Inr [(Some k, Some (len64 c), Some t)]) (filter (\<lambda>x. fst (fst x) = b) w), w)),
      cHeadObject = (\<lambda>b k w. (case gm_get w (b, k) of
          Some (c, t) \<Rightarrow> Inr (Some (len64 c), Some t) | None \<Rightarrow> Inl (ErrorsNew ''NotFound''), w)),
      cGetObject = (\<lambda>b k w. (case gm_get w (b, k) of
          Some (c, t) \<Rightarrow> Inr (Inr c) | None \<Rightarrow> Inl (ErrorsNew ''NoSuchKey''), w)),
      cPutObject = (\<lambda>b k c t w. (None, gm_set (b, k) (c, 0) w)),
      cDeleteObject = (\<lambda>b k w. (None, gm_del (b, k) w)),
      asNotFound = (\<lambda>e. e = ErrorsNew ''NotFound''),
      asNoSuchKey = (\<lambda>e. e = ErrorsNew ''NoSuchKey'')\<rparr>"

definition mem_S3Store :: "(string \<times> string, bytes \<times> instant) gomap S3Store" where
  "mem_S3Store = \<lparr>s3client = mem_client, s3presign = (\<lambda>b k d w. (Inr [], w)), s3region = [], s3externalEndpoint = []\<rparr>"

lemma mem_read_laws: "s3_read_laws mem_client gm_ok (\<lambda>w b k. gm_get w (b, k))"
proof -
  have l: "concat (map (\<lambda>p. case p of Inr xs \<Rightarrow> xs | Inl e \<Rightarrow> []) (fst (cListPages mem_client b w))) =
        map (\<lambda>((b', k), c, t). (Some k, Some (len64 c), Some t)) (filter (\<lambda>x. fst (fst x) = b) w)" for b w
    by (induction w) (auto simp: mem_client_def)
  have d: "distinct (map fst (map (\<lambda>((b', k), c, t). (Some k, Some (len64 c), Some t)) (filter (\<lambda>x. fst (fst x) = b) w)))"
    if "gm_ok w" for b and w :: "(string \<times> string, bytes \<times> instant) gomap"
    using that by (induction w) (force simp: gm_ok_def)+
  have m: "(k, n, t) \<in> set (map (\<lambda>((b', k), c, t). (Some k, Some (len64 c), Some t)) (filter (\<lambda>x. fst (fst x) = b) w)) \<longleftrightarrow>
      (\<exists>k' v. k = Some k' \<and> gm_get w (b, k') = Some v \<and> n = Some (len64 (fst v)) \<and> t = Some (snd v))"
    if "gm_ok w" for b k n t and w :: "(string \<times> string, bytes \<times> instant) gomap"
    by (force simp: gm_get_in_set [OF that])
  show ?thesis
    unfolding s3_read_laws_def l Let_def
    by (intro conjI allI impI d m; (assumption)?)
       (auto simp: mem_client_def reads_only_def isNotFound_def split: option.splits)
qed

lemma mem_write_laws: "s3_write_laws mem_client gm_ok (\<lambda>w b k. gm_get w (b, k))"
  by (auto simp: s3_write_laws_def mem_client_def)


text \<open>The limit in force, and reading one byte more than it.\<close>

definition fetchLimit :: "'w HTTPFetcher \<Rightarrow> int64" where
  "fetchLimit f = (if le64 (hfMaxBodyBytes f) 0 then defaultMaxBodyBytes else hfMaxBodyBytes f)"

lemma fetchLimit_pos: "0 < sint (fetchLimit f)"
  by (simp add: fetchLimit_def le64_def defaultMaxBodyBytes_def)

lemma sint_succ: "sint (m :: int64) < max64 \<Longrightarrow> sint (m + 1) = sint m + 1"
  using sint_of_int_range [of "sint m + 1"] sint_ge [of m] by (simp add: min64_def)

lemma readLimited_succ:
  assumes "0 < sint m" and "sint m < max64" and "readLimited (m + 1) resp = Inr body" and "\<not> lt64 m (len64 body)"
  shows "body = hrBody resp \<and> hrBodyErr resp = None \<and> int (length body) \<le> sint m"
proof (cases "int (length (hrBody resp)) < sint (m + 1)")
  case True
  with assms(1-3) show ?thesis
    by (auto simp: readLimited_def sint_succ split: option.splits)
next
  case False
  with assms(1-3) have "int (length body) = sint m + 1"
    by (auto simp: readLimited_def sint_succ)
  then have "sint (len64 body) = sint m + 1"
    using assms(2) by (simp add: sint_len64)
  with assms(4) show ?thesis by (simp add: lt64_def)
qed

text \<open>
  C18. A body the upstream fetcher hands on is the whole body of a 200 answer, read without an error
  and no longer than the limit in force: a response is never truncated silently. (For the
  one limit where adding 1 overflows see the next property.)
\<close>

theorem Fetch_whole_body:
  assumes "Fetch f upstreamURL key w = (Inr (Some (body, ct)), w')"
    and "sint (fetchLimit f) < max64"
  shows "\<exists>resp. Do (hfClient f) (TrimRight upstreamURL (CHR ''/'') @ ''/'' @ TrimLeft key (CHR ''/'')) w = (Inr resp, w') \<and>
           hrStatus resp = 200 \<and> body = hrBody resp \<and> hrBodyErr resp = None \<and> ct = hrContentType resp \<and>
           int (length body) \<le> sint (fetchLimit f)"
proof -
  from assms(1) obtain resp where
    d: "Do (hfClient f) (TrimRight upstreamURL (CHR ''/'') @ ''/'' @ TrimLeft key (CHR ''/'')) w = (Inr resp, w')" and
    st: "hrStatus resp = 200" and ct: "ct = hrContentType resp" and
    r: "readLimited (fetchLimit f + 1) resp = Inr body" and n: "\<not> lt64 (fetchLimit f) (len64 body)"
    by (auto simp: Fetch_def Let_def fetchLimit_def split: option.splits prod.splits sum.splits if_splits)
  from readLimited_succ [OF fetchLimit_pos assms(2) r n] d st ct show ?thesis by blast
qed

definition witness_http :: "unit http_client" where
  "witness_http = \<lparr>NewRequest = (\<lambda>u. None),
     Do = (\<lambda>u w. (Inr \<lparr>hrStatus = (if u = ''http://up/a.jar'' then 200 else 404), hrBody = ''JAR'', hrBodyErr = None,
                       hrContentType = ''application/java-archive''\<rparr>, w))\<rparr>"

theorem Fetch_whole_body_witness:
  "Fetch (NewHTTPFetcher witness_http) ''http://up/'' ''/a.jar'' () = (Inr (Some (''JAR'', ''application/java-archive'')), ()) \<and>
   int (length ''JAR'') \<le> sint (fetchLimit (NewHTTPFetcher witness_http))"
proof -
  have f: "Fetch (NewHTTPFetcher witness_http) ''http://up/'' ''/a.jar'' () =
      (Inr (Some (''JAR'', ''application/java-archive'')), ())" by code_simp
  have "sint (fetchLimit (NewHTTPFetcher witness_http)) < max64" by code_simp
  from Fetch_whole_body [OF f this] f show ?thesis by blast
qed

text \<open>
  With \<^verbatim>\<open>MaxBodyBytes\<close> set to the largest \<^verbatim>\<open>int64\<close>, \<^verbatim>\<open>maxBytes+1\<close> overflows to a negative limit and
  every 200 answer is handed on as an empty body.
\<close>

theorem Fetch_limit_overflow:
  assumes "hfMaxBodyBytes f = of_int max64" and "NewRequest (hfClient f) url = None"
    and "url = TrimRight upstreamURL (CHR ''/'') @ ''/'' @ TrimLeft key (CHR ''/'')"
    and "Do (hfClient f) url w = (Inr resp, w')" and "hrStatus resp = 200"
  shows "Fetch f upstreamURL key w = (Inr (Some ([], hrContentType resp)), w')"
proof -
  have "readLimited (hfMaxBodyBytes f + 1) resp = Inr []"
    by (simp add: assms(1) readLimited_def max64_def)
  moreover have "\<not> le64 (hfMaxBodyBytes f) 0" by (simp add: assms(1) le64_def max64_def)
  moreover have "\<not> lt64 (hfMaxBodyBytes f) (len64 [])" by (simp add: assms(1) lt64_def max64_def len64_def)
  ultimately show ?thesis using assms(2-) by (simp add: Fetch_def Let_def)
qed

theorem Fetch_limit_overflow_witness:
  "Fetch \<lparr>hfClient = witness_http, hfMaxBodyBytes = of_int max64\<rparr> ''http://up'' ''a.jar'' () =
   (Inr (Some ([], ''application/java-archive'')), ())"
proof -
  have u: "''http://up/a.jar'' = TrimRight ''http://up'' (CHR ''/'') @ ''/'' @ TrimLeft ''a.jar'' (CHR ''/'')" by code_simp
  show ?thesis
    using Fetch_limit_overflow [OF _ _ u, of "\<lparr>hfClient = witness_http, hfMaxBodyBytes = of_int max64\<rparr>" "()"]
    by (simp add: witness_http_def)
qed

end
