(* ===== verification/Resolver.thy ===== *)
theory Resolver
  imports Catalog_Manifests Objectstore
begin

text \<open>
  Route resolution and registry reconciliation (\<^verbatim>\<open>internal/resolver/resolver.go\<close>). A resolver's
  state is a record of its configuration, its catalog, the store and the fetcher it calls, the
  clock it reads, the duplicate counter and the world its store and fetcher act on; every
  operation returns its result and the new state. Log lines are not modelled.

  The operations are modelled as they run without interference; the invariant of the catalog
  also holds between the catalog steps of operations that interleave (theory \<open>Catalog\<close>).
\<close>

section \<open>State\<close>

record 'w Resolver =
  rCfg :: Config
  rCatalog :: Catalog
  rStore :: "'w Store"
  rFetcher :: "'w Fetcher"
  rNow :: "'w \<Rightarrow> instant"
  rDuplicateCount :: int
  rWorld :: 'w

text \<open>\<^verbatim>\<open>New\<close>: the options are applied in order, each setting the fetcher; HTTP is the default.\<close>

definition resolver_New ::
    "'w http_client \<Rightarrow> ('w \<Rightarrow> instant) \<Rightarrow> Config \<Rightarrow> Catalog \<Rightarrow> 'w Store \<Rightarrow> 'w Fetcher list \<Rightarrow> 'w \<Rightarrow> 'w Resolver" where
  "resolver_New http now cfg cat st opts w =
     \<lparr>rCfg = cfg, rCatalog = cat, rStore = st,
      rFetcher = (if opts = [] then Fetch (NewHTTPFetcher http) else last opts),
      rNow = now, rDuplicateCount = 0, rWorld = w\<rparr>"

definition DuplicateCount :: "'w Resolver \<Rightarrow> int" where
  "DuplicateCount r = rDuplicateCount r"

definition setDuplicateCount :: "int \<Rightarrow> 'w Resolver \<Rightarrow> 'w Resolver" where
  "setDuplicateCount n r = r\<lparr>rDuplicateCount := n\<rparr>"

text \<open>A call into the store or the fetcher, and a call into the catalog.\<close>

definition io :: "('w \<Rightarrow> 'a \<times> 'w) \<Rightarrow> 'w Resolver \<Rightarrow> 'a \<times> 'w Resolver" where
  "io f r = (let (x, w) = f (rWorld r) in (x, r\<lparr>rWorld := w\<rparr>))"

definition onCatalog :: "(Catalog \<Rightarrow> Catalog) \<Rightarrow> 'w Resolver \<Rightarrow> 'w Resolver" where
  "onCatalog f r = r\<lparr>rCatalog := f (rCatalog r)\<rparr>"

section \<open>Manifests\<close>

fun persistBuckets :: "Bucket list \<Rightarrow> go_error list \<Rightarrow> 'w Resolver \<Rightarrow> go_error list \<times> 'w Resolver" where
  "persistBuckets [] errs r = (errs, r)"
| "persistBuckets (bucket # bs) errs r =
     (if \<not> HasStorage bucket then persistBuckets bs errs r
      else case marshalManifest (ManifestForBucket (rCatalog r) (bName bucket)) of
             Inl e \<Rightarrow> persistBuckets bs (errs @ [Errorf ''encode manifest for %q: %w'' [bName bucket] [e]]) r
           | Inr body \<Rightarrow>
               (case io (sPutObject (rStore r) (bName bucket) (bManifestKey bucket) body ''application/json'') r of
                  (Some e, r') \<Rightarrow> persistBuckets bs (errs @ [Errorf ''persist manifest for %q: %w'' [bName bucket] [e]]) r'
                | (None, r') \<Rightarrow> persistBuckets bs errs r'))"

definition PersistManifests :: "'w Resolver \<Rightarrow> go_error option \<times> 'w Resolver" where
  "PersistManifests r = (let (errs, r') = persistBuckets (cBuckets (rCfg r)) [] r in (errors_Join errs, r'))"

section \<open>Reconciliation with the buckets\<close>

definition mapTrue :: "(string, bool) gomap \<Rightarrow> string \<Rightarrow> bool" where
  "mapTrue m k \<longleftrightarrow> gm_get m k = Some True"

fun syncObjects :: "Bucket \<Rightarrow> Object list \<Rightarrow> (string, bool) gomap \<Rightarrow> (string, bool) gomap \<Rightarrow> Catalog \<Rightarrow>
    (string, bool) gomap \<times> (string, bool) gomap \<times> Catalog" where
  "syncObjects bucket [] seen dups c = (seen, dups, c)"
| "syncObjects bucket (obj # objs) seen dups c =
     (if oKey obj = bManifestKey bucket then syncObjects bucket objs seen dups c
      else if mapTrue seen (oKey obj)
      then syncObjects bucket objs (gm_set (oKey obj) True seen) (gm_set (oKey obj) True dups) c
      else syncObjects bucket objs (gm_set (oKey obj) True seen) dups
             (Register (oKey obj) (bName bucket) (oSize obj) (oLastModified obj) c))"

fun syncBuckets :: "Bucket list \<Rightarrow> (string, bool) gomap \<Rightarrow> (string, bool) gomap \<Rightarrow> 'w Resolver \<Rightarrow>
    (go_error + (string, bool) gomap) \<times> 'w Resolver" where
  "syncBuckets [] seen dups r = (Inr dups, r)"
| "syncBuckets (bucket # bs) seen dups r =
     (if \<not> HasStorage bucket then syncBuckets bs seen dups r
      else case io (sListObjects (rStore r) (bName bucket)) r of
             (Inl e, r') \<Rightarrow> (Inl (Errorf ''resolver: sync: list %q: %w'' [bName bucket] [e]), r')
           | (Inr objects, r') \<Rightarrow>
               (case syncObjects bucket objects seen dups (rCatalog r') of
                  (seen', dups', c) \<Rightarrow> syncBuckets bs seen' dups' (r'\<lparr>rCatalog := c\<rparr>)))"

definition SyncRegistry :: "'w Resolver \<Rightarrow> go_error option \<times> 'w Resolver" where
  "SyncRegistry r =
     (case syncBuckets (cBuckets (rCfg r)) [] [] r of
        (Inl e, r') \<Rightarrow> (Some e, r')
      | (Inr dups, r') \<Rightarrow> (None, snd (PersistManifests (setDuplicateCount (int (length dups)) r'))))"

fun fetchManifests :: "Bucket list \<Rightarrow> BucketManifest list \<Rightarrow> 'w Resolver \<Rightarrow>
    (go_error + BucketManifest list) \<times> 'w Resolver" where
  "fetchManifests [] ms r = (Inr ms, r)"
| "fetchManifests (bucket # bs) ms r =
     (if \<not> HasStorage bucket then fetchManifests bs ms r
      else case io (sGetObject (rStore r) (bName bucket) (bManifestKey bucket)) r of
             (Inl e, r') \<Rightarrow> (Inl (Errorf ''resolver: bootstrap: fetch manifest for %q: %w'' [bName bucket] [e]), r')
           | (Inr content, r') \<Rightarrow> fetchManifests bs (ms @ [\<lparr>bmBucket = bName bucket, bmContent = content\<rparr>]) r')"

definition Bootstrap :: "'w Resolver \<Rightarrow> go_error option \<times> 'w Resolver" where
  "Bootstrap r =
     (case fetchManifests (cBuckets (rCfg r)) [] r of
        (Inl e, r') \<Rightarrow> (Some e, r')
      | (Inr ms, r') \<Rightarrow>
          (case SyncRegistry (onCatalog (LoadManifests ms) r') of
             (Some e, r'') \<Rightarrow> (Some (Errorf ''resolver: bootstrap: initial reconcile: %w'' [] [e]), r'')
           | (None, r'') \<Rightarrow> (None, r'')))"

section \<open>Resolving one file\<close>

text \<open>\<^verbatim>\<open>catalog.Set\<close>, the best-effort \<^verbatim>\<open>PersistManifests\<close> and the final lookup of the resolving loops.\<close>

definition setAndPersist :: "string \<Rightarrow> string \<Rightarrow> Object \<Rightarrow> 'w Resolver \<Rightarrow> Entry \<times> 'w Resolver" where
  "setAndPersist key bucketName obj r =
     (let r' = snd (PersistManifests (onCatalog (SetEntry key bucketName (oSize obj) (oLastModified obj)) r))
      in (case Lookup (rCatalog r') key of Some e \<Rightarrow> e | None \<Rightarrow> zeroEntry, r'))"

fun searchBuckets :: "Bucket list \<Rightarrow> string \<Rightarrow> 'w Resolver \<Rightarrow> (go_error + Entry option) \<times> 'w Resolver" where
  "searchBuckets [] key r = (Inr None, snd (PersistManifests (onCatalog (Remove key) r)))"
| "searchBuckets (bucket # bs) key r =
     (if \<not> HasStorage bucket then searchBuckets bs key r
      else case io (sHeadObject (rStore r) (bName bucket) key) r of
             (Inl e, r') \<Rightarrow> (Inl (Errorf ''resolver: resolve missing file %q in %q: %w'' [key, bName bucket] [e]), r')
           | (Inr (Some obj), r') \<Rightarrow> (let (e, r'') = setAndPersist key (bName bucket) obj r' in (Inr (Some e), r''))
           | (Inr None, r') \<Rightarrow> searchBuckets bs key r')"

definition ResolveMissingFile :: "string \<Rightarrow> 'w Resolver \<Rightarrow> (go_error + Entry option) \<times> 'w Resolver" where
  "ResolveMissingFile key r = searchBuckets (cBuckets (rCfg r)) key r"

definition parseVirtualPrefix :: "string \<Rightarrow> (string \<times> bool) option" where
  "parseVirtualPrefix route =
     (case CutPrefix route ''/public/'' of
        Some (c # k) \<Rightarrow> Some (c # k, True)
      | _ \<Rightarrow> (case CutPrefix route ''/private/'' of
                Some (c # k) \<Rightarrow> Some (c # k, False)
              | _ \<Rightarrow> None))"

fun searchBucketsByType :: "Bucket list \<Rightarrow> string \<Rightarrow> bool \<Rightarrow> 'w Resolver \<Rightarrow> (go_error + Entry option) \<times> 'w Resolver" where
  "searchBucketsByType [] key public r = (Inr None, r)"
| "searchBucketsByType (bucket # bs) key public r =
     (if \<not> HasStorage bucket \<or> bPublic bucket \<noteq> public then searchBucketsByType bs key public r
      else case io (sHeadObject (rStore r) (bName bucket) key) r of
             (Inl e, r') \<Rightarrow> (Inl (Errorf ''resolver: resolve %q in %q: %w'' [key, bName bucket] [e]), r')
           | (Inr None, r') \<Rightarrow> searchBucketsByType bs key public r'
           | (Inr (Some obj), r') \<Rightarrow> (let (e, r'') = setAndPersist key (bName bucket) obj r' in (Inr (Some e), r'')))"

definition resolveMissingFileByType :: "string \<Rightarrow> bool \<Rightarrow> 'w Resolver \<Rightarrow> (go_error + Entry option) \<times> 'w Resolver" where
  "resolveMissingFileByType key public r = searchBucketsByType (cBuckets (rCfg r)) key public r"

section \<open>Proxy and virtual repositories\<close>

definition registerResolvedObject ::
    "string \<Rightarrow> string \<Rightarrow> int64 \<Rightarrow> string \<Rightarrow> bool \<Rightarrow> 'w Resolver \<Rightarrow> (go_error + Entry option) \<times> 'w Resolver" where
  "registerResolvedObject bucketName key sz lastModified persist r =
     (let r1 = onCatalog (Register key bucketName sz lastModified) r;
          r2 = (if persist then snd (PersistManifests r1) else r1)
      in (case Lookup (rCatalog r2) key of
            None \<Rightarrow> Inr None
          | Some entry \<Rightarrow> if eBucket entry \<noteq> bucketName then Inr None else Inr (Some entry), r2))"

definition proxyCacheExpired :: "instant \<Rightarrow> Bucket \<Rightarrow> Object \<Rightarrow> bool" where
  "proxyCacheExpired now bucket obj =
     (if le64 (bCacheTTL bucket) 0 then False
      else case time_Parse (oLastModified obj) of
             None \<Rightarrow> True
           | Some cachedAt \<Rightarrow> lt64 (bCacheTTL bucket) (time_Sub now cachedAt))"

text \<open>The part of \<^verbatim>\<open>resolveProxyRoute\<close> after a miss or an expired hit.\<close>

definition proxyFetch :: "Bucket \<Rightarrow> string \<Rightarrow> 'w Resolver \<Rightarrow> (go_error + Entry option) \<times> 'w Resolver" where
  "proxyFetch bucket key r =
     (case io (rFetcher r (bUpstreamURL bucket) key) r of
        (Inl e, r1) \<Rightarrow> (Inl (Errorf ''resolver: proxy fetch %q from %q: %w'' [key, bUpstreamURL bucket] [e]), r1)
      | (Inr None, r1) \<Rightarrow> (Inr None, r1)
      | (Inr (Some (body, contentType)), r1) \<Rightarrow>
          (case io (sPutObject (rStore r1) (bName bucket) key body contentType) r1 of
             (Some e, r2) \<Rightarrow> (Inl (Errorf ''resolver: proxy cache store %q in %q: %w'' [key, bName bucket] [e]), r2)
           | (None, r2) \<Rightarrow> registerResolvedObject (bName bucket) key (len64 body) [] True r2))"

definition resolveProxyRoute :: "Bucket \<Rightarrow> string \<Rightarrow> 'w Resolver \<Rightarrow> (go_error + Entry option) \<times> 'w Resolver" where
  "resolveProxyRoute bucket key r =
     (case io (sHeadObject (rStore r) (bName bucket) key) r of
        (Inl e, r1) \<Rightarrow> (Inl (Errorf ''resolver: proxy cache check %q in %q: %w'' [key, bName bucket] [e]), r1)
      | (Inr cached, r1) \<Rightarrow>
          (case cached of
             Some obj \<Rightarrow>
               if \<not> proxyCacheExpired (rNow r1 (rWorld r1)) bucket obj
               then registerResolvedObject (bName bucket) key (oSize obj) (oLastModified obj) False r1
               else proxyFetch bucket key r1
           | None \<Rightarrow> proxyFetch bucket key r1))"

definition resolveHostedMemberRoute :: "Bucket \<Rightarrow> string \<Rightarrow> 'w Resolver \<Rightarrow> (go_error + Entry option) \<times> 'w Resolver" where
  "resolveHostedMemberRoute member key r =
     (case io (sHeadObject (rStore r) (bName member) key) r of
        (Inl e, r1) \<Rightarrow> (Inl (Errorf ''resolver: virtual member %q: check %q: %w'' [bName member, key] [e]), r1)
      | (Inr None, r1) \<Rightarrow> (Inr None, r1)
      | (Inr (Some obj), r1) \<Rightarrow> registerResolvedObject (bName member) key (oSize obj) (oLastModified obj) True r1)"

fun resolveMembers :: "string \<Rightarrow> string list \<Rightarrow> string \<Rightarrow> 'w Resolver \<Rightarrow> (go_error + Entry option) \<times> 'w Resolver" where
  "resolveMembers vname [] key r = (Inr None, r)"
| "resolveMembers vname (memberName # ms) key r =
     (case BucketByName (rCfg r) memberName of
        None \<Rightarrow> resolveMembers vname ms key r
      | Some member \<Rightarrow>
          if bKind member = KindVirtual then resolveMembers vname ms key r
          else (case (if bKind member = KindProxy then resolveProxyRoute member key r
                      else resolveHostedMemberRoute member key r) of
                  (Inl e, r') \<Rightarrow> (Inl (Errorf ''resolver: virtual repo %q: member %q: %w'' [vname, memberName] [e]), r')
                | (Inr (Some entry), r') \<Rightarrow> (Inr (Some entry), r')
                | (Inr None, r') \<Rightarrow> resolveMembers vname ms key r'))"

definition resolveVirtualRoute :: "Bucket \<Rightarrow> string \<Rightarrow> 'w Resolver \<Rightarrow> (go_error + Entry option) \<times> 'w Resolver" where
  "resolveVirtualRoute virtual key r = resolveMembers (bName virtual) (bMembers virtual) key r"

section \<open>Resolving a route\<close>

definition Exists :: "string \<Rightarrow> string \<Rightarrow> 'w Resolver \<Rightarrow> bool \<times> 'w Resolver" where
  "Exists bucket key r =
     (case io (sHeadObject (rStore r) bucket key) r of
        (Inl e, r') \<Rightarrow> (False, r')
      | (Inr obj, r') \<Rightarrow> (obj \<noteq> None, r'))"

text \<open>\<^verbatim>\<open>ResolveMissingFile\<close> and then only an entry of exactly this route.\<close>

definition resolveExact :: "string \<Rightarrow> string \<Rightarrow> 'w Resolver \<Rightarrow> (go_error + Entry option) \<times> 'w Resolver" where
  "resolveExact key route r =
     (case ResolveMissingFile key r of
        (Inl e, r') \<Rightarrow> (Inl e, r')
      | (Inr (Some resolved), r') \<Rightarrow> (Inr (if eRoute resolved = route then Some resolved else None), r')
      | (Inr None, r') \<Rightarrow> (Inr None, r'))"

fun routeBuckets :: "Bucket list \<Rightarrow> string \<Rightarrow> 'w Resolver \<Rightarrow> (go_error + Entry option) \<times> 'w Resolver" where
  "routeBuckets [] route r = (Inr None, r)"
| "routeBuckets (bucket # bs) route r =
     (let prefix = ''/'' @ bName bucket @ ''/''
      in if \<not> HasPrefix route prefix then routeBuckets bs route r
         else let key = TrimPrefix route prefix
              in if bKind bucket = KindProxy then resolveProxyRoute bucket key r
                 else if bKind bucket = KindVirtual then resolveVirtualRoute bucket key r
                 else resolveExact key route r)"

definition ResolveRoute :: "string \<Rightarrow> 'w Resolver \<Rightarrow> (go_error + Entry option) \<times> 'w Resolver" where
  "ResolveRoute route r =
     (case LookupByRoute (rCatalog r) route of
        Some entry \<Rightarrow>
          (case Exists (eBucket entry) (eKey entry) r of
             (True, r') \<Rightarrow> (Inr (Some entry), r')
           | (False, r') \<Rightarrow> resolveExact (eKey entry) route r')
      | None \<Rightarrow>
          (case parseVirtualPrefix route of
             Some (key, public) \<Rightarrow> resolveMissingFileByType key public r
           | None \<Rightarrow> routeBuckets (cBuckets (rCfg r)) route r))"

section \<open>Relocate\<close>

record RelocateResult =
  rrEntry :: Entry
  rrRelocatedFrom :: string
  rrRelocatedTo :: string
  rrDuplicate :: bool

definition ErrFileNotFound :: go_error where
  "ErrFileNotFound = ErrorsNew ''resolver: file not found in any bucket''"

text \<open>The scan over all buckets: target bucket and object so far, and how many buckets had the file.\<close>

fun relocateScan :: "Bucket list \<Rightarrow> string \<Rightarrow> string \<Rightarrow> Object option \<Rightarrow> int \<Rightarrow> 'w Resolver \<Rightarrow>
    (go_error + string \<times> Object option \<times> int) \<times> 'w Resolver" where
  "relocateScan [] filename target tobj found r = (Inr (target, tobj, found), r)"
| "relocateScan (bucket # bs) filename target tobj found r =
     (if \<not> HasStorage bucket then relocateScan bs filename target tobj found r
      else case io (sHeadObject (rStore r) (bName bucket) filename) r of
             (Inl e, r') \<Rightarrow> (Inl (Errorf ''resolver: relocate: check %q in %q: %w'' [filename, bName bucket] [e]), r')
           | (Inr None, r') \<Rightarrow> relocateScan bs filename target tobj found r'
           | (Inr (Some obj), r') \<Rightarrow>
               if target = [] then relocateScan bs filename (bName bucket) (Some obj) (found + 1) r'
               else relocateScan bs filename target tobj (found + 1) r')"

text \<open>The last branch stands for the nil dereference of \<^verbatim>\<open>targetObj\<close>; no run takes it.\<close>

definition Relocate :: "string \<Rightarrow> 'w Resolver \<Rightarrow> (go_error + RelocateResult) \<times> 'w Resolver" where
  "Relocate filename r =
     (case relocateScan (cBuckets (rCfg r)) filename [] None 0 r of
        (Inl e, r1) \<Rightarrow> (Inl e, r1)
      | (Inr (target, tobj, found), r1) \<Rightarrow>
          if found = 0
          then (Inl ErrFileNotFound, snd (PersistManifests (onCatalog (Remove filename) r1)))
          else (case tobj of
                  Some obj \<Rightarrow>
                    let previous = Lookup (rCatalog r1) filename;
                        r2 = onCatalog (SetEntry filename target (oSize obj) (oLastModified obj)) r1
                    in (case PersistManifests r2 of
                          (Some e, r3) \<Rightarrow> (Inl (Errorf ''resolver: relocate: persist manifests: %w'' [] [e]), r3)
                        | (None, r3) \<Rightarrow>
                            let entry = (case Lookup (rCatalog r3) filename of Some e \<Rightarrow> e | None \<Rightarrow> zeroEntry);
                                moved = (case previous of Some p \<Rightarrow> eBucket p \<noteq> target | None \<Rightarrow> False)
                            in (Inr \<lparr>rrEntry = entry,
                                     rrRelocatedFrom = (if moved then case previous of Some p \<Rightarrow> eBucket p | None \<Rightarrow> [] else []),
                                     rrRelocatedTo = (if moved then target else []),
                                     rrDuplicate = found > 1\<rparr>, r3))
                | None \<Rightarrow> (Inl (ErrorsNew ''invalid memory address or nil pointer dereference''), r1)))"

end
