(* ===== verification/Resolver_Catalog.thy ===== *)
theory Resolver_Catalog
  imports Resolver
begin

text \<open>
  What the resolver does to the catalog, for every store and every fetcher, failing ones included:
  each operation is a sequence of catalog steps on configured buckets, so the invariants of the
  theory \<open>Catalog\<close> hold after each of them, and which operation may take a key from which bucket.
\<close>

section \<open>Frames\<close>

lemma io_eq: "io f r = (x, r') \<longleftrightarrow> (\<exists>w. f (rWorld r) = (x, w) \<and> r' = r\<lparr>rWorld := w\<rparr>)"
  by (auto simp: io_def Let_def split: prod.splits)

lemma persistBuckets_world: "\<exists>w. snd (persistBuckets bs errs r) = r\<lparr>rWorld := w\<rparr>"
proof (induction bs errs r rule: persistBuckets.induct)
  case (1 errs r)
  show ?case by (rule exI [of _ "rWorld r"]) simp
next
  case (2 bucket bs errs r)
  show ?case
  proof (cases "HasStorage bucket")
    case False
    with 2(1) show ?thesis by simp
  next
    case True
    obtain body where b: "marshalManifest (ManifestForBucket (rCatalog r) (bName bucket)) = Inr body"
      by (simp add: marshalManifest_def)
    obtain x r' where i: "io (sPutObject (rStore r) (bName bucket) (bManifestKey bucket) body ''application/json'') r = (x, r')"
      by (meson surj_pair)
    then obtain w where w: "r' = r\<lparr>rWorld := w\<rparr>" by (auto simp: io_eq)
    show ?thesis
      using 2(3,4) [OF _ b i [symmetric]] True b i w by (cases x) auto
  qed
qed

text \<open>\<^verbatim>\<open>PersistManifests\<close> changes nothing but the world.\<close>

lemma Persist_fields [simp]:
  "rCfg (snd (PersistManifests r)) = rCfg r" "rCatalog (snd (PersistManifests r)) = rCatalog r"
  "rStore (snd (PersistManifests r)) = rStore r" "rFetcher (snd (PersistManifests r)) = rFetcher r"
  "rNow (snd (PersistManifests r)) = rNow r" "rDuplicateCount (snd (PersistManifests r)) = rDuplicateCount r"
  using persistBuckets_world [of "cBuckets (rCfg r)" "[]" r]
  by (auto simp: PersistManifests_def Let_def split: prod.splits)

lemma Persist_fields':
  "PersistManifests r = (x, r') \<Longrightarrow>
     rCfg r' = rCfg r \<and> rCatalog r' = rCatalog r \<and> rStore r' = rStore r \<and> rFetcher r' = rFetcher r \<and> rNow r' = rNow r"
  using Persist_fields [of r] by simp

lemma onCatalog_fields [simp]:
  "rCfg (onCatalog f r) = rCfg r" "rCatalog (onCatalog f r) = f (rCatalog r)" "rStore (onCatalog f r) = rStore r"
  "rFetcher (onCatalog f r) = rFetcher r" "rNow (onCatalog f r) = rNow r" "rWorld (onCatalog f r) = rWorld r"
  by (simp_all add: onCatalog_def)

lemma setDuplicateCount_fields [simp]:
  "rCfg (setDuplicateCount n r) = rCfg r" "rCatalog (setDuplicateCount n r) = rCatalog r"
  "rStore (setDuplicateCount n r) = rStore r" "rWorld (setDuplicateCount n r) = rWorld r"
  "rFetcher (setDuplicateCount n r) = rFetcher r" "rNow (setDuplicateCount n r) = rNow r"
  "rDuplicateCount (setDuplicateCount n r) = n"
  by (simp_all add: setDuplicateCount_def)

lemma setAndPersist_eq:
  "setAndPersist key b ob r = (e, r') \<longleftrightarrow>
     r' = snd (PersistManifests (onCatalog (SetEntry key b (oSize ob) (oLastModified ob)) r)) \<and>
     e = entryOf (rCatalog r) key b (oSize ob) (oLastModified ob)"
  by (auto simp: setAndPersist_def Let_def cat.lookup_set)

section \<open>Sequences of catalog steps\<close>

text \<open>
  \<open>steps B r r'\<close>: same configuration, store, fetcher and clock, and the catalog of \<open>r'\<close> is reached from the
  one of \<open>r\<close> by steps on buckets of \<open>B\<close>.
\<close>

definition steps :: "string set \<Rightarrow> 'w Resolver \<Rightarrow> 'w Resolver \<Rightarrow> bool" where
  "steps B r r' \<longleftrightarrow>
     rCfg r' = rCfg r \<and> rStore r' = rStore r \<and> rFetcher r' = rFetcher r \<and> rNow r' = rNow r \<and>
     (cat_step B)\<^sup>*\<^sup>* (rCatalog r) (rCatalog r')"

lemma steps_refl [simp, intro]: "steps B r r"
  by (simp add: steps_def)

lemma steps_trans: "steps B r r' \<Longrightarrow> steps B r' r'' \<Longrightarrow> steps B r r''"
  by (auto simp: steps_def)

lemma steps_io [intro]: "io f r = (x, r') \<Longrightarrow> steps B r r'"
  by (auto simp: steps_def io_eq)

lemma steps_persist [simp, intro]: "steps B r (snd (PersistManifests r))"
  by (simp add: steps_def)

lemma steps_catalog: "(cat_step B)\<^sup>*\<^sup>* (rCatalog r) (f (rCatalog r)) \<Longrightarrow> steps B r (onCatalog f r)"
  by (simp add: steps_def)

lemma steps_Remove [simp, intro]: "steps B r (onCatalog (Remove k) r)"
  by (intro steps_catalog r_into_rtranclp step_Remove)

lemma steps_Set [intro]: "b \<in> B \<Longrightarrow> steps B r (onCatalog (SetEntry k b s l) r)"
  by (intro steps_catalog r_into_rtranclp step_Set)

lemma steps_Register [intro]: "b \<in> B \<Longrightarrow> steps B r (onCatalog (Register k b s l) r)"
  by (intro steps_catalog r_into_rtranclp step_Register)

lemma cat_steps_reachable: "(cat_step B)\<^sup>*\<^sup>* c c' \<Longrightarrow> cat_reachable B c \<Longrightarrow> cat_reachable B c'"
  by (induction rule: rtranclp_induct) (auto intro: reach_step)

lemma cat_steps_inv: "(cat_step B)\<^sup>*\<^sup>* c c' \<Longrightarrow> cat_inv c \<Longrightarrow> cat_inv c'"
  by (induction rule: rtranclp_induct) (auto intro: cat_step_inv)

lemma cat_steps_priority: "(cat_step B)\<^sup>*\<^sup>* c c' \<Longrightarrow> priority c' = priority c \<and> bucketType c' = bucketType c"
  by (induction rule: rtranclp_induct) (auto elim!: cat_step.cases)

lemma steps_setAndPersist:
  "setAndPersist key b ob r = (e, r') \<Longrightarrow> b \<in> B \<Longrightarrow> steps B r r'"
  unfolding setAndPersist_eq by (metis steps_Set steps_persist steps_trans)

lemma steps_registerResolvedObject:
  "registerResolvedObject b k s l p r = (x, r') \<Longrightarrow> b \<in> B \<Longrightarrow> steps B r r'"
  using steps_Register [of b B r k s l] steps_persist [of B "onCatalog (Register k b s l) r"]
  by (auto simp: registerResolvedObject_def Let_def intro: steps_trans split: if_splits)

section \<open>Every operation\<close>

abbreviation bucketNames :: "'w Resolver \<Rightarrow> string set" where
  "bucketNames r \<equiv> bName ` set (cBuckets (rCfg r))"

lemma steps_searchBuckets:
  "searchBuckets bs key r = (x, r') \<Longrightarrow> bName ` set bs \<subseteq> B \<Longrightarrow> steps B r r'"
proof (induction bs arbitrary: r)
  case Nil
  then show ?case using steps_Remove steps_persist steps_trans by (metis prod.inject searchBuckets.simps(1))
next
  case (Cons b bs)
  then show ?case
    by (auto split: if_splits prod.splits sum.splits option.splits simp: Let_def
             dest: steps_setAndPersist [where B = B] steps_io [where B = B] intro: steps_trans)
qed

lemma steps_searchBucketsByType:
  "searchBucketsByType bs key public r = (x, r') \<Longrightarrow> bName ` set bs \<subseteq> B \<Longrightarrow> steps B r r'"
proof (induction bs arbitrary: r)
  case Nil
  then show ?case by simp
next
  case (Cons b bs)
  then show ?case
    by (auto split: if_splits prod.splits sum.splits option.splits simp: Let_def
             dest: steps_setAndPersist [where B = B] steps_io [where B = B] intro: steps_trans)
qed

lemma steps_proxyFetch: "proxyFetch b key r = (x, r') \<Longrightarrow> bName b \<in> B \<Longrightarrow> steps B r r'"
  unfolding proxyFetch_def
  by (auto split: prod.splits sum.splits option.splits;
      meson steps_io steps_registerResolvedObject steps_trans)

lemma steps_resolveProxyRoute: "resolveProxyRoute b key r = (x, r') \<Longrightarrow> bName b \<in> B \<Longrightarrow> steps B r r'"
  unfolding resolveProxyRoute_def
  by (auto split: prod.splits sum.splits option.splits if_splits
           dest: steps_registerResolvedObject [where B = B] steps_io [where B = B] steps_proxyFetch [where B = B]
           intro: steps_trans)

lemma steps_resolveHosted: "resolveHostedMemberRoute b key r = (x, r') \<Longrightarrow> bName b \<in> B \<Longrightarrow> steps B r r'"
  unfolding resolveHostedMemberRoute_def
  by (auto split: prod.splits sum.splits option.splits
           dest: steps_registerResolvedObject [where B = B] steps_io [where B = B] intro: steps_trans)

lemma BucketByName_Some: "BucketByName c n = Some b \<Longrightarrow> b \<in> set (cBuckets c) \<and> bName b = n"
  by (auto simp: BucketByName_def dest: find_Some_in)

lemma steps_resolveMembers:
  "resolveMembers v ms key r = (x, r') \<Longrightarrow> bucketNames r \<subseteq> B \<Longrightarrow> steps B r r'"
proof (induction v ms key r rule: resolveMembers.induct)
  case (1 v key r)
  then show ?case by simp
next
  case (2 v m ms key r)
  show ?case
  proof (cases "BucketByName (rCfg r) m")
    case None
    with 2 show ?thesis by simp
  next
    case (Some b)
    with 2(5) have B: "bName b \<in> B" by (auto dest: BucketByName_Some)
    show ?thesis
    proof (cases "bKind b = KindVirtual")
      case True
      with Some 2 show ?thesis by simp
    next
      case False
      obtain y r1 where y: "(if bKind b = KindProxy then resolveProxyRoute b key r
          else resolveHostedMemberRoute b key r) = (y, r1)" by (meson surj_pair)
      have s1: "steps B r r1"
        using y B by (auto intro: steps_resolveProxyRoute steps_resolveHosted split: if_splits)
      then have "bucketNames r1 \<subseteq> B" using 2(5) by (simp add: steps_def)
      with 2(3) [OF Some False y [symmetric]] 2(4) Some False y s1 show ?thesis
        by (auto split: sum.splits option.splits intro: steps_trans)
    qed
  qed
qed

lemma steps_ResolveMissingFile:
  "ResolveMissingFile key r = (x, r') \<Longrightarrow> bucketNames r \<subseteq> B \<Longrightarrow> steps B r r'"
  unfolding ResolveMissingFile_def by (rule steps_searchBuckets)

lemma steps_resolveExact:
  "resolveExact key route r = (x, r') \<Longrightarrow> bucketNames r \<subseteq> B \<Longrightarrow> steps B r r'"
  unfolding resolveExact_def
  by (auto split: prod.splits sum.splits option.splits dest: steps_ResolveMissingFile)

lemma steps_routeBuckets:
  "routeBuckets bs route r = (x, r') \<Longrightarrow> bName ` set bs \<subseteq> B \<Longrightarrow> bucketNames r \<subseteq> B \<Longrightarrow> steps B r r'"
proof (induction bs)
  case Nil
  then show ?case by simp
next
  case (Cons b bs)
  then show ?case
    by (auto simp: Let_def resolveVirtualRoute_def split: if_splits
             dest: steps_resolveProxyRoute [where B = B] steps_resolveMembers [where B = B] steps_resolveExact [where B = B])
qed

lemma steps_Exists: "Exists b k r = (x, r') \<Longrightarrow> steps B r r'"
  by (auto simp: Exists_def split: prod.splits sum.splits dest: steps_io)

lemma steps_ResolveRoute:
  "ResolveRoute route r = (x, r') \<Longrightarrow> bucketNames r \<subseteq> B \<Longrightarrow> steps B r r'"
proof (cases "LookupByRoute (rCatalog r) route")
  case None
  then show "ResolveRoute route r = (x, r') \<Longrightarrow> bucketNames r \<subseteq> B \<Longrightarrow> steps B r r'"
    by (auto simp: ResolveRoute_def resolveMissingFileByType_def split: option.splits prod.splits
             dest: steps_searchBucketsByType [where B = B] steps_routeBuckets [where B = B])
next
  case (Some e)
  obtain q r1 where q: "Exists (eBucket e) (eKey e) r = (q, r1)" by (meson surj_pair)
  then have s1: "steps B r r1" by (rule steps_Exists)
  show "ResolveRoute route r = (x, r') \<Longrightarrow> bucketNames r \<subseteq> B \<Longrightarrow> steps B r r'"
    using s1 steps_resolveExact [of "eKey e" route r1 x r' B]
    by (auto simp: ResolveRoute_def Some q steps_def split: bool.splits)
qed

lemma steps_relocateScan:
  "relocateScan bs f t ob n r = (x, r') \<Longrightarrow> steps B r r' \<and> rCatalog r' = rCatalog r"
proof (induction bs arbitrary: t ob n r)
  case Nil
  then show ?case by simp
next
  case (Cons b bs)
  have "steps B r r1 \<and> rCatalog r1 = rCatalog r" if "io g r = (y, r1)" for g y r1
    using that by (auto simp: io_eq steps_def)
  with Cons show ?case
    by (fastforce split: if_splits prod.splits sum.splits option.splits intro: steps_trans)
qed

lemma relocateScan_target:
  "relocateScan bs f t ob n r = (Inr (t', ob', n'), r') \<Longrightarrow> (if n = 0 then t = [] else t \<in> B) \<Longrightarrow> bName ` set bs \<subseteq> B \<Longrightarrow>
   0 \<le> n \<Longrightarrow> n' \<noteq> 0 \<Longrightarrow> t' \<in> B"
proof (induction bs arbitrary: t ob n r)
  case Nil
  then show ?case by simp
next
  case (Cons b bs)
  show ?case
  proof (cases "HasStorage b")
    case False
    with Cons show ?thesis by auto
  next
    case True
    obtain y r1 where i: "io (sHeadObject (rStore r) (bName b) f) r = (y, r1)" by (meson surj_pair)
    from Cons.prems True i show ?thesis
      by (auto split: sum.splits option.splits if_splits intro: Cons.IH)
  qed
qed

lemma steps_Relocate:
  assumes "Relocate f r = (x, r')" and "bucketNames r \<subseteq> B"
  shows "steps B r r'"
proof -
  obtain y r1 where y: "relocateScan (cBuckets (rCfg r)) f [] None 0 r = (y, r1)" by (meson surj_pair)
  have s1: "steps B r r1" using steps_relocateScan [OF y] by blast
  show ?thesis
  proof (cases y)
    case (Inl e)
    with assms y s1 show ?thesis by (simp add: Relocate_def)
  next
    case (Inr v)
    obtain t ob n where v: "v = (t, ob, n)" by (cases v)
    have B: "t \<in> B" if "n \<noteq> 0"
      using relocateScan_target [OF y [unfolded Inr v], of B] that assms(2) by simp
    show ?thesis
    proof (cases "n = 0")
      case True
      with assms y Inr v s1 show ?thesis by (auto simp: Relocate_def intro: steps_trans [OF steps_trans])
    next
      case False
      have "steps B r1 (snd (PersistManifests (onCatalog (SetEntry f t s l) r1)))" for s l
        using B [OF False] by (blast intro: steps_trans)
      with assms y Inr v False s1 show ?thesis
        by (auto simp: Relocate_def Let_def split: option.splits prod.splits intro: steps_trans)
           (metis snd_conv steps_trans)+
    qed
  qed
qed

lemma cat_steps_syncObjects:
  "syncObjects b objs seen dups c = (seen', dups', c') \<Longrightarrow> bName b \<in> B \<Longrightarrow> (cat_step B)\<^sup>*\<^sup>* c c'"
  by (induction b objs seen dups c rule: syncObjects.induct)
     (auto split: if_splits intro: converse_rtranclp_into_rtranclp step_Register)

lemma steps_syncBuckets:
  "syncBuckets bs seen dups r = (x, r') \<Longrightarrow> bName ` set bs \<subseteq> B \<Longrightarrow> steps B r r'"
proof (induction bs arbitrary: seen dups r)
  case Nil
  then show ?case by simp
next
  case (Cons b bs)
  show ?case
  proof (cases "HasStorage b")
    case False
    with Cons show ?thesis by simp
  next
    case True
    obtain y r1 where i: "io (sListObjects (rStore r) (bName b)) r = (y, r1)" by (meson surj_pair)
    have s1: "steps B r r1" using i by (rule steps_io)
    show ?thesis
    proof (cases y)
      case (Inl e)
      with Cons.prems True i s1 show ?thesis by simp
    next
      case (Inr objs)
      obtain seen' dups' c where o: "syncObjects b objs seen dups (rCatalog r1) = (seen', dups', c)" by (metis prod_cases3)
      have "steps B r1 (r1\<lparr>rCatalog := c\<rparr>)"
        using cat_steps_syncObjects [OF o, of B] Cons.prems(2) by (simp add: steps_def)
      moreover have "steps B (r1\<lparr>rCatalog := c\<rparr>) r'"
        using Cons.prems True i Inr o by (intro Cons.IH) auto
      ultimately show ?thesis using s1 steps_trans by blast
    qed
  qed
qed

lemma steps_SyncRegistry:
  assumes "SyncRegistry r = (x, r')" and "bucketNames r \<subseteq> B"
  shows "steps B r r'"
proof -
  obtain y r1 where y: "syncBuckets (cBuckets (rCfg r)) [] [] r = (y, r1)" by (meson surj_pair)
  have s1: "steps B r r1" using steps_syncBuckets [OF y assms(2)] .
  have "steps B r1 (snd (PersistManifests (setDuplicateCount n r1)))" for n
    by (simp add: steps_def)
  with assms(1) y s1 show ?thesis
    by (auto simp: SyncRegistry_def split: sum.splits intro: steps_trans)
qed

lemma cat_steps_LoadManifests: "(cat_step UNIV)\<^sup>*\<^sup>* c (LoadManifests ms c)"
proof -
  have "(cat_step UNIV)\<^sup>*\<^sup>* c (foldl (\<lambda>c (k, b, s, l). Register k b s l c) c items)" for c items
    by (induction items arbitrary: c) (auto intro: converse_rtranclp_into_rtranclp step_Register)
  then show ?thesis
    unfolding LoadManifests_items by (meson converse_rtranclp_into_rtranclp step_Clear)
qed

lemma steps_fetchManifests:
  "fetchManifests bs ms r = (x, r') \<Longrightarrow> steps B r r' \<and> rCatalog r' = rCatalog r"
proof (induction bs arbitrary: ms r)
  case Nil
  then show ?case by simp
next
  case (Cons b bs)
  have "steps B r r1 \<and> rCatalog r1 = rCatalog r" if "io g r = (y, r1)" for g y r1
    using that by (auto simp: io_eq steps_def)
  with Cons show ?case
    by (fastforce split: if_splits prod.splits sum.splits intro: steps_trans)
qed

lemma steps_Bootstrap:
  assumes "Bootstrap r = (x, r')"
  shows "steps UNIV r r'"
proof -
  obtain y r1 where y: "fetchManifests (cBuckets (rCfg r)) [] r = (y, r1)" by (meson surj_pair)
  have s1: "steps UNIV r r1" using steps_fetchManifests [OF y] by blast
  show ?thesis
  proof (cases y)
    case (Inl e)
    with assms y s1 show ?thesis by (simp add: Bootstrap_def)
  next
    case (Inr ms)
    obtain z r2 where z: "SyncRegistry (onCatalog (LoadManifests ms) r1) = (z, r2)" by (meson surj_pair)
    have "steps UNIV r1 (onCatalog (LoadManifests ms) r1)"
      by (rule steps_catalog) (rule cat_steps_LoadManifests)
    moreover have "steps UNIV (onCatalog (LoadManifests ms) r1) r2"
      using steps_SyncRegistry [OF z, of UNIV] by simp
    moreover have "r' = r2" using assms y Inr z by (auto simp: Bootstrap_def split: option.splits)
    ultimately show ?thesis using s1 steps_trans by blast
  qed
qed

section \<open>Runs of the service\<close>

text \<open>
  A run: any operation of the resolver, in any order, with whatever result, and between them any
  change of the world by others (uploads to the buckets, the upstreams, time).
\<close>

inductive res_step :: "'w Resolver \<Rightarrow> 'w Resolver \<Rightarrow> bool" where
  run_ResolveRoute: "ResolveRoute route r = (x, r') \<Longrightarrow> res_step r r'"
| run_ResolveMissingFile: "ResolveMissingFile key r = (x, r') \<Longrightarrow> res_step r r'"
| run_Relocate: "Relocate filename r = (y, r') \<Longrightarrow> res_step r r'"
| run_SyncRegistry: "SyncRegistry r = (z, r') \<Longrightarrow> res_step r r'"
| run_Bootstrap: "Bootstrap r = (z, r') \<Longrightarrow> res_step r r'"
| run_world: "res_step r (r\<lparr>rWorld := w\<rparr>)"

definition service_New ::
    "'w http_client \<Rightarrow> ('w \<Rightarrow> instant) \<Rightarrow> Config \<Rightarrow> 'w Store \<Rightarrow> 'w Fetcher list \<Rightarrow> 'w \<Rightarrow> 'w Resolver" where
  "service_New http now cfg st opts w =
     resolver_New http now cfg (catalog_New (\<lambda>b. int (BucketPriority cfg b)) (BucketType cfg)) st opts w"

lemma res_step_steps: "res_step r r' \<Longrightarrow> steps UNIV r r'"
proof (induction rule: res_step.induct)
  case (run_world r w)
  then show ?case by (simp add: steps_def)
qed (blast intro: steps_ResolveRoute steps_ResolveMissingFile steps_Relocate steps_SyncRegistry steps_Bootstrap)+

lemma res_steps: "res_step\<^sup>*\<^sup>* r r' \<Longrightarrow> steps UNIV r r'"
  by (induction rule: rtranclp_induct) (auto dest: res_step_steps intro: steps_trans)

lemma service_reachable:
  assumes "res_step\<^sup>*\<^sup>* (service_New http now cfg st opts w) r"
  shows "cat_reachable UNIV (rCatalog r)" and "rCfg r = cfg" and "rStore r = st"
    and "priority (rCatalog r) = (\<lambda>b. int (BucketPriority cfg b))" and "bucketType (rCatalog r) = BucketType cfg"
proof -
  from res_steps [OF assms]
  have s: "(cat_step UNIV)\<^sup>*\<^sup>* (catalog_New (\<lambda>b. int (BucketPriority cfg b)) (BucketType cfg)) (rCatalog r)"
    and "rCfg r = cfg" and "rStore r = st"
    by (auto simp: steps_def service_New_def resolver_New_def)
  then show "rCfg r = cfg" "rStore r = st" by blast+
  show "cat_reachable UNIV (rCatalog r)" by (rule cat_steps_reachable [OF s reach_New])
  show "priority (rCatalog r) = (\<lambda>b. int (BucketPriority cfg b))" "bucketType (rCatalog r) = BucketType cfg"
    using cat_steps_priority [OF s] by (simp_all add: catalog_New_def)
qed

section \<open>Properties\<close>

text \<open>
  The service's routing table stays consistent in every run, whatever the store and the
  upstreams answer: every route the catalog answers for belongs to a registered entry with
  that route, and every registered entry carries the route and the visibility the configuration
  gives its bucket.
\<close>

theorem service_catalog_consistent:
  assumes "res_step\<^sup>*\<^sup>* (service_New http now cfg st opts w) r"
  shows "(\<forall>route e. LookupByRoute (rCatalog r) route = Some e \<longrightarrow> Lookup (rCatalog r) (eKey e) = Some e \<and> eRoute e = route) \<and>
         (\<forall>k e. Lookup (rCatalog r) k = Some e \<longrightarrow>
            eKey e = k \<and> eRoute e = ''/'' @ eBucket e @ ''/'' @ k \<and>
            eBucketType e = (if IsPublic cfg (eBucket e) then ''public'' else ''private''))"
proof -
  note inv = cat_reachable_inv [OF service_reachable(1) [OF assms]]
  from LookupByRoute_inv [OF inv] cat_invD(3) [OF inv] service_reachable(5) [OF assms]
  show ?thesis by (auto simp: Lookup_def entry_ok_def routeFor_def BucketType_def)
qed

text \<open>
  \<^verbatim>\<open>registerResolvedObject\<close> never lets a proxy cache or a virtual member take a key from a bucket that
  ranks higher: then it returns nothing and leaves the catalog as it was; otherwise it returns
  the entry of the asked bucket, and that is what the catalog now holds.
\<close>

theorem registerResolvedObject_no_hijack:
  "(case registerResolvedObject b k s l persist r of (res, r') \<Rightarrow>
      (case Lookup (rCatalog r) k of
         Some e \<Rightarrow> if priority (rCatalog r) (eBucket e) < priority (rCatalog r) b
                  then res = Inr None \<and> rCatalog r' = rCatalog r
                  else res = Inr (Some (entryOf (rCatalog r) k b s l)) \<and> Lookup (rCatalog r') k = Some (entryOf (rCatalog r) k b s l)
       | None \<Rightarrow> res = Inr (Some (entryOf (rCatalog r) k b s l)) \<and> Lookup (rCatalog r') k = Some (entryOf (rCatalog r) k b s l)))"
proof (cases "\<exists>e. Lookup (rCatalog r) k = Some e \<and> priority (rCatalog r) (eBucket e) < priority (rCatalog r) b")
  case True
  then obtain e where e: "Lookup (rCatalog r) k = Some e" "priority (rCatalog r) (eBucket e) < priority (rCatalog r) b"
    by blast
  then have "Register k b s l (rCatalog r) = rCatalog r" by (simp add: Register_def Lookup_def)
  moreover have "eBucket e \<noteq> b" using e(2) by auto
  ultimately show ?thesis using e by (simp add: registerResolvedObject_def Let_def)
next
  case False
  then have "Lookup (Register k b s l (rCatalog r)) k = Some (entryOf (rCatalog r) k b s l)"
    by (auto simp: cat.lookup_register not_less)
  with False show ?thesis
    by (auto simp: registerResolvedObject_def Let_def split: option.splits)
qed

definition demo_config :: Config where
  "demo_config =
     \<lparr>cAWSRegion = [], cS3Endpoint = [], cS3ExternalEndpoint = [], cAWSAccessKeyID = [], cAWSSecretAccessKey = [],
      cHost = [], cPort = 8080,
      cBuckets = [zeroBucket\<lparr>bName := ''pub'', bManifestKey := defaultManifestKey, bPublic := True, bKind := KindHosted\<rparr>,
                  zeroBucket\<lparr>bName := ''priv'', bManifestKey := defaultManifestKey, bKind := KindHosted\<rparr>,
                  zeroBucket\<lparr>bName := ''npm'', bManifestKey := defaultManifestKey, bKind := KindProxy, bUpstreamURL := ''http://up''\<rparr>,
                  zeroBucket\<lparr>bName := ''all'', bKind := KindVirtual, bMembers := [''npm'', ''priv'']\<rparr>],
      cAPIKeys = [], cRateLimitPerSecond = 0, cRateLimitBurst = 0, cSyncInterval = 0\<rparr>"

definition witness_service :: "fakeStore Resolver" where
  "witness_service =
     service_New \<lparr>NewRequest = (\<lambda>u. None), Do = (\<lambda>u w. (Inr \<lparr>hrStatus = 404, hrBody = [], hrBodyErr = None, hrContentType = []\<rparr>, w))\<rparr> (\<lambda>w. 0) demo_config fake_Store []
       [(''pub'', [(''a'', \<lparr>foContent = ''12'', foLastModified = ''2024-01-01T00:00:00Z''\<rparr>)]),
        (''priv'', [(''a'', \<lparr>foContent = ''1'', foLastModified = []\<rparr>), (''b'', \<lparr>foContent = ''123'', foLastModified = []\<rparr>)])]"

theorem service_catalog_consistent_witness:
  "Lookup (rCatalog (snd (Bootstrap witness_service))) ''b'' =
     Some \<lparr>eKey = ''b'', eBucket = ''priv'', eBucketType = ''private'', eRoute = ''/priv/b'', eSize = 3, eLastModified = []\<rparr> \<and>
   eBucketType \<lparr>eKey = ''b'', eBucket = ''priv'', eBucketType = ''private'', eRoute = ''/priv/b'', eSize = 3, eLastModified = []\<rparr> =
     (if IsPublic demo_config ''priv'' then ''public'' else ''private'')"
proof -
  have run: "res_step\<^sup>*\<^sup>* witness_service (snd (Bootstrap witness_service))"
    by (intro r_into_rtranclp run_Bootstrap) (rule prod.collapse [symmetric])
  have l: "Lookup (rCatalog (snd (Bootstrap witness_service))) ''b'' =
     Some \<lparr>eKey = ''b'', eBucket = ''priv'', eBucketType = ''private'', eRoute = ''/priv/b'', eSize = 3, eLastModified = []\<rparr>"
    by code_simp
  with service_catalog_consistent [OF run [unfolded witness_service_def], folded witness_service_def]
  show ?thesis by fastforce
qed

end
