(* ===== verification/Resolver_Storage.thy ===== *)
theory Resolver_Storage
  imports Resolver_Catalog
begin

text \<open>
  What the resolver's answers say about the buckets, on any store that keeps the contract
  \<open>object_store\<close>: which bucket a file is served from, that what is served is stored, what
  \<^verbatim>\<open>Relocate\<close> and \<^verbatim>\<open>SyncRegistry\<close> find, and that a restart restores the catalog. The facts are proved
  once inside the locale and hold of both stores of the repository.
\<close>

section \<open>Vocabulary\<close>

type_synonym 'w objects = "'w \<Rightarrow> string \<Rightarrow> string \<Rightarrow> (bytes \<times> string) option"

text \<open>The bucket has storage and stores the key; a store only gains objects.\<close>

definition holds :: "'w objects \<Rightarrow> 'w \<Rightarrow> string \<Rightarrow> Bucket \<Rightarrow> bool" where
  "holds obj w key b \<longleftrightarrow> HasStorage b \<and> obj w (bName b) key \<noteq> None"

definition grows :: "'w objects \<Rightarrow> 'w \<Rightarrow> 'w \<Rightarrow> bool" where
  "grows obj w w' \<longleftrightarrow> (\<forall>b k. obj w b k \<noteq> None \<longrightarrow> obj w' b k \<noteq> None)"

lemma grows_refl [simp, intro]: "grows obj w w"
  by (simp add: grows_def)

lemma grows_trans: "grows obj w w' \<Longrightarrow> grows obj w' w'' \<Longrightarrow> grows obj w w''"
  by (simp add: grows_def)

text \<open>The entry for a key stored in a bucket.\<close>

definition storedEntry :: "Catalog \<Rightarrow> 'w objects \<Rightarrow> 'w \<Rightarrow> string \<Rightarrow> Bucket \<Rightarrow> Entry" where
  "storedEntry c obj w key b =
     (case obj w (bName b) key of
        Some v \<Rightarrow> entryOf c key (bName b) (len64 (fst v)) (snd v)
      | None \<Rightarrow> zeroEntry)"

lemma obj_congs:
  assumes "obj w' = obj w"
  shows "holds obj w' = holds obj w" "grows obj w' = grows obj w" "storedEntry c obj w' = storedEntry c obj w"
  using assms by (simp_all add: fun_eq_iff holds_def grows_def storedEntry_def)

definition manifestPairs :: "Bucket list \<Rightarrow> (string \<times> string) list" where
  "manifestPairs bs = map (\<lambda>b. (bName b, bManifestKey b)) (filter HasStorage bs)"

text \<open>A fetcher that leaves the stored objects alone.\<close>

definition fetcher_frame :: "('w \<Rightarrow> bool) \<Rightarrow> 'w objects \<Rightarrow> 'w Fetcher \<Rightarrow> bool" where
  "fetcher_frame ok obj f \<longleftrightarrow>
     (\<forall>u k w. ok w \<longrightarrow> ok (snd (f u k w)) \<and> obj (snd (f u k w)) = obj w)"

context object_store
begin

lemma io_head:
  assumes "rStore r = st" and "inv (rWorld r)" and "io (sHeadObject (rStore r) b k) r = (x, r')"
  shows "inv (rWorld r')" and "obj (rWorld r') = obj (rWorld r)" and "r' = r\<lparr>rWorld := rWorld r'\<rparr>"
    and "x = Inr y \<Longrightarrow> y = map_option (object_of k) (obj (rWorld r) b k)"
    and "x = Inr (Some z) \<Longrightarrow> obj (rWorld r') b k \<noteq> None"
proof -
  from assms obtain w' where w: "sHeadObject st b k (rWorld r) = (x, w')" and r': "r' = r\<lparr>rWorld := w'\<rparr>"
    by (auto simp: io_eq)
  from head_frame [OF assms(2) w] r'
  show 1: "inv (rWorld r')" "obj (rWorld r') = obj (rWorld r)" "r' = r\<lparr>rWorld := rWorld r'\<rparr>" by simp_all
  show 2: "x = Inr y \<Longrightarrow> y = map_option (object_of k) (obj (rWorld r) b k)" for y
    using head_ok [OF assms(2)] w by simp
  show "x = Inr (Some z) \<Longrightarrow> obj (rWorld r') b k \<noteq> None"
    using 2 [of "Some z"] 1(2) by (cases "obj (rWorld r) b k") auto
qed

lemma io_put:
  assumes "rStore r = st" and "inv (rWorld r)" and "io (sPutObject (rStore r) b k c t) r = (x, r')"
  shows "inv (rWorld r')" and "grows obj (rWorld r) (rWorld r')" and "r' = r\<lparr>rWorld := rWorld r'\<rparr>"
    and "x = None \<Longrightarrow> \<exists>l. obj (rWorld r') b k = Some (c, l)"
    and "(b', k') \<noteq> (b, k) \<Longrightarrow> obj (rWorld r') b' k' = obj (rWorld r) b' k'"
proof -
  from assms obtain w' where w: "sPutObject st b k c t (rWorld r) = (x, w')" and r': "r' = r\<lparr>rWorld := w'\<rparr>"
    by (auto simp: io_eq)
  note f = put_frame [OF assms(2) w]
  from f r' show "inv (rWorld r')" "r' = r\<lparr>rWorld := rWorld r'\<rparr>" by simp_all
  from f r' show "(b', k') \<noteq> (b, k) \<Longrightarrow> obj (rWorld r') b' k' = obj (rWorld r) b' k'" by auto
  from put_mono [OF assms(2) w] r' show "grows obj (rWorld r) (rWorld r')" by (simp add: grows_def)
  from put_ok [OF assms(2)] w r' show "x = None \<Longrightarrow> \<exists>l. obj (rWorld r') b k = Some (c, l)" by simp
qed

lemma persistBuckets_obj:
  assumes "rStore r = st" and "inv (rWorld r)" and "persistBuckets bs errs r = (errs', r')"
  shows "inv (rWorld r') \<and> grows obj (rWorld r) (rWorld r') \<and>
         (\<forall>b k. (b, k) \<notin> set (manifestPairs bs) \<longrightarrow> obj (rWorld r') b k = obj (rWorld r) b k)"
  using assms
proof (induction bs arbitrary: errs r)
  case Nil
  then show ?case by simp
next
  case (Cons bucket bs)
  show ?case
  proof (cases "HasStorage bucket")
    case False
    with Cons show ?thesis by (simp add: manifestPairs_def)
  next
    case True
    obtain body where b: "marshalManifest (ManifestForBucket (rCatalog r) (bName bucket)) = Inr body"
      by (simp add: marshalManifest_def)
    obtain x r1 where i: "io (sPutObject (rStore r) (bName bucket) (bManifestKey bucket) body ''application/json'') r = (x, r1)"
      by (meson surj_pair)
    note p = io_put [OF Cons.prems(1,2) i]
    have s: "rStore r1 = st" by (subst p(3)) (simp add: Cons.prems(1))
    obtain errs1 where "persistBuckets bs errs1 r1 = (errs', r')"
      using Cons.prems(3) True b i by (auto split: option.splits)
    from Cons.IH [OF s p(1) this] p show ?thesis
      using grows_trans by (auto simp: manifestPairs_def True)
  qed
qed

lemma persist_obj:
  assumes "rStore r = st" and "inv (rWorld r)" and "PersistManifests r = (x, r')"
  shows "inv (rWorld r')" and "grows obj (rWorld r) (rWorld r')"
  using persistBuckets_obj [OF assms(1,2)] assms(3)
  by (auto simp: PersistManifests_def Let_def split: prod.splits)

lemma setAndPersist_obj:
  assumes "rStore r = st" and "inv (rWorld r)" and "setAndPersist key b ob r = (e, r')"
  shows "inv (rWorld r')" and "grows obj (rWorld r) (rWorld r')"
proof -
  let ?r = "onCatalog (SetEntry key b (oSize ob) (oLastModified ob)) r"
  have r': "r' = snd (PersistManifests ?r)" using assms(3) by (simp add: setAndPersist_eq)
  obtain x r'' where "PersistManifests ?r = (x, r'')" by (meson surj_pair)
  with persist_obj [of ?r x r''] assms(1,2) r' show "inv (rWorld r')" "grows obj (rWorld r) (rWorld r')" by simp_all
qed

text \<open>\<^verbatim>\<open>ResolveMissingFile\<close>: the first configured bucket that has the file, or none.\<close>

lemma searchBuckets_spec:
  assumes "rStore r = st" and "inv (rWorld r)" and "searchBuckets bs key r = (Inr res, r')"
  shows "inv (rWorld r') \<and> grows obj (rWorld r) (rWorld r') \<and>
     (case List.find (holds obj (rWorld r) key) bs of
        Some b \<Rightarrow> res = Some (storedEntry (rCatalog r) obj (rWorld r) key b) \<and>
                  rCatalog r' = SetEntry key (bName b) (eSize (storedEntry (rCatalog r) obj (rWorld r) key b))
                    (eLastModified (storedEntry (rCatalog r) obj (rWorld r) key b)) (rCatalog r)
      | None \<Rightarrow> res = None \<and> rCatalog r' = Remove key (rCatalog r))"
  using assms
proof (induction bs arbitrary: r)
  case Nil
  obtain x r1 where "PersistManifests (onCatalog (Remove key) r) = (x, r1)" by (meson surj_pair)
  with persist_obj [of "onCatalog (Remove key) r" x r1] Persist_fields(2) [of "onCatalog (Remove key) r"] Nil
  show ?case by auto
next
  case (Cons b bs)
  show ?case
  proof (cases "HasStorage b")
    case False
    with Cons show ?thesis by (simp add: holds_def)
  next
    case True
    obtain y r1 where i: "io (sHeadObject (rStore r) (bName b) key) r = (y, r1)" by (meson surj_pair)
    note h = io_head [OF Cons.prems(1,2) i]
    have s: "rStore r1 = st" "rCatalog r1 = rCatalog r" by (subst h(3), simp add: Cons.prems(1))+
    obtain z where y: "y = Inr z" using Cons.prems(3) True i by (cases y) auto
    have z: "z = map_option (object_of key) (obj (rWorld r) (bName b) key)" using h(4) [OF y] .
    show ?thesis
    proof (cases "obj (rWorld r) (bName b) key")
      case None
      with z have z': "z = None" by simp
      have "searchBuckets bs key r1 = (Inr res, r')" using Cons.prems(3) True i y z' by simp
      from Cons.IH [OF s(1) h(1) this, unfolded obj_congs [where obj = obj, OF h(2)] s(2)] show ?thesis
        using None by (simp add: holds_def)
    next
      case (Some v)
      with z have z': "z = Some (object_of key v)" by simp
      obtain e r2 where e: "setAndPersist key (bName b) (object_of key v) r1 = (e, r2)" by (meson surj_pair)
      have "res = Some e" "r' = r2" using Cons.prems(3) True i y z' e by simp_all
      with e setAndPersist_obj [OF s(1) h(1) e] Some True show ?thesis
        by (auto simp: setAndPersist_eq holds_def storedEntry_def object_of_def s grows_def h(2))
    qed
  qed
qed

text \<open>
  The answer of a resolving operation: if it is an entry, the catalog holds it, the store has its
  object, and it satisfies \<open>P\<close>.
\<close>

definition served :: "(Entry \<Rightarrow> bool) \<Rightarrow> (go_error + Entry option) \<times> 'w Resolver \<Rightarrow> bool" where
  "served P xr \<longleftrightarrow>
     (\<forall>e. fst xr = Inr (Some e) \<longrightarrow>
        P e \<and> Lookup (rCatalog (snd xr)) (eKey e) = Some e \<and> obj (rWorld (snd xr)) (eBucket e) (eKey e) \<noteq> None)"

lemma served_none [simp]: "served P (Inl x, r)" "served P (Inr None, r)"
  by (simp_all add: served_def)

lemma served_mono: "served P xr \<Longrightarrow> (\<And>e. P e \<Longrightarrow> Q e) \<Longrightarrow> served Q xr"
  by (simp add: served_def)

lemma setAndPersist_served:
  assumes "rStore r = st" and "inv (rWorld r)" and "setAndPersist key b ob r = (e, r')"
    and "obj (rWorld r) b key \<noteq> None"
  shows "served (\<lambda>e. eKey e = key \<and> eBucket e = b) (Inr (Some e), r')"
proof -
  from assms(3) have e: "e = entryOf (rCatalog r) key b (oSize ob) (oLastModified ob)"
    and c: "rCatalog r' = SetEntry key b (oSize ob) (oLastModified ob) (rCatalog r)"
    by (simp_all add: setAndPersist_eq)
  from setAndPersist_obj(2) [OF assms(1-3)] assms(4) show ?thesis
    by (simp add: served_def e c cat.lookup_set grows_def)
qed

lemma register_served:
  assumes "rStore r = st" and "inv (rWorld r)" and "cat_inv (rCatalog r)" and "obj (rWorld r) b key \<noteq> None"
  shows "served (\<lambda>e. eKey e = key \<and> eBucket e = b) (registerResolvedObject b key s l p r)"
proof -
  let ?r1 = "onCatalog (Register key b s l) r"
  define r2 where "r2 = (if p then snd (PersistManifests ?r1) else ?r1)"
  obtain x r3 where x: "PersistManifests ?r1 = (x, r3)" by (meson surj_pair)
  have "grows obj (rWorld r) (rWorld r2)"
    using persist_obj(2) [of ?r1 x r3] assms(1,2) x by (simp add: r2_def)
  then have o: "obj (rWorld r2) b key \<noteq> None" using assms(4) by (simp add: grows_def)
  have "rCatalog r2 = Register key b s l (rCatalog r)" by (simp add: r2_def)
  then have "eKey e = key" if "Lookup (rCatalog r2) key = Some e" for e
    using that cat_invD(3) [OF cat_inv_Register [OF assms(3)]] by (simp add: Lookup_def entry_ok_def)
  with o show ?thesis
    by (auto simp: registerResolvedObject_def Let_def served_def simp flip: r2_def split: option.splits if_splits)
qed

lemma searchBucketsByType_served:
  assumes "rStore r = st" and "inv (rWorld r)"
  shows "served (\<lambda>e. eKey e = key \<and> (\<exists>b \<in> set bs. bName b = eBucket e \<and> HasStorage b \<and> bPublic b = public))
           (searchBucketsByType bs key public r)"
  using assms
proof (induction bs arbitrary: r)
  case Nil
  then show ?case by simp
next
  case (Cons b bs)
  show ?case
  proof (cases "HasStorage b \<and> bPublic b = public")
    case False
    then have "searchBucketsByType (b # bs) key public r = searchBucketsByType bs key public r" by auto
    with Cons.IH [OF Cons.prems] show ?thesis by (auto elim: served_mono)
  next
    case True
    obtain y r1 where i: "io (sHeadObject (rStore r) (bName b) key) r = (y, r1)" by (meson surj_pair)
    note h = io_head [OF Cons.prems i]
    have s: "rStore r1 = st" by (subst h(3), simp add: Cons.prems(1))
    show ?thesis
    proof (cases "\<exists>v. y = Inr (Some v)")
      case False
      with True i Cons.IH [OF s h(1)] show ?thesis
        by (auto split: sum.splits option.splits elim: served_mono)
    next
      case yes: True
      then obtain v where y: "y = Inr (Some v)" by blast
      obtain e r2 where e: "setAndPersist key (bName b) v r1 = (e, r2)" by (meson surj_pair)
      have "searchBucketsByType (b # bs) key public r = (Inr (Some e), r2)" using True y i e by simp
      with served_mono [OF setAndPersist_served [OF s h(1) e h(5) [OF y]]] True show ?thesis by auto
    qed
  qed
qed

text \<open>The state a resolving operation starts from.\<close>

definition ready :: "'w Resolver \<Rightarrow> bool" where
  "ready r \<longleftrightarrow> rStore r = st \<and> inv (rWorld r) \<and> cat_inv (rCatalog r) \<and> fetcher_frame inv obj (rFetcher r)"

lemma ready_upd: "ready r \<Longrightarrow> inv w \<Longrightarrow> ready (r\<lparr>rWorld := w\<rparr>)"
  by (simp add: ready_def)

lemma ready_world:
  "ready r \<Longrightarrow> r' = r\<lparr>rWorld := rWorld r'\<rparr> \<Longrightarrow> inv (rWorld r') \<Longrightarrow> ready r'"
  by (metis ready_upd)

lemma ready_head:
  assumes "ready r" and "io (sHeadObject (rStore r) b k) r = (x, r')"
  shows "ready r'"
  using assms io_head(1,3) ready_world by (metis ready_def)

lemma proxyFetch_served:
  assumes "ready r"
  shows "served (\<lambda>e. eKey e = key \<and> eBucket e = bName b) (proxyFetch b key r)"
proof -
  obtain y r1 where i: "io (rFetcher r (bUpstreamURL b) key) r = (y, r1)" by (meson surj_pair)
  have r1: "ready r1"
  proof (rule ready_world [OF assms])
    show "r1 = r\<lparr>rWorld := rWorld r1\<rparr>" using i by (auto simp: io_eq)
    show "inv (rWorld r1)"
      using i assms by (auto simp: io_eq ready_def fetcher_frame_def) (metis snd_conv)
  qed
  show ?thesis
  proof (cases "\<exists>body ct. y = Inr (Some (body, ct))")
    case False
    with i show ?thesis by (auto simp: proxyFetch_def split: sum.splits option.splits)
  next
    case True
    then obtain body ct where y: "y = Inr (Some (body, ct))" by blast
    obtain z r2 where p: "io (sPutObject (rStore r1) (bName b) key body ct) r1 = (z, r2)" by (meson surj_pair)
    have s: "rStore r1 = st" "inv (rWorld r1)" using r1 by (simp_all add: ready_def)
    note q = io_put [OF s p]
    have r2: "ready r2" using ready_world [OF r1 q(3,1)] .
    have "obj (rWorld r2) (bName b) key \<noteq> None" if "z = None" using q(4) [OF that] by auto
    with register_served [of r2 "bName b" key] r2 y i p show ?thesis
      by (auto simp: proxyFetch_def ready_def split: option.splits)
  qed
qed

lemma resolveProxyRoute_served:
  assumes "ready r"
  shows "served (\<lambda>e. eKey e = key \<and> eBucket e = bName b) (resolveProxyRoute b key r)"
proof -
  obtain y r1 where i: "io (sHeadObject (rStore r) (bName b) key) r = (y, r1)" by (meson surj_pair)
  have r1: "ready r1" using ready_head [OF assms i] .
  have "obj (rWorld r1) (bName b) key \<noteq> None" if "y = Inr (Some ob)" for ob
    using io_head(5) [OF _ _ i that] assms by (simp add: ready_def)
  with register_served [of r1 "bName b" key] proxyFetch_served [OF r1, of key b] r1 i show ?thesis
    by (auto simp: resolveProxyRoute_def ready_def split: sum.splits option.splits)
qed

lemma resolveHosted_served:
  assumes "ready r"
  shows "served (\<lambda>e. eKey e = key \<and> eBucket e = bName b) (resolveHostedMemberRoute b key r)"
proof -
  obtain y r1 where i: "io (sHeadObject (rStore r) (bName b) key) r = (y, r1)" by (meson surj_pair)
  have r1: "ready r1" using ready_head [OF assms i] .
  have "obj (rWorld r1) (bName b) key \<noteq> None" if "y = Inr (Some ob)" for ob
    using io_head(5) [OF _ _ i that] assms by (simp add: ready_def)
  with register_served [of r1 "bName b" key] r1 i show ?thesis
    by (auto simp: resolveHostedMemberRoute_def ready_def split: sum.splits option.splits)
qed

text \<open>The operations keep the state ready.\<close>

lemma ready_persist: "ready r \<Longrightarrow> ready (snd (PersistManifests r))"
  using persist_obj(1) [of r "fst (PersistManifests r)" "snd (PersistManifests r)"] by (simp add: ready_def)

lemma ready_Register: "ready r \<Longrightarrow> ready (onCatalog (Register k b s l) r)"
  by (simp add: ready_def)

lemma ready_register:
  assumes "ready r" and "registerResolvedObject b k s l p r = (x, r')"
  shows "ready r'"
proof -
  have "r' = (if p then snd (PersistManifests (onCatalog (Register k b s l) r)) else onCatalog (Register k b s l) r)"
    using assms(2) by (simp add: registerResolvedObject_def Let_def)
  with ready_Register [OF assms(1)] ready_persist show ?thesis by simp
qed

lemma ready_fetch: "ready r \<Longrightarrow> io (rFetcher r u k) r = (x, r') \<Longrightarrow> ready r'"
  by (auto simp: io_eq ready_def fetcher_frame_def) (metis snd_conv)

lemma ready_put: "ready r \<Longrightarrow> io (sPutObject (rStore r) b k c t) r = (x, r') \<Longrightarrow> ready r'"
  using io_put(1,3) ready_world by (metis ready_def)

lemma ready_proxyFetch: "ready r \<Longrightarrow> proxyFetch b key r = (x, r') \<Longrightarrow> ready r'"
  unfolding proxyFetch_def
  by (auto split: prod.splits sum.splits option.splits; meson ready_fetch ready_put ready_register)

lemma ready_resolveProxyRoute: "ready r \<Longrightarrow> resolveProxyRoute b key r = (x, r') \<Longrightarrow> ready r'"
  unfolding resolveProxyRoute_def
  by (auto split: prod.splits sum.splits option.splits if_splits; meson ready_head ready_proxyFetch ready_register)

lemma ready_resolveHosted: "ready r \<Longrightarrow> resolveHostedMemberRoute b key r = (x, r') \<Longrightarrow> ready r'"
  unfolding resolveHostedMemberRoute_def
  by (auto split: prod.splits sum.splits option.splits; meson ready_head ready_register)

lemma resolveMembers_served:
  "ready r \<Longrightarrow> served (\<lambda>e. eKey e = key \<and> eBucket e \<in> set ms) (resolveMembers v ms key r)"
proof (induction v ms key r rule: resolveMembers.induct)
  case (1 v key r)
  then show ?case by simp
next
  case (2 v m ms key r)
  show ?case
  proof (cases "BucketByName (rCfg r) m")
    case None
    with 2 show ?thesis by (auto elim: served_mono)
  next
    case (Some b)
    then have m: "bName b = m" by (auto dest: BucketByName_Some)
    show ?thesis
    proof (cases "bKind b = KindVirtual")
      case True
      with Some 2 show ?thesis by (auto elim: served_mono)
    next
      case False
      obtain y r1 where y: "(if bKind b = KindProxy then resolveProxyRoute b key r
          else resolveHostedMemberRoute b key r) = (y, r1)" by (meson surj_pair)
      have r1: "ready r1"
        using y 2(4) by (auto intro: ready_resolveProxyRoute ready_resolveHosted split: if_splits)
      have s: "served (\<lambda>e. eKey e = key \<and> eBucket e = m) (y, r1)"
        using resolveProxyRoute_served [OF 2(4), of key b] resolveHosted_served [OF 2(4), of key b] y m
        by (auto split: if_splits)
      show ?thesis
      proof (cases "y = Inr None")
        case True
        with 2(3) [OF Some False y [symmetric] True _ r1] Some False y show ?thesis
          by (auto elim: served_mono)
      next
        case no: False
        with Some False y s show ?thesis
          by (cases y) (auto split: option.splits elim: served_mono)
      qed
    qed
  qed
qed

lemma resolveExact_served:
  assumes "ready r"
  shows "served (\<lambda>e. eRoute e = route) (resolveExact key route r)"
proof -
  obtain x r' where x: "searchBuckets (cBuckets (rCfg r)) key r = (x, r')" by (meson surj_pair)
  show ?thesis
  proof (cases "\<exists>e. x = Inr (Some e)")
    case False
    with x show ?thesis by (auto simp: resolveExact_def ResolveMissingFile_def split: sum.splits option.splits)
  next
    case True
    then obtain e where e: "x = Inr (Some e)" by blast
    have "rStore r = st" "inv (rWorld r)" using assms by (simp_all add: ready_def)
    note sp = searchBuckets_spec [OF this x [unfolded e]]
    then obtain b where b: "List.find (holds obj (rWorld r) key) (cBuckets (rCfg r)) = Some b"
      by (auto split: option.splits)
    then have "holds obj (rWorld r) key b" by (auto dest: find_Some_in)
    then obtain v where v: "obj (rWorld r) (bName b) key = Some v" by (auto simp: holds_def)
    with sp b have "Lookup (rCatalog r') (eKey e) = Some e" and "eKey e = key" and "eBucket e = bName b"
      and "grows obj (rWorld r) (rWorld r')"
      by (auto simp: storedEntry_def cat.lookup_set)
    with v have "obj (rWorld r') (eBucket e) (eKey e) \<noteq> None" by (simp add: grows_def)
    with \<open>Lookup (rCatalog r') (eKey e) = Some e\<close> show ?thesis
      by (auto simp: resolveExact_def ResolveMissingFile_def x e served_def)
  qed
qed

text \<open>The ways a request route may be answered by an entry.\<close>

lemma routeBuckets_served:
  assumes "ready r"
  shows "served (\<lambda>e. eRoute e = route \<or>
      (\<exists>v \<in> set bs. bKind v = KindVirtual \<and> route = routeFor (bName v) (eKey e) \<and> eBucket e \<in> set (bMembers v)))
      (routeBuckets bs route r)"
proof (induction bs)
  case Nil
  then show ?case by simp
next
  case (Cons b bs)
  show ?case
  proof (cases "HasPrefix route (''/'' @ bName b @ ''/'')")
    case False
    with Cons show ?thesis by (auto elim: served_mono)
  next
    case True
    define key where "key = TrimPrefix route (''/'' @ bName b @ ''/'')"
    from True obtain t where t: "route = (''/'' @ bName b @ ''/'') @ t" unfolding HasPrefix_iff by blast
    have "key = t" unfolding key_def t by (rule TrimPrefix_append)
    with t have route: "route = routeFor (bName b) key" by (simp add: routeFor_def)
    consider (proxy) "bKind b = KindProxy" | (virtual) "bKind b = KindVirtual" | (hosted) "bKind b \<noteq> KindProxy" "bKind b \<noteq> KindVirtual"
      by blast
    then show ?thesis
    proof cases
      case proxy
      obtain x r' where x: "resolveProxyRoute b key r = (x, r')" by (meson surj_pair)
      have "cat_inv (rCatalog r')" using ready_resolveProxyRoute [OF assms x] by (simp add: ready_def)
      then have "served (\<lambda>e. eRoute e = route) (x, r')"
        using resolveProxyRoute_served [OF assms, of key b] x
        by (auto simp: served_def route Lookup_def entry_ok_def dest: cat_invD(3))
      with True proxy x show ?thesis by (auto simp: key_def elim: served_mono)
    next
      case virtual
      then have "routeBuckets (b # bs) route r = resolveMembers (bName b) (bMembers b) key r"
        using True by (simp add: key_def resolveVirtualRoute_def KindProxy_def KindVirtual_def)
      with resolveMembers_served [OF assms, of key "bMembers b" "bName b"] virtual route show ?thesis
        by (auto elim: served_mono)
    next
      case hosted
      with True resolveExact_served [OF assms, of route key] show ?thesis
        by (auto simp: key_def elim: served_mono)
    qed
  qed
qed

lemma parseVirtualPrefix_cases:
  "parseVirtualPrefix route = Some (key, public) \<Longrightarrow>
     key \<noteq> [] \<and> route = (if public then ''/public/'' else ''/private/'') @ key"
  by (auto simp: parseVirtualPrefix_def CutPrefix_Some split: option.splits list.splits if_splits)

lemma ResolveRoute_served:
  assumes "ready r"
  shows "served (\<lambda>e. eRoute e = route \<or>
      (\<exists>public. parseVirtualPrefix route = Some (eKey e, public) \<and>
         (\<exists>b \<in> set (cBuckets (rCfg r)). bName b = eBucket e \<and> HasStorage b \<and> bPublic b = public)) \<or>
      (\<exists>v \<in> set (cBuckets (rCfg r)).
         bKind v = KindVirtual \<and> route = routeFor (bName v) (eKey e) \<and> eBucket e \<in> set (bMembers v)))
      (ResolveRoute route r)"
proof (cases "LookupByRoute (rCatalog r) route")
  case (Some e)
  obtain y r1 where i: "io (sHeadObject (rStore r) (eBucket e) (eKey e)) r = (y, r1)" by (meson surj_pair)
  have r1: "ready r1" "rCatalog r1 = rCatalog r"
    using ready_head [OF assms i] i by (auto simp: io_eq)
  have e: "Lookup (rCatalog r) (eKey e) = Some e" "eRoute e = route"
    using LookupByRoute_inv [OF _ Some] assms by (auto simp: ready_def)
  show ?thesis
  proof (cases "\<exists>ob. y = Inr (Some ob)")
    case True
    then have "obj (rWorld r1) (eBucket e) (eKey e) \<noteq> None"
      using io_head(5) [OF _ _ i] assms by (auto simp: ready_def)
    moreover have "ResolveRoute route r = (Inr (Some e), r1)"
      using True i by (auto simp: ResolveRoute_def Some Exists_def)
    ultimately show ?thesis using e r1(2) by (simp add: served_def)
  next
    case False
    then have "Exists (eBucket e) (eKey e) r = (False, r1)"
      using i by (auto simp: Exists_def split: sum.splits)
    with resolveExact_served [OF r1(1), of route "eKey e"] show ?thesis
      by (auto simp: ResolveRoute_def Some elim: served_mono)
  qed
next
  case None
  show ?thesis
  proof (cases "parseVirtualPrefix route")
    case (Some kp)
    then obtain key public where kp: "parseVirtualPrefix route = Some (key, public)" by (cases kp) auto
    have "rStore r = st" "inv (rWorld r)" using assms by (simp_all add: ready_def)
    from served_mono [OF searchBucketsByType_served [OF this, of key "cBuckets (rCfg r)" public]] kp None
    show ?thesis by (auto simp: ResolveRoute_def resolveMissingFileByType_def)
  next
    case no: None
    with None served_mono [OF routeBuckets_served [OF assms, of route "cBuckets (rCfg r)"]] show ?thesis
      by (auto simp: ResolveRoute_def)
  qed
qed

section \<open>Relocate\<close>

text \<open>The scan finds the first holder and counts the holders.\<close>

lemma relocateScan_spec:
  assumes "rStore r = st" and "inv (rWorld r)" and "relocateScan bs f t ob n r = (Inr (t', ob', n'), r')"
    and "\<forall>b \<in> set bs. bName b \<noteq> []"
  shows "inv (rWorld r') \<and> obj (rWorld r') = obj (rWorld r) \<and> n' = n + int (length (filter (holds obj (rWorld r) f) bs)) \<and>
     (if t \<noteq> [] then t' = t \<and> ob' = ob
      else (case List.find (holds obj (rWorld r) f) bs of
              Some b \<Rightarrow> t' = bName b \<and> ob' = map_option (object_of f) (obj (rWorld r) (bName b) f)
            | None \<Rightarrow> t' = [] \<and> ob' = ob))"
  using assms
proof (induction bs arbitrary: t ob n r)
  case Nil
  then show ?case by simp
next
  case (Cons b bs)
  show ?case
  proof (cases "HasStorage b")
    case False
    with Cons show ?thesis by (simp add: holds_def)
  next
    case True
    obtain y r1 where i: "io (sHeadObject (rStore r) (bName b) f) r = (y, r1)" by (meson surj_pair)
    note h = io_head [OF Cons.prems(1,2) i]
    have s: "rStore r1 = st" by (subst h(3), simp add: Cons.prems(1))
    obtain z where y: "y = Inr z" using Cons.prems(3) True i by (cases y) auto
    have z: "z = map_option (object_of f) (obj (rWorld r) (bName b) f)" using h(4) [OF y] .
    show ?thesis
    proof (cases "obj (rWorld r) (bName b) f")
      case None
      then have "relocateScan bs f t ob n r1 = (Inr (t', ob', n'), r')"
        using Cons.prems(3) True i y z by simp
      from Cons.IH [OF s h(1) this, unfolded obj_congs [where obj = obj, OF h(2)] h(2)] None Cons.prems(4) show ?thesis
        by (simp add: holds_def)
    next
      case (Some v)
      then have "relocateScan bs f (if t = [] then bName b else t) (if t = [] then z else ob) (n + 1) r1 = (Inr (t', ob', n'), r')"
        using Cons.prems(3) True i y z by (simp split: if_splits)
      from Cons.IH [OF s h(1) this, unfolded obj_congs [where obj = obj, OF h(2)] h(2)] Some z True Cons.prems(4) show ?thesis
        by (auto simp: holds_def)
    qed
  qed
qed

lemma relocateScan_error: "relocateScan bs f t ob n r = (Inl e, r') \<Longrightarrow> e \<noteq> ErrFileNotFound"
  by (induction bs arbitrary: t ob n r)
     (auto simp: ErrFileNotFound_def split: if_splits prod.splits sum.splits option.splits)

text \<open>Relocation once the scan has found the file: the answer, or an error of the persistence.\<close>

lemma Relocate_found:
  assumes "relocateScan (cBuckets (rCfg r)) f [] None 0 r = (Inr (t, Some (object_of f w), n), r1)" and "n \<noteq> 0"
    and "rCatalog r1 = rCatalog r" and "Relocate f r = (x, r')"
  shows "case x of
     Inr res \<Rightarrow> rrEntry res = entryOf (rCatalog r) f t (len64 (fst w)) (snd w) \<and> Lookup (rCatalog r') f = Some (rrEntry res) \<and>
       rrDuplicate res = (n > 1) \<and>
       (rrRelocatedFrom res, rrRelocatedTo res) =
         (case Lookup (rCatalog r) f of Some p \<Rightarrow> if eBucket p = t then ([], []) else (eBucket p, t) | None \<Rightarrow> ([], []))
   | Inl e \<Rightarrow> e \<noteq> ErrFileNotFound"
proof -
  obtain p r3 where p: "PersistManifests (onCatalog (SetEntry f t (len64 (fst w)) (snd w)) r1) = (p, r3)" by (meson surj_pair)
  have c3: "rCatalog r3 = SetEntry f t (len64 (fst w)) (snd w) (rCatalog r)"
    using Persist_fields' [OF p] by (simp add: assms(3))
  show ?thesis
  proof (cases p)
    case (Some err)
    with assms p show ?thesis by (auto simp: Relocate_def Let_def object_of_def ErrFileNotFound_def)
  next
    case None
    with assms p c3 show ?thesis
      by (cases "Lookup (rCatalog r) f") (auto simp: Relocate_def Let_def object_of_def cat.lookup_set)
  qed
qed

lemma Relocate_spec:
  assumes "rStore r = st" and "inv (rWorld r)" and "\<forall>b \<in> set (cBuckets (rCfg r)). bName b \<noteq> []"
    and "Relocate f r = (x, r')"
  shows "case x of
     Inr res \<Rightarrow>
       (\<exists>b. List.find (holds obj (rWorld r) f) (cBuckets (rCfg r)) = Some b \<and>
            rrEntry res = storedEntry (rCatalog r) obj (rWorld r) f b \<and>
            Lookup (rCatalog r') f = Some (rrEntry res) \<and>
            rrDuplicate res = (2 \<le> length (filter (holds obj (rWorld r) f) (cBuckets (rCfg r)))) \<and>
            (rrRelocatedFrom res, rrRelocatedTo res) =
              (case Lookup (rCatalog r) f of
                 Some p \<Rightarrow> if eBucket p = bName b then ([], []) else (eBucket p, bName b)
               | None \<Rightarrow> ([], [])))
   | Inl e \<Rightarrow>
       e = ErrFileNotFound \<longrightarrow>
         (\<forall>b \<in> set (cBuckets (rCfg r)). \<not> holds obj (rWorld r) f b) \<and> Lookup (rCatalog r') f = None"
proof -
  obtain y r1 where y: "relocateScan (cBuckets (rCfg r)) f [] None 0 r = (y, r1)" by (meson surj_pair)
  show ?thesis
  proof (cases y)
    case (Inl e)
    with assms(4) y relocateScan_error [OF y [unfolded Inl]] show ?thesis by (auto simp: Relocate_def)
  next
    case (Inr v)
    obtain t ob n where v: "v = (t, ob, n)" by (cases v)
    have c: "rCatalog r1 = rCatalog r" using steps_relocateScan [OF y] by blast
    note sp = relocateScan_spec [OF assms(1,2) y [unfolded Inr v] assms(3)]
    show ?thesis
    proof (cases "List.find (holds obj (rWorld r) f) (cBuckets (rCfg r))")
      case None
      then have no: "\<forall>b \<in> set (cBuckets (rCfg r)). \<not> holds obj (rWorld r) f b" by (simp add: find_None_notin)
      with sp have "n = 0" by (simp add: filter_empty_conv)
      with assms(4) y Inr v no c show ?thesis by (auto simp: Relocate_def cat.lookup_remove)
    next
      case (Some b)
      then have b: "b \<in> set (cBuckets (rCfg r))" "holds obj (rWorld r) f b" by (auto dest: find_Some_in)
      then have "filter (holds obj (rWorld r) f) (cBuckets (rCfg r)) \<noteq> []" by (auto simp: filter_empty_conv)
      with sp have n: "n \<noteq> 0" "n > 1 \<longleftrightarrow> 2 \<le> length (filter (holds obj (rWorld r) f) (cBuckets (rCfg r)))" by auto
      from b obtain w where w: "obj (rWorld r) (bName b) f = Some w" by (auto simp: holds_def)
      with sp Some have t: "t = bName b" "ob = Some (object_of f w)" by auto
      have "storedEntry (rCatalog r) obj (rWorld r) f b = entryOf (rCatalog r) f (bName b) (len64 (fst w)) (snd w)"
        by (simp add: storedEntry_def w)
      with Relocate_found [OF y [unfolded Inr v t] n(1) c assms(4)] Some n(2) show ?thesis by (simp split: sum.splits)
    qed
  qed
qed

section \<open>SyncRegistry\<close>

end

text \<open>A file that \<^verbatim>\<open>SyncRegistry\<close> counts in a bucket: any stored object but the bucket's manifest.\<close>

definition listedIn :: "'w objects \<Rightarrow> 'w \<Rightarrow> string \<Rightarrow> Bucket \<Rightarrow> bool" where
  "listedIn obj w key b \<longleftrightarrow> holds obj w key b \<and> key \<noteq> bManifestKey b"

lemma mapTrue_set [simp]: "mapTrue (gm_set k True m) k' \<longleftrightarrow> k' = k \<or> mapTrue m k'"
  by (simp add: mapTrue_def)

lemma mapTrue_Nil [simp]: "\<not> mapTrue [] k"
  by (simp add: mapTrue_def)

lemma ex_length_filter: "(\<exists>x \<in> set xs. P x) \<longleftrightarrow> 1 \<le> length (filter P xs)"
  by (induction xs) auto

text \<open>How a registration changes one key depends on that key's entry only.\<close>

lemma Register_lookup_cong:
  "Lookup c k = Lookup c' k \<Longrightarrow> priority c = priority c' \<Longrightarrow> bucketType c = bucketType c' \<Longrightarrow>
   Lookup (Register k b s l c) k = Lookup (Register k b s l c') k"
  unfolding cat.lookup_register entryOf_def by auto

lemma syncObjects_flags:
  assumes "syncObjects b os seen dups c = (seen', dups', c')" and "distinct (map oKey os)"
  shows "(\<forall>k. mapTrue seen' k \<longleftrightarrow> mapTrue seen k \<or> (\<exists>ob \<in> set os. oKey ob = k \<and> k \<noteq> bManifestKey b)) \<and>
         (\<forall>k. mapTrue dups' k \<longleftrightarrow> mapTrue dups k \<or> mapTrue seen k \<and> (\<exists>ob \<in> set os. oKey ob = k \<and> k \<noteq> bManifestKey b)) \<and>
         priority c' = priority c \<and> bucketType c' = bucketType c"
  using assms
proof (induction b os seen dups c rule: syncObjects.induct)
  case (2 b x xs seen dups c)
  have x: "oKey x \<notin> oKey ` set xs" "distinct (map oKey xs)" using 2(5) by auto
  consider "oKey x = bManifestKey b" | "oKey x \<noteq> bManifestKey b" "mapTrue seen (oKey x)" | "oKey x \<noteq> bManifestKey b" "\<not> mapTrue seen (oKey x)"
    by blast
  then show ?case
  proof cases
    case 3
    with 2(3) [OF 3] 2(4) x(2) have
      "\<forall>k. mapTrue seen' k \<longleftrightarrow> k = oKey x \<or> mapTrue seen k \<or> (\<exists>ob \<in> set xs. oKey ob = k \<and> k \<noteq> bManifestKey b)"
      "\<forall>k. mapTrue dups' k \<longleftrightarrow> mapTrue dups k \<or> (k = oKey x \<or> mapTrue seen k) \<and> (\<exists>ob \<in> set xs. oKey ob = k \<and> k \<noteq> bManifestKey b)"
      "priority c' = priority c" "bucketType c' = bucketType c"
      by simp_all
    with 3 x(1) show ?thesis by (auto simp: image_iff)
  qed (use 2 in auto)
qed simp

text \<open>A key that the rest of a listing does not have keeps what it has; the others are registered where they were.\<close>

lemma syncObjects_lookup:
  assumes "syncObjects b os seen dups c = (seen', dups', c')" and "distinct (map oKey os)"
  shows "(\<forall>k. (mapTrue seen k \<or> (\<forall>ob \<in> set os. oKey ob \<noteq> k) \<or> k = bManifestKey b) \<longrightarrow> Lookup c' k = Lookup c k) \<and>
         (\<forall>ob \<in> set os. \<not> mapTrue seen (oKey ob) \<longrightarrow> oKey ob \<noteq> bManifestKey b \<longrightarrow>
            Lookup c' (oKey ob) = Lookup (Register (oKey ob) (bName b) (oSize ob) (oLastModified ob) c) (oKey ob))"
  using assms
proof (induction b os seen dups c rule: syncObjects.induct)
  case (2 b x xs seen dups c)
  have x: "oKey ob \<noteq> oKey x" if "ob \<in> set xs" for ob using 2(5) that by (auto simp: image_iff)
  consider "oKey x = bManifestKey b" | "oKey x \<noteq> bManifestKey b" "mapTrue seen (oKey x)" | "oKey x \<noteq> bManifestKey b" "\<not> mapTrue seen (oKey x)"
    by blast
  then show ?case
  proof cases
    case 3
    define c1 where "c1 = Register (oKey x) (bName b) (oSize x) (oLastModified x) c"
    have c1: "priority c1 = priority c" "bucketType c1 = bucketType c" "k \<noteq> oKey x \<Longrightarrow> Lookup c1 k = Lookup c k" for k
      by (auto simp: c1_def cat.lookup_register)
    have "syncObjects b xs (gm_set (oKey x) True seen) dups c1 = (seen', dups', c')" "distinct (map oKey xs)"
      using 2(4,5) 3 by (simp_all add: c1_def)
    from 2(3) [OF 3, folded c1_def, OF this]
    have i4: "k = oKey x \<or> mapTrue seen k \<or> (\<forall>ob \<in> set xs. oKey ob \<noteq> k) \<or> k = bManifestKey b \<Longrightarrow> Lookup c' k = Lookup c1 k"
      and i5: "ob \<in> set xs \<Longrightarrow> \<not> mapTrue seen (oKey ob) \<Longrightarrow> oKey ob \<noteq> bManifestKey b \<Longrightarrow>
          Lookup c' (oKey ob) = Lookup (Register (oKey ob) (bName b) (oSize ob) (oLastModified ob) c1) (oKey ob)" for k ob
      unfolding mapTrue_set using x by blast+
    have "Lookup (Register (oKey ob) (bName b) (oSize ob) (oLastModified ob) c1) (oKey ob) =
        Lookup (Register (oKey ob) (bName b) (oSize ob) (oLastModified ob) c) (oKey ob)" if "ob \<in> set xs" for ob
      by (rule Register_lookup_cong) (use c1 x [OF that] in auto)
    with i5 i4 [of "oKey x"] have "\<forall>ob \<in> set (x # xs). \<not> mapTrue seen (oKey ob) \<longrightarrow> oKey ob \<noteq> bManifestKey b \<longrightarrow>
        Lookup c' (oKey ob) = Lookup (Register (oKey ob) (bName b) (oSize ob) (oLastModified ob) c) (oKey ob)"
      by (simp add: c1_def)
    moreover have "Lookup c' k = Lookup c k" if "mapTrue seen k \<or> (\<forall>ob \<in> set (x # xs). oKey ob \<noteq> k) \<or> k = bManifestKey b" for k
    proof -
      from that 3 have "k \<noteq> oKey x" by auto
      with i4 [of k] c1(3) [of k] that show ?thesis by auto
    qed
    ultimately show ?thesis by blast
  qed (use 2 in auto)
qed simp

context object_store
begin

lemma listedIn_listing:
  assumes "inv w" and "sListObjects st (bName b) w = (Inr os, w')" and "HasStorage b"
  shows "(\<exists>ob \<in> set os. oKey ob = k \<and> k \<noteq> bManifestKey b) \<longleftrightarrow> listedIn obj w k b"
    and "obj w (bName b) k = Some v \<Longrightarrow> object_of k v \<in> set os"
proof -
  note l = list_ok [OF assms(1,2)]
  have m: "x \<in> set os \<longleftrightarrow> (\<exists>v. obj w (bName b) (oKey x) = Some v \<and> x = object_of (oKey x) v)" for x
    using l by blast
  show i: "obj w (bName b) k = Some v \<Longrightarrow> object_of k v \<in> set os" for v
    using m [of "object_of k v"] by (simp add: object_of_def)
  show "(\<exists>ob \<in> set os. oKey ob = k \<and> k \<noteq> bManifestKey b) \<longleftrightarrow> listedIn obj w k b"
  proof
    assume "\<exists>ob \<in> set os. oKey ob = k \<and> k \<noteq> bManifestKey b"
    with m assms(3) show "listedIn obj w k b" by (auto simp: listedIn_def holds_def)
  next
    assume "listedIn obj w k b"
    then obtain v where "obj w (bName b) k = Some v" "k \<noteq> bManifestKey b" by (auto simp: listedIn_def holds_def)
    with i show "\<exists>ob \<in> set os. oKey ob = k \<and> k \<noteq> bManifestKey b"
      by (intro bexI [of _ "object_of k v"]) (auto simp: object_of_def)
  qed
qed

text \<open>The registration a sync amounts to for one key.\<close>

definition syncLookup :: "Bucket list \<Rightarrow> 'w \<Rightarrow> Catalog \<Rightarrow> string \<Rightarrow> Entry option" where
  "syncLookup bs w c k =
     (case List.find (listedIn obj w k) bs of
        None \<Rightarrow> Lookup c k
      | Some b \<Rightarrow> Lookup (Register k (bName b) (eSize (storedEntry c obj w k b)) (eLastModified (storedEntry c obj w k b)) c) k)"

lemma syncLookup_cong:
  assumes "Lookup c k = Lookup c' k" and "priority c = priority c'" and "bucketType c = bucketType c'"
  shows "syncLookup bs w c k = syncLookup bs w c' k"
proof -
  have "storedEntry c obj w k b = storedEntry c' obj w k b" for b
    using assms(3) by (simp add: storedEntry_def entryOf_def split: option.split)
  then show ?thesis
    using assms Register_lookup_cong [OF assms] by (simp add: syncLookup_def split: option.split)
qed

text \<open>One listing: what it adds to the flags, and the registration it amounts to.\<close>

lemma syncObjects_listing:
  assumes "inv w" and "sListObjects st (bName b) w = (Inr os, w1)" and "HasStorage b"
    and "syncObjects b os seen dups c = (seen1, dups1, c1)"
  shows "mapTrue seen1 k \<longleftrightarrow> mapTrue seen k \<or> listedIn obj w k b"
    and "mapTrue dups1 k \<longleftrightarrow> mapTrue dups k \<or> mapTrue seen k \<and> listedIn obj w k b"
    and "Lookup c1 k = (if mapTrue seen k then Lookup c k else syncLookup [b] w c k)"
    and "priority c1 = priority c" and "bucketType c1 = bucketType c"
proof -
  have d: "distinct (map oKey os)" using list_ok [OF assms(1,2)] by blast
  note l = listedIn_listing [OF assms(1,2,3)]
  note so = syncObjects_flags [OF assms(4) d, unfolded l(1)] syncObjects_lookup [OF assms(4) d]
  show "mapTrue seen1 k \<longleftrightarrow> mapTrue seen k \<or> listedIn obj w k b"
    "mapTrue dups1 k \<longleftrightarrow> mapTrue dups k \<or> mapTrue seen k \<and> listedIn obj w k b"
    "priority c1 = priority c" "bucketType c1 = bucketType c"
    using so(1) by auto
  show "Lookup c1 k = (if mapTrue seen k then Lookup c k else syncLookup [b] w c k)"
  proof (cases "listedIn obj w k b")
    case True
    then obtain v where v: "obj w (bName b) k = Some v" "k \<noteq> bManifestKey b" by (auto simp: listedIn_def holds_def)
    have "object_of k v \<in> set os" by (rule l(2) [OF v(1)])
    with so(2) v True show ?thesis by (auto simp: syncLookup_def storedEntry_def object_of_def dest!: bspec)
  next
    case False
    then have "(\<forall>ob \<in> set os. oKey ob \<noteq> k) \<or> k = bManifestKey b" using l(1) [of k] by blast
    with so(2) False show ?thesis by (auto simp: syncLookup_def)
  qed
qed

lemma syncLookup_Cons:
  "syncLookup (b # bs) w c k = (if listedIn obj w k b then syncLookup [b] w c k else syncLookup bs w c k)"
  by (simp add: syncLookup_def)

lemma syncBuckets_spec:
  assumes "rStore r = st" and "inv (rWorld r)" and "syncBuckets bs seen dups r = (Inr dups', r')"
  shows "inv (rWorld r') \<and> obj (rWorld r') = obj (rWorld r) \<and>
     (\<forall>k. mapTrue dups' k \<longleftrightarrow>
        mapTrue dups k \<or> mapTrue seen k \<and> (\<exists>b \<in> set bs. listedIn obj (rWorld r) k b) \<or>
        2 \<le> length (filter (listedIn obj (rWorld r) k) bs)) \<and>
     (\<forall>k. Lookup (rCatalog r') k =
        (if mapTrue seen k then Lookup (rCatalog r) k else syncLookup bs (rWorld r) (rCatalog r) k))"
  using assms
proof (induction bs arbitrary: seen dups r)
  case Nil
  then show ?case by (simp add: syncLookup_def)
next
  case (Cons b bs)
  show ?case
  proof (cases "HasStorage b")
    case False
    then have "\<not> listedIn obj (rWorld r) k b" for k by (simp add: listedIn_def holds_def)
    with Cons False show ?thesis by (simp add: syncLookup_Cons)
  next
    case True
    obtain y r1 where i: "io (sListObjects (rStore r) (bName b)) r = (y, r1)" by (meson surj_pair)
    obtain os where y: "y = Inr os" using Cons.prems(3) True i by (cases y) auto
    obtain w1 where w1: "sListObjects st (bName b) (rWorld r) = (Inr os, w1)" and r1: "r1 = r\<lparr>rWorld := w1\<rparr>"
      using i y Cons.prems(1) by (auto simp: io_eq)
    have f: "obj w1 = obj (rWorld r)" "inv w1" using list_frame [OF Cons.prems(2) w1] by auto
    have L1: "listedIn obj w1 = listedIn obj (rWorld r)"
      by (simp add: fun_eq_iff listedIn_def obj_congs [where obj = obj, OF f(1)])
    have L2: "syncLookup bs w1 = syncLookup bs (rWorld r)"
      unfolding fun_eq_iff syncLookup_def L1 obj_congs [where obj = obj, OF f(1)] by simp
    obtain seen1 dups1 c1 where o: "syncObjects b os seen dups (rCatalog r) = (seen1, dups1, c1)" by (metis prod_cases3)
    note so = syncObjects_listing [OF Cons.prems(2) w1 True o]
    have "syncBuckets bs seen1 dups1 (r1\<lparr>rCatalog := c1\<rparr>) = (Inr dups', r')"
      using Cons.prems(3) True i y o r1 by simp
    with Cons.IH [of "r1\<lparr>rCatalog := c1\<rparr>" seen1 dups1] Cons.prems(1) f
    have ih: "inv (rWorld r')" "obj (rWorld r') = obj (rWorld r)"
      "mapTrue dups' k \<longleftrightarrow> mapTrue dups1 k \<or> mapTrue seen1 k \<and> (\<exists>b \<in> set bs. listedIn obj (rWorld r) k b) \<or>
         2 \<le> length (filter (listedIn obj (rWorld r) k) bs)"
      "Lookup (rCatalog r') k = (if mapTrue seen1 k then Lookup c1 k else syncLookup bs (rWorld r) c1 k)" for k
      by (simp_all add: r1 L1 L2)
    have "mapTrue dups' k \<longleftrightarrow> mapTrue dups k \<or> mapTrue seen k \<and> (\<exists>b \<in> set (b # bs). listedIn obj (rWorld r) k b) \<or>
        2 \<le> length (filter (listedIn obj (rWorld r) k) (b # bs))" for k
      unfolding ih(3) so(1,2) by (cases "listedIn obj (rWorld r) k b") (auto simp: ex_length_filter)
    moreover have "Lookup (rCatalog r') k =
        (if mapTrue seen k then Lookup (rCatalog r) k else syncLookup (b # bs) (rWorld r) (rCatalog r) k)" for k
      unfolding ih(4) so(1) syncLookup_Cons [of b bs] using so(3) [of k] syncLookup_cong [OF _ so(4,5), of k bs "rWorld r"]
      by (auto simp: syncLookup_def)
    ultimately show ?thesis using ih(1,2) by simp
  qed
qed

end

end
