(* ===== verification/Resolver_Properties.thy ===== *)
theory Resolver_Properties
  imports Resolver_Storage
begin

text \<open>
  The properties of the resolver (\<^verbatim>\<open>internal/resolver/resolver.go\<close>) on stores that keep their contract,
  stated over the model's own operations, and the two facts behind the last of them: how
  \<^verbatim>\<open>SyncRegistry\<close> counts duplicates and that persisted manifests are fetched back.
\<close>

section \<open>Counting duplicates\<close>

definition trueMap :: "(string, bool) gomap \<Rightarrow> bool" where
  "trueMap m \<longleftrightarrow> gm_ok m \<and> (\<forall>kv \<in> set m. snd kv)"

lemma trueMap_set: "trueMap m \<Longrightarrow> trueMap (gm_set k True m)"
proof -
  have "set (gm_set k True m) \<subseteq> insert (k, True) (set m)"
    by (induction m) (auto split: if_splits)
  then show "trueMap m \<Longrightarrow> trueMap (gm_set k True m)" by (auto simp: trueMap_def)
qed

lemma trueMap_card:
  assumes "trueMap m" shows "length m = card {k. mapTrue m k}"
proof -
  have "{k. mapTrue m k} = set (map fst m)"
    using assms by (force simp: mapTrue_def trueMap_def gm_get_in_set)
  also have "card \<dots> = length m"
    using assms by (metis distinct_card gm_ok_def length_map trueMap_def)
  finally show ?thesis by simp
qed

lemma syncObjects_trueMap: "syncObjects b os seen dups c = (seen', dups', c') \<Longrightarrow> trueMap dups \<Longrightarrow> trueMap dups'"
  by (induction b os seen dups c rule: syncObjects.induct) (auto split: if_splits simp: trueMap_set)

lemma syncBuckets_trueMap: "syncBuckets bs seen dups r = (Inr dups', r') \<Longrightarrow> trueMap dups \<Longrightarrow> trueMap dups'"
  by (induction bs seen dups r rule: syncBuckets.induct)
     (auto split: if_splits sum.splits prod.splits dest: syncObjects_trueMap)

lemma persistBuckets_errs: "persistBuckets bs es r = (es', r') \<Longrightarrow> \<exists>more. es' = es @ more"
  by (induction bs arbitrary: es r)
     (fastforce split: if_splits sum.splits prod.splits option.splits)+

context object_store
begin

lemma SyncRegistry_spec:
  assumes "rStore r = st" and "inv (rWorld r)" and "SyncRegistry r = (None, r')"
  shows "rDuplicateCount r' = int (card {k. 2 \<le> length (filter (listedIn obj (rWorld r) k) (cBuckets (rCfg r)))}) \<and>
         (\<forall>k. Lookup (rCatalog r') k = syncLookup (cBuckets (rCfg r)) (rWorld r) (rCatalog r) k)"
proof -
  obtain dups r1 where d: "syncBuckets (cBuckets (rCfg r)) [] [] r = (Inr dups, r1)"
    and r': "r' = snd (PersistManifests (setDuplicateCount (int (length dups)) r1))"
    using assms(3) by (auto simp: SyncRegistry_def split: prod.splits sum.splits)
  have "trueMap dups" using syncBuckets_trueMap [OF d] by (simp add: trueMap_def)
  from trueMap_card [OF this] syncBuckets_spec [OF assms(1,2) d] r' show ?thesis by simp
qed

text \<open>A persisted manifest is what a later read of it gives.\<close>

lemma persistBuckets_manifests:
  assumes "rStore r = st" and "inv (rWorld r)" and "persistBuckets bs [] r = ([], r')"
    and "distinct (manifestPairs bs)" and "b \<in> set bs" and "HasStorage b"
  shows "\<exists>body l. marshalManifest (ManifestForBucket (rCatalog r) (bName b)) = Inr body \<and>
                  obj (rWorld r') (bName b) (bManifestKey b) = Some (body, l)"
  using assms
proof (induction bs arbitrary: r)
  case Nil
  then show ?case by simp
next
  case (Cons x bs)
  have errs: "persistBuckets bs es r = ([], r') \<Longrightarrow> es = []" for es bs and r r' :: "'w Resolver"
    using persistBuckets_errs [of bs es r "[]" r'] by simp
  show ?case
  proof (cases "HasStorage x")
    case False
    with Cons show ?thesis by (auto simp: manifestPairs_def)
  next
    case True
    obtain body where body: "marshalManifest (ManifestForBucket (rCatalog r) (bName x)) = Inr body"
      by (simp add: marshalManifest_def)
    obtain e r1 where i: "io (sPutObject (rStore r) (bName x) (bManifestKey x) body ''application/json'') r = (e, r1)"
      by (meson surj_pair)
    have e: "e = None" and p: "persistBuckets bs [] r1 = ([], r')"
      using Cons.prems(3) True body i errs by (auto split: option.splits)
    note q = io_put [OF Cons.prems(1,2) i]
    have s: "rStore r1 = st" "rCatalog r1 = rCatalog r" by (subst q(3), simp add: Cons.prems(1))+
    show ?thesis
    proof (cases "b = x")
      case False
      with Cons.IH [OF s(1) q(1) p] Cons.prems(4-6) s(2) True show ?thesis by (simp add: manifestPairs_def)
    next
      case b: True
      have "(bName x, bManifestKey x) \<notin> set (manifestPairs bs)"
        using Cons.prems(4) True by (simp add: manifestPairs_def)
      with persistBuckets_obj [OF s(1) q(1) p] q(4) [OF e] body b show ?thesis by auto
    qed
  qed
qed

lemma fetchManifests_spec:
  assumes "rStore r = st" and "inv (rWorld r)" and "fetchManifests bs ms r = (Inr ms', r')"
  shows "obj (rWorld r') = obj (rWorld r) \<and> inv (rWorld r') \<and>
     ms' = ms @ map (\<lambda>b. \<lparr>bmBucket = bName b, bmContent =
             (case obj (rWorld r) (bName b) (bManifestKey b) of Some v \<Rightarrow> fst v | None \<Rightarrow> [])\<rparr>) (filter HasStorage bs)"
  using assms
proof (induction bs arbitrary: ms r)
  case Nil
  then show ?case by simp
next
  case (Cons b bs)
  show ?case
  proof (cases "HasStorage b")
    case False
    with Cons show ?thesis by simp
  next
    case True
    obtain y r1 where i: "io (sGetObject (rStore r) (bName b) (bManifestKey b)) r = (y, r1)" by (meson surj_pair)
    obtain c where y: "y = Inr c" using Cons.prems(3) True i by (cases y) auto
    obtain w1 where w1: "sGetObject st (bName b) (bManifestKey b) (rWorld r) = (Inr c, w1)" and r1: "r1 = r\<lparr>rWorld := w1\<rparr>"
      using i y Cons.prems(1) by (auto simp: io_eq)
    have f: "obj w1 = obj (rWorld r)" "inv w1" using get_frame [OF Cons.prems(2) w1] by auto
    have "fetchManifests bs (ms @ [\<lparr>bmBucket = bName b, bmContent = c\<rparr>]) r1 = (Inr ms', r')"
      using Cons.prems(3) True i y by simp
    from Cons.IH [OF _ _ this] get_ok [OF Cons.prems(2) w1] f Cons.prems(1) True r1 show ?thesis by simp
  qed
qed

text \<open>What a restart reads is what was persisted.\<close>

lemma persisted_manifests_fetched:
  assumes "rStore r = st" and "inv (rWorld r)" and "PersistManifests r = (None, r1)"
    and "distinct (manifestPairs (cBuckets (rCfg r)))"
    and "rStore r2 = st" and "rWorld r2 = rWorld r1"
    and "fetchManifests (cBuckets (rCfg r)) [] r2 = (Inr ms, r3)"
  shows "ms = manifestsOf (rCatalog r) (map bName (filter HasStorage (cBuckets (rCfg r))))"
proof -
  have p: "persistBuckets (cBuckets (rCfg r)) [] r = ([], r1)"
    using assms(3) by (auto simp: PersistManifests_def errors_Join_def Let_def split: prod.splits if_splits)
  have "inv (rWorld r1)" using persistBuckets_obj [OF assms(1,2) p] by blast
  with fetchManifests_spec [OF assms(5) _ assms(7)] assms(6)
  have ms: "ms = map (\<lambda>b. \<lparr>bmBucket = bName b, bmContent =
        (case obj (rWorld r1) (bName b) (bManifestKey b) of Some v \<Rightarrow> fst v | None \<Rightarrow> [])\<rparr>) (filter HasStorage (cBuckets (rCfg r)))"
    by simp
  have "(case obj (rWorld r1) (bName b) (bManifestKey b) of Some v \<Rightarrow> fst v | None \<Rightarrow> []) =
        (case marshalManifest (ManifestForBucket (rCatalog r) (bName b)) of Inr body \<Rightarrow> body | Inl e \<Rightarrow> [])"
    if "b \<in> set (cBuckets (rCfg r))" "HasStorage b" for b
    using persistBuckets_manifests [OF assms(1,2) p assms(4) that] by auto
  then show ?thesis by (simp add: ms manifestsOf_def)
qed

end

section \<open>Properties\<close>

text \<open>
  C1. What \<^verbatim>\<open>ResolveRoute\<close> hands out is real and is what was asked for: the returned entry is the
  one the catalog holds for its key, its object is in the store at that moment, and either its
  route is the requested route, or the request was \<^verbatim>\<open>/public/<key>\<close> or \<^verbatim>\<open>/private/<key>\<close> and the entry's
  bucket has that visibility, or the request named a virtual repository and the entry's bucket
  is one of its members.
\<close>

theorem ResolveRoute_sound:
  assumes "object_store (rStore r) ok obj" and "ok (rWorld r)"
    and "fetcher_frame ok obj (rFetcher r)" and "cat_reachable UNIV (rCatalog r)"
    and "ResolveRoute route r = (Inr (Some e), r')"
  shows "Lookup (rCatalog r') (eKey e) = Some e \<and> obj (rWorld r') (eBucket e) (eKey e) \<noteq> None \<and>
    (eRoute e = route \<or>
     (\<exists>public. parseVirtualPrefix route = Some (eKey e, public) \<and>
        (\<exists>b \<in> set (cBuckets (rCfg r)). bName b = eBucket e \<and> HasStorage b \<and> bPublic b = public)) \<or>
     (\<exists>v \<in> set (cBuckets (rCfg r)).
        bKind v = KindVirtual \<and> route = routeFor (bName v) (eKey e) \<and> eBucket e \<in> set (bMembers v)))"
proof -
  have "object_store.ready (rStore r) ok obj r"
    using assms by (simp add: object_store.ready_def [OF assms(1)] cat_reachable_inv)
  from object_store.ResolveRoute_served [OF assms(1) this, of route] assms(5)
  show ?thesis unfolding object_store.served_def [OF assms(1)] by auto
qed

text \<open>
  C13. \<^verbatim>\<open>ResolveMissingFile\<close> answers with the first bucket, in configuration order, that stores the
  file, with its true size and timestamp, and the catalog then has that entry; when no bucket
  stores it, the answer is nil and the catalog no longer has the key. No other key changes.
\<close>

theorem ResolveMissingFile_first_holder:
  assumes "object_store (rStore r) ok obj" and "ok (rWorld r)"
    and "ResolveMissingFile key r = (Inr res, r')"
  shows "res = map_option (storedEntry (rCatalog r) obj (rWorld r) key)
                 (List.find (holds obj (rWorld r) key) (cBuckets (rCfg r))) \<and>
         (\<forall>k. Lookup (rCatalog r') k = (if k = key then res else Lookup (rCatalog r) k))"
proof (cases "List.find (holds obj (rWorld r) key) (cBuckets (rCfg r))")
  case None
  with object_store.searchBuckets_spec [OF assms(1) refl assms(2) assms(3) [unfolded ResolveMissingFile_def]]
  show ?thesis by (simp add: cat.lookup_remove)
next
  case (Some b)
  then have "holds obj (rWorld r) key b" by (auto dest: find_Some_in)
  then obtain v where "obj (rWorld r) (bName b) key = Some v" by (auto simp: holds_def)
  with Some object_store.searchBuckets_spec [OF assms(1) refl assms(2) assms(3) [unfolded ResolveMissingFile_def]]
  show ?thesis by (simp add: cat.lookup_set storedEntry_def)
qed

text \<open>
  C12. \<^verbatim>\<open>Relocate\<close> consolidates a file onto the first configured bucket that stores it: the result's
  entry is that bucket's, the catalog holds it, \<^verbatim>\<open>Duplicate\<close> says whether two or more buckets store
  the file, and \<^verbatim>\<open>RelocatedFrom\<close>/\<^verbatim>\<open>RelocatedTo\<close> are set exactly when the catalog had another bucket
  before. \<^verbatim>\<open>ErrFileNotFound\<close> means that no bucket stores it, and then the catalog drops it.
\<close>

theorem Relocate_consolidates:
  assumes "object_store (rStore r) ok obj" and "ok (rWorld r)"
    and "\<forall>b \<in> set (cBuckets (rCfg r)). bName b \<noteq> []" and "Relocate f r = (x, r')"
  shows "case x of
     Inr res \<Rightarrow>
       (\<exists>b. List.find (holds obj (rWorld r) f) (cBuckets (rCfg r)) = Some b \<and>
            rrEntry res = storedEntry (rCatalog r) obj (rWorld r) f b \<and>
            Lookup (rCatalog r') f = Some (rrEntry res) \<and>
            rrDuplicate res = (2 \<le> length (filter (holds obj (rWorld r) f) (cBuckets (rCfg r)))) \<and>
            (rrRelocatedFrom res, rrRelocatedTo res) =
              (case Lookup (rCatalog r) f of
                 Some p \<Rightarrow> if eBucket p = bName b then ([], []) else (eBucket p, bName b)
               | None \<Rightarrow> ([], [])))
   | Inl e \<Rightarrow>
       e = ErrFileNotFound \<longrightarrow>
         (\<forall>b \<in> set (cBuckets (rCfg r)). \<not> holds obj (rWorld r) f b) \<and> Lookup (rCatalog r') f = None"
  by (rule object_store.Relocate_spec [OF assms(1) refl assms(2-4)])


text \<open>
  C10. Restart: when \<^verbatim>\<open>PersistManifests\<close> succeeded, a fresh process that reads the manifests back from
  the same store rebuilds the catalog the old process had, provided the configuration writes
  the manifests to different objects and the entries can be written as JSON.
\<close>

theorem restart_restores_catalog:
  assumes "object_store (rStore r) ok obj" and "ok (rWorld r)" and "cat_reachable UNIV (rCatalog r)"
    and "PersistManifests r = (None, r1)"
    and "distinct (manifestPairs (cBuckets (rCfg r)))"
    and "catalog_storable (rCatalog r) (map bName (filter HasStorage (cBuckets (rCfg r))))"
    and "r2 = r1\<lparr>rCatalog := catalog_New (priority (rCatalog r)) (bucketType (rCatalog r))\<rparr>"
    and "fetchManifests (cBuckets (rCfg r2)) [] r2 = (Inr ms, r3)"
  shows "Lookup (LoadManifests ms (rCatalog r3)) k = Lookup (rCatalog r) k"
proof -
  have f: "rCfg r1 = rCfg r" "rStore r1 = rStore r" using Persist_fields' [OF assms(4)] by simp_all
  have ms: "ms = manifestsOf (rCatalog r) (map bName (filter HasStorage (cBuckets (rCfg r))))"
    using object_store.persisted_manifests_fetched [OF assms(1) refl assms(2,4,5), of r2 ms r3] assms(7,8) f by simp
  have "rCatalog r3 = rCatalog r2" using steps_fetchManifests [OF assms(8)] by blast
  then have "bucketType (rCatalog r3) = bucketType (rCatalog r)" by (simp add: assms(7) catalog_New_def)
  from manifests_restore [OF cat_reachable_inv [OF assms(3)] assms(6) this] show ?thesis unfolding ms .
qed

text \<open>
  The cache of a proxy repository: with no positive TTL an entry never expires; with one, an entry
  whose timestamp does not parse is refreshed, and any other expires exactly when it is older
  than the TTL, ages beyond the range of a duration being cut off at it.
\<close>

theorem proxyCacheExpired_iff:
  "proxyCacheExpired now b ob \<longleftrightarrow>
     0 < sint (bCacheTTL b) \<and>
     (case time_Parse (oLastModified ob) of
        None \<Rightarrow> True
      | Some cachedAt \<Rightarrow> sint (bCacheTTL b) < now - cachedAt \<and> sint (bCacheTTL b) < max64)"
proof -
  have b: "min64 \<le> sint (bCacheTTL b)" "sint (bCacheTTL b) \<le> max64"
    using sint_ge [of "bCacheTTL b"] sint_lt [of "bCacheTTL b"] by (simp_all add: min64_def max64_def)
  then show ?thesis
    by (auto simp: proxyCacheExpired_def le64_def lt64_def sint_time_Sub not_le split: option.split)
qed

section \<open>Witnesses\<close>

text \<open>The service of \<open>Resolver_Catalog\<close> after its bootstrap: \<^verbatim>\<open>a\<close> is in two buckets, \<^verbatim>\<open>b\<close> in one.\<close>

definition witness_running :: "fakeStore Resolver" where
  "witness_running = snd (Bootstrap witness_service)"

lemma fake_inv_check: "list_all (\<lambda>bm. gm_ok (snd bm)) s \<Longrightarrow> fake_inv s"
  by (induction s) (auto simp: fake_inv_def split: if_splits)

lemma witness_run: "res_step\<^sup>*\<^sup>* witness_service witness_running"
  unfolding witness_running_def by (intro r_into_rtranclp run_Bootstrap) (rule prod.collapse [symmetric])

lemma witness_running_facts:
  "rStore witness_running = fake_Store" "rCfg witness_running = demo_config"
  "cat_reachable UNIV (rCatalog witness_running)" "fake_inv (rWorld witness_running)"
  "object_store (rStore witness_running) fake_inv fake_obj"
  "fetcher_frame fake_inv fake_obj (rFetcher witness_running)"
proof -
  note s = service_reachable [OF witness_run [unfolded witness_service_def]]
  show st: "rStore witness_running = fake_Store" and "rCfg witness_running = demo_config"
    and "cat_reachable UNIV (rCatalog witness_running)" using s by simp_all
  show "fake_inv (rWorld witness_running)" by (rule fake_inv_check) code_simp
  show "object_store (rStore witness_running) fake_inv fake_obj"
    unfolding st by (rule fake.object_store_axioms)
  have "rFetcher witness_running = rFetcher witness_service"
    using res_steps [OF witness_run] by (simp add: steps_def)
  then show "fetcher_frame fake_inv fake_obj (rFetcher witness_running)"
    by (simp add: fetcher_frame_def witness_service_def service_New_def resolver_New_def Fetch_def NewHTTPFetcher_def)
qed

definition witness_entry :: Entry where
  "witness_entry = \<lparr>eKey = ''b'', eBucket = ''priv'', eBucketType = ''private'', eRoute = ''/priv/b'', eSize = 3, eLastModified = []\<rparr>"

theorem ResolveRoute_sound_witness:
  "fst (ResolveRoute ''/all/b'' witness_running) = Inr (Some witness_entry) \<and>
   fake_obj (rWorld (snd (ResolveRoute ''/all/b'' witness_running))) ''priv'' ''b'' \<noteq> None"
proof -
  have f: "fst (ResolveRoute ''/all/b'' witness_running) = Inr (Some witness_entry)" by code_simp
  then have "ResolveRoute ''/all/b'' witness_running = (Inr (Some witness_entry), snd (ResolveRoute ''/all/b'' witness_running))"
    by (metis prod.collapse)
  from ResolveRoute_sound [OF witness_running_facts(5,4,6,3) this] f show ?thesis
    by (simp add: witness_entry_def)
qed

theorem ResolveMissingFile_first_holder_witness:
  "fst (ResolveMissingFile ''b'' witness_running) = Inr (Some witness_entry) \<and>
   Lookup (rCatalog (snd (ResolveMissingFile ''b'' witness_running))) ''b'' = Some witness_entry"
proof -
  have f: "fst (ResolveMissingFile ''b'' witness_running) = Inr (Some witness_entry)" by code_simp
  then have "ResolveMissingFile ''b'' witness_running = (Inr (Some witness_entry), snd (ResolveMissingFile ''b'' witness_running))"
    by (metis prod.collapse)
  from ResolveMissingFile_first_holder [OF witness_running_facts(5,4) this] f show ?thesis by simp
qed

theorem Relocate_consolidates_witness:
  "\<exists>res. fst (Relocate ''a'' witness_running) = Inr res \<and> rrDuplicate res \<and>
     Lookup (rCatalog (snd (Relocate ''a'' witness_running))) ''a'' = Some (rrEntry res) \<and> eBucket (rrEntry res) = ''pub''"
proof -
  have n: "\<forall>b \<in> set (cBuckets (rCfg witness_running)). bName b \<noteq> []"
    unfolding witness_running_facts(2) by code_simp
  have "\<not> isl (fst (Relocate ''a'' witness_running))" by code_simp
  then obtain res where r: "fst (Relocate ''a'' witness_running) = Inr res" by (cases "fst (Relocate ''a'' witness_running)") auto
  then have "Relocate ''a'' witness_running = (Inr res, snd (Relocate ''a'' witness_running))" by (metis prod.collapse)
  from Relocate_consolidates [OF witness_running_facts(5,4) n this]
  have "Lookup (rCatalog (snd (Relocate ''a'' witness_running))) ''a'' = Some (rrEntry res)" by auto
  moreover have "rrDuplicate (projr (fst (Relocate ''a'' witness_running)))"
    "eBucket (rrEntry (projr (fst (Relocate ''a'' witness_running)))) = ''pub''" by code_simp+
  ultimately show ?thesis using r by auto
qed


lemma fake_fetch_ok: "rStore r = fake_Store \<Longrightarrow> \<exists>ms' r'. fetchManifests bs ms r = (Inr ms', r')"
proof (induction bs arbitrary: ms r)
  case (Cons b bs)
  then show ?case
    by (cases "HasStorage b") (auto simp: io_def fake_Store_def)
qed simp

theorem restart_restores_catalog_witness:
  "\<exists>ms r3. fetchManifests (cBuckets demo_config) []
        ((snd (PersistManifests witness_running))\<lparr>rCatalog := catalog_New (priority (rCatalog witness_running)) (bucketType (rCatalog witness_running))\<rparr>)
        = (Inr ms, r3) \<and>
      Lookup (LoadManifests ms (rCatalog r3)) ''b'' = Lookup (rCatalog witness_running) ''b''"
proof -
  define r1 where "r1 = snd (PersistManifests witness_running)"
  define r2 where "r2 = r1\<lparr>rCatalog := catalog_New (priority (rCatalog witness_running)) (bucketType (rCatalog witness_running))\<rparr>"
  have "fst (PersistManifests witness_running) = None" by code_simp
  then have p: "PersistManifests witness_running = (None, r1)" by (metis prod.collapse r1_def)
  have d: "distinct (manifestPairs (cBuckets (rCfg witness_running)))"
    unfolding witness_running_facts(2) by code_simp
  have s: "catalog_storable (rCatalog witness_running) (map bName (filter HasStorage (cBuckets (rCfg witness_running))))"
    unfolding witness_running_facts(2) by code_simp
  have c: "rCfg r2 = demo_config" "rStore r2 = fake_Store"
    by (simp_all add: r2_def r1_def witness_running_facts)
  from fake_fetch_ok [OF c(2)] obtain ms r3 where f: "fetchManifests (cBuckets (rCfg r2)) [] r2 = (Inr ms, r3)" by blast
  from restart_restores_catalog [OF witness_running_facts(5,4,3) p d s r2_def f, of "''b''"] f [unfolded c(1)]
  show ?thesis unfolding r1_def [symmetric] r2_def [symmetric] by blast
qed

text \<open>
  A \<^verbatim>\<open>/private/<key>\<close> request takes a key from a higher-ranked bucket: \<^verbatim>\<open>a\<close> belongs to \<^verbatim>\<open>pub\<close>, which
  still stores it and ranks first; after one \<^verbatim>\<open>GET /private/a\<close> the catalog has it under \<^verbatim>\<open>priv\<close> and no
  longer answers for the route \<^verbatim>\<open>/pub/a\<close>. The next request of \<^verbatim>\<open>/pub/a\<close> takes it back.
\<close>

theorem typed_request_takes_key:
  "(let r = witness_running; r1 = snd (ResolveRoute ''/private/a'' r); r2 = snd (ResolveRoute ''/pub/a'' r1)
    in BucketPriority demo_config ''pub'' < BucketPriority demo_config ''priv'' \<and>
       map_option eBucket (Lookup (rCatalog r) ''a'') = Some ''pub'' \<and>
       map_option eBucket (Lookup (rCatalog r1) ''a'') = Some ''priv'' \<and>
       LookupByRoute (rCatalog r1) ''/pub/a'' = None \<and>
       map_option eBucket (Lookup (rCatalog r2) ''a'') = Some ''pub'')"
  by code_simp

end
