(* ===== verification/Formats.thy ===== *)
theory Formats
  imports Catalog
begin

text \<open>
  The repository formats (\<^verbatim>\<open>internal/format\<close> and its subpackages): how each maps an object to a
  route and back, and how each reads a package reference off a file name or path. The two
  namespaced protocols (Docker, Terraform) only have path parsers. The format registry is a map
  from names to formats.
\<close>

section \<open>The Format interface and the registry\<close>

record Format =
  fName :: string
  fRoute :: "string \<Rightarrow> string \<Rightarrow> string"
  fParseRoute :: "string \<Rightarrow> (string \<times> string) option"

type_synonym Registry = "(string, Format) gomap"

definition NewRegistry :: Registry where
  "NewRegistry = []"

definition registry_Register :: "Format \<Rightarrow> Registry \<Rightarrow> Registry" where
  "registry_Register f r = gm_set (fName f) f r"

definition registry_Get :: "Registry \<Rightarrow> string \<Rightarrow> Format option" where
  "registry_Get r name = gm_get r name"

text \<open>
  The body every \<^verbatim>\<open>ParseRoute\<close> starts with: drop one leading slash, cut at the first slash, and
  want both sides. The formats differ in the check of the key that follows.
\<close>

definition cutRoute :: "(string \<Rightarrow> bool) \<Rightarrow> string \<Rightarrow> (string \<times> string) option" where
  "cutRoute valid route =
     (case Cut (TrimPrefix route ''/'') ''/'' of
        None \<Rightarrow> None
      | Some (b, k) \<Rightarrow> if b = [] \<or> k = [] then None else if valid k then Some (b, k) else None)"

text \<open>The file name of a key: what follows its last slash.\<close>

definition lastSegment :: "string \<Rightarrow> string" where
  "lastSegment k = (case LastIndex k ''/'' of Some idx \<Rightarrow> drop (idx + 1) k | None \<Rightarrow> k)"

definition slashRoute :: "string \<Rightarrow> string \<Rightarrow> string" where
  "slashRoute bucket key = ''/'' @ bucket @ ''/'' @ key"

section \<open>generic\<close>

definition generic_ParseRoute :: "string \<Rightarrow> (string \<times> string) option" where
  "generic_ParseRoute = cutRoute (\<lambda>k. True)"

definition generic_Format :: Format where
  "generic_Format = \<lparr>fName = ''generic'', fRoute = slashRoute, fParseRoute = generic_ParseRoute\<rparr>"

section \<open>maven\<close>

record Coordinate =
  GroupID :: string
  ArtifactID :: string
  cVersion :: string
  Classifier :: string
  Extension :: string

definition beforeFirstDot :: "string \<Rightarrow> string option" where
  "beforeFirstDot s = map_option (\<lambda>idx. take idx s) (Index s ''.'')"

text \<open>A rune is a decimal digit exactly when it is one of these bytes.\<close>

definition isAllDigits :: "string \<Rightarrow> bool" where
  "isAllDigits s \<longleftrightarrow> s \<noteq> [] \<and> list_all is_digit s"

text \<open>What follows artifact and version in the file name: classifier and extension.\<close>

definition parseMavenRest :: "string \<Rightarrow> (string \<times> string) option" where
  "parseMavenRest rest =
     (if HasPrefix rest ''-'' then
        (let rest' = TrimPrefix rest ''-''
         in case Index rest' ''.'' of
              None \<Rightarrow> None
            | Some idx \<Rightarrow> if idx = 0 then None else Some (take idx rest', drop (idx + 1) rest'))
      else if HasPrefix rest ''.'' then
        (let candidate = TrimPrefix rest ''.''
         in case beforeFirstDot candidate of
              Some leftover \<Rightarrow> if isAllDigits leftover then None else Some ([], candidate)
            | None \<Rightarrow> Some ([], candidate))
      else None)"

definition ParseCoordinate :: "string \<Rightarrow> Coordinate option" where
  "ParseCoordinate path =
     (let segments = Split (TrimPrefix path ''/'') (CHR ''/''); n = length segments
      in if n < 4 then None
         else let file = segments ! (n - 1); version = segments ! (n - 2); artifactID = segments ! (n - 3);
                  groupSegments = take (n - 3) segments
              in if version = [] \<or> artifactID = [] \<or> groupSegments = [] then None
                 else if [] \<in> set groupSegments then None
                 else let groupID = Join groupSegments ''.''; prefix = artifactID @ ''-'' @ version
                      in if \<not> HasPrefix file prefix then None
                         else case parseMavenRest (TrimPrefix file prefix) of
                                None \<Rightarrow> None
                              | Some (classifier, extension) \<Rightarrow>
                                  if extension = [] then None
                                  else Some \<lparr>GroupID = groupID, ArtifactID = artifactID, cVersion = version,
                                             Classifier = classifier, Extension = extension\<rparr>)"

definition maven_ParseRoute :: "string \<Rightarrow> (string \<times> string) option" where
  "maven_ParseRoute = cutRoute (\<lambda>k. ParseCoordinate k \<noteq> None)"

definition maven_Format :: Format where
  "maven_Format = \<lparr>fName = ''maven'', fRoute = slashRoute, fParseRoute = maven_ParseRoute\<rparr>"

section \<open>npm\<close>

record NpmRef =
  nScope :: string
  nName :: string
  nVersion :: string

definition FullName :: "NpmRef \<Rightarrow> string" where
  "FullName p = (if nScope p = [] then nName p else ''@'' @ nScope p @ ''/'' @ nName p)"

text \<open>The scope of a key and the rest, \<open>None\<close> for a malformed scope.\<close>

definition npmScope :: "string \<Rightarrow> (string \<times> string) option" where
  "npmScope key =
     (if HasPrefix key ''@'' then
        (case Cut key ''/'' of
           None \<Rightarrow> None
         | Some (scopePart, rest) \<Rightarrow> if scopePart = ''@'' then None else Some (TrimPrefix scopePart ''@'', rest))
      else Some ([], key))"

text \<open>Name and version of what follows the scope; the version is empty for package metadata.\<close>

definition npmNameVersion :: "string \<Rightarrow> (string \<times> string) option" where
  "npmNameVersion key =
     (case Index key ''/-/'' of
        Some idx \<Rightarrow>
          let name = take idx key; tarball = drop (idx + 3) key; prefix = name @ ''-''
          in if name = [] \<or> tarball = [] then None
             else if \<not> HasSuffix tarball ''.tgz'' \<or> \<not> HasPrefix tarball prefix then None
             else let version = TrimSuffix (TrimPrefix tarball prefix) ''.tgz''
                  in if version = [] then None else Some (name, version)
      | None \<Rightarrow> if key = [] \<or> Contains key ''/'' then None else Some (key, []))"

definition npm_ParseKey :: "string \<Rightarrow> NpmRef option" where
  "npm_ParseKey key0 =
     (case npmScope (TrimPrefix key0 ''/'') of
        None \<Rightarrow> None
      | Some (scope, key) \<Rightarrow>
          (case npmNameVersion key of
             None \<Rightarrow> None
           | Some (name, version) \<Rightarrow> Some \<lparr>nScope = scope, nName = name, nVersion = version\<rparr>))"

definition npm_ParseRoute :: "string \<Rightarrow> (string \<times> string) option" where
  "npm_ParseRoute = cutRoute (\<lambda>k. npm_ParseKey k \<noteq> None)"

definition npm_Format :: Format where
  "npm_Format = \<lparr>fName = ''npm'', fRoute = slashRoute, fParseRoute = npm_ParseRoute\<rparr>"

section \<open>pypi\<close>

text \<open>\<^verbatim>\<open>strings.ToLower\<close>; \<open>ul\<close> is \<^verbatim>\<open>unicode.ToLower\<close> on runes beyond ASCII.\<close>

definition lowerByte :: "char \<Rightarrow> char" where
  "lowerByte c = (if 65 \<le> code c \<and> code c \<le> 90 then char_of (code c + 32) else c)"

definition ToLower :: "(int \<Rightarrow> int) \<Rightarrow> string \<Rightarrow> string" where
  "ToLower ul s =
     (if list_all (\<lambda>c. code c < 128) s then map lowerByte s
      else concat (map (\<lambda>(r, bs). EncodeRune (if r < 128 then (if 65 \<le> r \<and> r \<le> 90 then r + 32 else r) else ul r)) (Runes s)))"

definition isSepByte :: "char \<Rightarrow> bool" where
  "isSepByte c \<longleftrightarrow> c = CHR ''-'' \<or> c = CHR ''_'' \<or> c = CHR ''.''"

text \<open>\<^verbatim>\<open>normalizeRunRe.ReplaceAllString(name, "-")\<close>: every maximal run of separators becomes one dash.\<close>

fun collapseRuns :: "bool \<Rightarrow> string \<Rightarrow> string" where
  "collapseRuns inRun [] = []"
| "collapseRuns inRun (c # s) =
     (if isSepByte c then (if inRun then collapseRuns True s else CHR ''-'' # collapseRuns True s)
      else c # collapseRuns False s)"

definition NormalizeName :: "(int \<Rightarrow> int) \<Rightarrow> string \<Rightarrow> string" where
  "NormalizeName ul name = ToLower ul (collapseRuns False name)"

definition distExtensions :: "string list" where
  "distExtensions = [''.tar.gz'', ''.whl'', ''.zip'']"

definition ParseFilename :: "string \<Rightarrow> (string \<times> string) option" where
  "ParseFilename filename =
     (case List.find (\<lambda>e. HasSuffix filename e) distExtensions of
        None \<Rightarrow> None
      | Some ext \<Rightarrow>
          let base = TrimSuffix filename ext
          in if ext = ''.whl'' then
               (case Split base (CHR ''-'') of
                  p0 # p1 # p2 # p3 # p4 # ps \<Rightarrow> if p0 = [] \<or> p1 = [] then None else Some (p0, p1)
                | _ \<Rightarrow> None)
             else (case LastIndex base ''-'' of
                     None \<Rightarrow> None
                   | Some idx \<Rightarrow>
                       if idx = 0 \<or> idx + 1 = length base then None else Some (take idx base, drop (idx + 1) base)))"

definition pypi_ParseRoute :: "string \<Rightarrow> (string \<times> string) option" where
  "pypi_ParseRoute = cutRoute (\<lambda>k. ParseFilename (lastSegment k) \<noteq> None)"

definition pypi_Format :: Format where
  "pypi_Format = \<lparr>fName = ''pypi'', fRoute = slashRoute, fParseRoute = pypi_ParseRoute\<rparr>"

section \<open>docker\<close>

definition isLowerAlnum :: "char \<Rightarrow> bool" where
  "isLowerAlnum c \<longleftrightarrow> (97 \<le> code c \<and> code c \<le> 122) \<or> is_digit c"

definition isHex :: "char \<Rightarrow> bool" where
  "isHex c \<longleftrightarrow> (97 \<le> code c \<and> code c \<le> 102) \<or> (65 \<le> code c \<and> code c \<le> 70) \<or> is_digit c"

text \<open>The part of \<^verbatim>\<open>digestRe\<close> before the colon; the flag says whether a component has begun.\<close>

fun digestAlgorithm :: "bool \<Rightarrow> string \<Rightarrow> bool" where
  "digestAlgorithm begun [] \<longleftrightarrow> begun"
| "digestAlgorithm begun (c # s) \<longleftrightarrow>
     (if isLowerAlnum c then digestAlgorithm True s
      else begun \<and> c \<in> set ''.+_-'' \<and> digestAlgorithm False s)"

definition IsDigest :: "string \<Rightarrow> bool" where
  "IsDigest s \<longleftrightarrow>
     (case Cut s '':'' of
        None \<Rightarrow> False
      | Some (alg, hex) \<Rightarrow> digestAlgorithm False alg \<and> list_all isHex hex \<and> 32 \<le> length hex)"

record ManifestRef =
  mrName :: string
  mrReference :: string

record BlobRef =
  brName :: string
  brDigest :: string

definition parseV2Path :: "string \<Rightarrow> string \<Rightarrow> (string \<times> string) option" where
  "parseV2Path path marker =
     (let path' = TrimPrefix path ''/''
      in if \<not> HasPrefix path' ''v2/'' then None
         else let rest = TrimPrefix path' ''v2/''
              in case LastIndex rest marker of
                   None \<Rightarrow> None
                 | Some idx \<Rightarrow>
                     if idx = 0 then None
                     else let name = take idx rest; val = drop (idx + length marker) rest
                          in if name = [] \<or> val = [] then None else Some (name, val))"

definition ParseManifestPath :: "string \<Rightarrow> ManifestRef option" where
  "ParseManifestPath path =
     (case parseV2Path path ''/manifests/'' of
        None \<Rightarrow> None
      | Some (name, ref) \<Rightarrow> Some \<lparr>mrName = name, mrReference = ref\<rparr>)"

definition ParseBlobPath :: "string \<Rightarrow> BlobRef option" where
  "ParseBlobPath path =
     (case parseV2Path path ''/blobs/'' of
        None \<Rightarrow> None
      | Some (name, digest) \<Rightarrow> if IsDigest digest then Some \<lparr>brName = name, brDigest = digest\<rparr> else None)"

section \<open>helm and nuget\<close>

text \<open>
  Both look for the first part, after part 0, that begins with a digit.
\<close>

definition digitStart :: "string \<Rightarrow> bool" where
  "digitStart p \<longleftrightarrow> p \<noteq> [] \<and> is_digit (hd p)"

fun versionFrom :: "nat \<Rightarrow> string list \<Rightarrow> nat option" where
  "versionFrom i [] = None"
| "versionFrom i (p # ps) = (if digitStart p then Some i else versionFrom (Suc i) ps)"

definition versionIdx :: "string list \<Rightarrow> nat option" where
  "versionIdx parts = versionFrom 1 (tl parts)"

text \<open>Name and version of a base name whose parts are separated by \<open>c\<close>.\<close>

definition splitVersion :: "char \<Rightarrow> string \<Rightarrow> (string \<times> string) option" where
  "splitVersion c base =
     (let parts = Split base c
      in if length parts < 2 then None
         else case versionIdx parts of
                None \<Rightarrow> None
              | Some i \<Rightarrow>
                  let name = Join (take i parts) [c]; version = Join (drop i parts) [c]
                  in if name = [] \<or> version = [] then None else Some (name, version))"

record ChartRef =
  crName :: string
  crVersion :: string

definition ParseChartFilename :: "string \<Rightarrow> ChartRef option" where
  "ParseChartFilename filename =
     (case CutSuffix filename ''.tgz'' of
        None \<Rightarrow> None
      | Some base \<Rightarrow> map_option (\<lambda>(n, v). \<lparr>crName = n, crVersion = v\<rparr>) (splitVersion (CHR ''-'') base))"

definition helm_ParseRoute :: "string \<Rightarrow> (string \<times> string) option" where
  "helm_ParseRoute = cutRoute (\<lambda>k. ParseChartFilename (lastSegment k) \<noteq> None)"

definition helm_Format :: Format where
  "helm_Format = \<lparr>fName = ''helm'', fRoute = slashRoute, fParseRoute = helm_ParseRoute\<rparr>"

record NugetRef =
  ngID :: string
  ngVersion :: string

definition nuget_ParsePackageFilename :: "string \<Rightarrow> NugetRef option" where
  "nuget_ParsePackageFilename filename =
     (case CutSuffix filename ''.nupkg'' of
        None \<Rightarrow> None
      | Some base \<Rightarrow> map_option (\<lambda>(n, v). \<lparr>ngID = n, ngVersion = v\<rparr>) (splitVersion (CHR ''.'') base))"

definition nuget_ParseRoute :: "string \<Rightarrow> (string \<times> string) option" where
  "nuget_ParseRoute = cutRoute (\<lambda>k. nuget_ParsePackageFilename (lastSegment k) \<noteq> None)"

definition nuget_Format :: Format where
  "nuget_Format = \<lparr>fName = ''nuget'', fRoute = slashRoute, fParseRoute = nuget_ParseRoute\<rparr>"

section \<open>debian\<close>

record DebRef =
  dName :: string
  dVersion :: string
  dArchitecture :: string

definition debian_ParsePackageFilename :: "string \<Rightarrow> DebRef option" where
  "debian_ParsePackageFilename filename =
     (case CutSuffix filename ''.deb'' of
        None \<Rightarrow> None
      | Some base \<Rightarrow>
          (case Split base (CHR ''_'') of
             [name, version, arch] \<Rightarrow>
               if name = [] \<or> version = [] \<or> arch = [] then None
               else Some \<lparr>dName = name, dVersion = version, dArchitecture = arch\<rparr>
           | _ \<Rightarrow> None))"

definition poolLetter :: "string \<Rightarrow> string" where
  "poolLetter name =
     (if HasPrefix name ''lib'' \<and> length name > 3 then take 4 name
      else if name = [] then [] else take 1 name)"

definition PoolPath :: "string \<Rightarrow> DebRef \<Rightarrow> string" where
  "PoolPath component ref =
     (let letter = poolLetter (dName ref);
          filename = dName ref @ ''_'' @ dVersion ref @ ''_'' @ dArchitecture ref @ ''.deb''
      in Join [''pool'', component, letter, dName ref, filename] ''/'')"

definition debian_ParseRoute :: "string \<Rightarrow> (string \<times> string) option" where
  "debian_ParseRoute = cutRoute (\<lambda>k. debian_ParsePackageFilename (lastSegment k) \<noteq> None)"

definition debian_Format :: Format where
  "debian_Format = \<lparr>fName = ''debian'', fRoute = slashRoute, fParseRoute = debian_ParseRoute\<rparr>"

section \<open>rpm\<close>

record RpmRef =
  rpName :: string
  rpVersion :: string
  rpRelease :: string
  rpArchitecture :: string

definition knownArchitectures :: "string list" where
  "knownArchitectures =
     [''x86_64'', ''aarch64'', ''noarch'', ''i686'', ''i386'', ''armv7hl'', ''ppc64le'', ''ppc64'', ''s390x'', ''src'']"

definition rpm_ParsePackageFilename :: "string \<Rightarrow> RpmRef option" where
  "rpm_ParsePackageFilename filename =
     (case CutSuffix filename ''.rpm'' of
        None \<Rightarrow> None
      | Some base \<Rightarrow>
          (case LastIndex base ''.'' of
             None \<Rightarrow> None
           | Some archIdx \<Rightarrow>
               if archIdx = 0 \<or> archIdx + 1 = length base then None
               else let arch = drop (archIdx + 1) base
                    in if arch \<notin> set knownArchitectures then None
                       else let parts = Split (take archIdx base) (CHR ''-''); n = length parts
                            in if n < 3 then None
                               else let release = parts ! (n - 1); version = parts ! (n - 2);
                                        name = Join (take (n - 2) parts) ''-''
                                    in if name = [] \<or> version = [] \<or> release = [] then None
                                       else Some \<lparr>rpName = name, rpVersion = version, rpRelease = release, rpArchitecture = arch\<rparr>))"

definition rpm_ParseRoute :: "string \<Rightarrow> (string \<times> string) option" where
  "rpm_ParseRoute = cutRoute (\<lambda>k. rpm_ParsePackageFilename (lastSegment k) \<noteq> None)"

definition rpm_Format :: Format where
  "rpm_Format = \<lparr>fName = ''rpm'', fRoute = slashRoute, fParseRoute = rpm_ParseRoute\<rparr>"

section \<open>terraform\<close>

record ProviderRef =
  pNamespace :: string
  pType :: string

record ProviderDownloadRef =
  pdProvider :: ProviderRef
  pdVersion :: string
  pdOS :: string
  pdArch :: string

record ModuleRef =
  moNamespace :: string
  moName :: string
  moSystem :: string

record ModuleDownloadRef =
  mdModule :: ModuleRef
  mdVersion :: string

definition trimPrefixSegments :: "string \<Rightarrow> string \<Rightarrow> string list option" where
  "trimPrefixSegments path prefix =
     map_option (\<lambda>rest. Split rest (CHR ''/'')) (CutPrefix (TrimPrefix path ''/'') prefix)"

definition ParseProviderVersionsPath :: "string \<Rightarrow> ProviderRef option" where
  "ParseProviderVersionsPath path =
     (case trimPrefixSegments path ''v1/providers/'' of
        Some [ns, ty, kind] \<Rightarrow>
          if kind \<noteq> ''versions'' then None
          else if ns = [] \<or> ty = [] then None else Some \<lparr>pNamespace = ns, pType = ty\<rparr>
      | _ \<Rightarrow> None)"

definition ParseProviderDownloadPath :: "string \<Rightarrow> ProviderDownloadRef option" where
  "ParseProviderDownloadPath path =
     (case trimPrefixSegments path ''v1/providers/'' of
        Some [ns, ty, version, kind, os, arch] \<Rightarrow>
          if kind \<noteq> ''download'' then None
          else if [] \<in> set [ns, ty, version, os, arch] then None
          else Some \<lparr>pdProvider = \<lparr>pNamespace = ns, pType = ty\<rparr>, pdVersion = version, pdOS = os, pdArch = arch\<rparr>
      | _ \<Rightarrow> None)"

definition ParseModuleVersionsPath :: "string \<Rightarrow> ModuleRef option" where
  "ParseModuleVersionsPath path =
     (case trimPrefixSegments path ''v1/modules/'' of
        Some [ns, name, system, kind] \<Rightarrow>
          if kind \<noteq> ''versions'' then None
          else if ns = [] \<or> name = [] \<or> system = [] then None
          else Some \<lparr>moNamespace = ns, moName = name, moSystem = system\<rparr>
      | _ \<Rightarrow> None)"

definition ParseModuleDownloadPath :: "string \<Rightarrow> ModuleDownloadRef option" where
  "ParseModuleDownloadPath path =
     (case trimPrefixSegments path ''v1/modules/'' of
        Some [ns, name, system, version, kind] \<Rightarrow>
          if kind \<noteq> ''download'' then None
          else if ns = [] \<or> name = [] \<or> system = [] \<or> version = [] then None
          else Some \<lparr>mdModule = \<lparr>moNamespace = ns, moName = name, moSystem = system\<rparr>, mdVersion = version\<rparr>
      | _ \<Rightarrow> None)"

section \<open>Routes\<close>

text \<open>
  The contract of a format whose routes are \<^verbatim>\<open>/<bucket>/<key>\<close>: \<open>valid\<close> are the keys it serves.
\<close>

locale repository_format =
  fixes fmt :: Format and valid :: "string \<Rightarrow> bool"
  assumes parse_route: "b \<noteq> [] \<Longrightarrow> slash_free b \<Longrightarrow> k \<noteq> [] \<Longrightarrow> valid k \<Longrightarrow> fParseRoute fmt (fRoute fmt b k) = Some (b, k)"
    and route_parse: "fParseRoute fmt r = Some (b, k) \<Longrightarrow>
      b \<noteq> [] \<and> slash_free b \<and> k \<noteq> [] \<and> valid k \<and> (fRoute fmt b k = r \<or> fRoute fmt b k = ''/'' @ r)"
begin

text \<open>A route determines the object it serves, and reparsing a canonical route changes nothing.\<close>

lemma route_inj:
  assumes "b \<noteq> []" "slash_free b" "k \<noteq> []" "valid k" and "b' \<noteq> []" "slash_free b'" "k' \<noteq> []" "valid k'"
    and "fRoute fmt b k = fRoute fmt b' k'"
  shows "b = b' \<and> k = k'"
proof -
  have "Some (b, k) = Some (b', k')"
    using parse_route [OF assms(1-4), unfolded assms(9)] parse_route [OF assms(5-8)] by (rule trans [OF sym])
  then show ?thesis by simp
qed

lemma parse_canonical:
  assumes "fParseRoute fmt r = Some (b, k)" shows "fParseRoute fmt (fRoute fmt b k) = Some (b, k)"
  using route_parse [OF assms] parse_route by blast

end

lemma Cut_slash: "Cut s ''/'' = Some (b, k) \<longleftrightarrow> s = b @ CHR ''/'' # k \<and> CHR ''/'' \<notin> set b"
  by (rule Cut_single_Some)

lemma repository_format_cutRoute:
  "repository_format \<lparr>fName = n, fRoute = slashRoute, fParseRoute = cutRoute valid\<rparr> valid"
proof unfold_locales
  fix b k r
  show "b \<noteq> [] \<Longrightarrow> slash_free b \<Longrightarrow> k \<noteq> [] \<Longrightarrow> valid k \<Longrightarrow>
      fParseRoute \<lparr>fName = n, fRoute = slashRoute, fParseRoute = cutRoute valid\<rparr>
        (fRoute \<lparr>fName = n, fRoute = slashRoute, fParseRoute = cutRoute valid\<rparr> b k) = Some (b, k)"
    by (simp add: slashRoute_def cutRoute_def slash_free_def)
  assume "fParseRoute \<lparr>fName = n, fRoute = slashRoute, fParseRoute = cutRoute valid\<rparr> r = Some (b, k)"
  then have c: "Cut (TrimPrefix r ''/'') ''/'' = Some (b, k)" and v: "b \<noteq> []" "k \<noteq> []" "valid k"
    by (auto simp: cutRoute_def split: option.splits if_splits)
  have "r = ''/'' @ TrimPrefix r ''/'' \<or> r = TrimPrefix r ''/''"
    by (auto simp: TrimPrefix_def HasPrefix_iff)
  with c v show "b \<noteq> [] \<and> slash_free b \<and> k \<noteq> [] \<and> valid k \<and>
      (fRoute \<lparr>fName = n, fRoute = slashRoute, fParseRoute = cutRoute valid\<rparr> b k = r \<or>
       fRoute \<lparr>fName = n, fRoute = slashRoute, fParseRoute = cutRoute valid\<rparr> b k = ''/'' @ r)"
    by (auto simp: Cut_slash slash_free_def slashRoute_def)
qed

interpretation generic: repository_format generic_Format "\<lambda>k. True"
  unfolding generic_Format_def generic_ParseRoute_def by (rule repository_format_cutRoute)

interpretation maven: repository_format maven_Format "\<lambda>k. ParseCoordinate k \<noteq> None"
  unfolding maven_Format_def maven_ParseRoute_def by (rule repository_format_cutRoute)

interpretation npm: repository_format npm_Format "\<lambda>k. npm_ParseKey k \<noteq> None"
  unfolding npm_Format_def npm_ParseRoute_def by (rule repository_format_cutRoute)

interpretation pypi: repository_format pypi_Format "\<lambda>k. ParseFilename (lastSegment k) \<noteq> None"
  unfolding pypi_Format_def pypi_ParseRoute_def by (rule repository_format_cutRoute)

interpretation helm: repository_format helm_Format "\<lambda>k. ParseChartFilename (lastSegment k) \<noteq> None"
  unfolding helm_Format_def helm_ParseRoute_def by (rule repository_format_cutRoute)

interpretation nuget: repository_format nuget_Format "\<lambda>k. nuget_ParsePackageFilename (lastSegment k) \<noteq> None"
  unfolding nuget_Format_def nuget_ParseRoute_def by (rule repository_format_cutRoute)

interpretation debian: repository_format debian_Format "\<lambda>k. debian_ParsePackageFilename (lastSegment k) \<noteq> None"
  unfolding debian_Format_def debian_ParseRoute_def by (rule repository_format_cutRoute)

interpretation rpm: repository_format rpm_Format "\<lambda>k. rpm_ParsePackageFilename (lastSegment k) \<noteq> None"
  unfolding rpm_Format_def rpm_ParseRoute_def by (rule repository_format_cutRoute)

end
