(* ===== verification/Formats_Correct.thy ===== *)
theory Formats_Correct
  imports Formats
begin

text \<open>
  The parsers of the repository formats against printers of the same references: each parser
  accepts exactly the names its format prints, and reads back what was printed. The printers
  are specifications; only Debian's is a function of the program (\<^verbatim>\<open>PoolPath\<close>).
\<close>

section \<open>Splitting and searching\<close>

lemma Split_iff: "Split s c = xs \<longleftrightarrow> s = Join xs [c] \<and> xs \<noteq> [] \<and> (\<forall>x \<in> set xs. c \<notin> set x)"
proof
  assume "Split s c = xs"
  then show "s = Join xs [c] \<and> xs \<noteq> [] \<and> (\<forall>x \<in> set xs. c \<notin> set x)"
    using Join_Split [of s c] Split_not_Nil [of s c] Split_parts_free [of _ s c] by auto
next
  assume "s = Join xs [c] \<and> xs \<noteq> [] \<and> (\<forall>x \<in> set xs. c \<notin> set x)"
  then show "Split s c = xs" using Split_Join [of xs c] by auto
qed

lemma HasPrefix_length: "HasPrefix s p \<Longrightarrow> length p \<le> length s"
  by (auto simp: HasPrefix_iff)

lemma HasPrefix_self [simp]: "HasPrefix s s"
  by (simp add: HasPrefix_def)

lemma Index_Some_bound: "Index s sub = Some i \<Longrightarrow> i + length sub \<le> length s"
proof (induction s arbitrary: i)
  case Nil
  then show ?case by (simp split: if_splits)
next
  case (Cons c cs)
  then show ?case
    by (cases "HasPrefix (c # cs) sub") (auto dest!: HasPrefix_length)
qed

lemma HasPrefix_append_long: "length p \<le> length s \<Longrightarrow> HasPrefix (s @ t) p = HasPrefix s p"
  by (simp add: HasPrefix_def)

lemma Index_append: "Index s sub = Some i \<Longrightarrow> Index (s @ t) sub = Some i"
proof (induction s arbitrary: i)
  case Nil
  then show ?case by (cases t) (auto split: if_splits)
next
  case (Cons c cs)
  have b: "length sub \<le> length (c # cs)" using Index_Some_bound [OF Cons.prems] by simp
  show ?case
    using Cons HasPrefix_append_long [OF b, of t]
    by (cases "HasPrefix (c # cs) sub") auto
qed

lemma Index_split: "Index s sub = Some i \<Longrightarrow> s = take i s @ sub @ drop (i + length sub) s"
proof (induction s arbitrary: i)
  case Nil
  then show ?case by (simp split: if_splits)
next
  case (Cons c cs)
  show ?case
  proof (cases "HasPrefix (c # cs) sub")
    case True
    then obtain t where t: "c # cs = sub @ t" by (auto simp: HasPrefix_iff)
    from True Cons.prems have "i = 0" by simp
    then show ?thesis unfolding t by simp
  next
    case False
    with Cons show ?thesis by auto
  qed
qed

lemma Index_first: "Index s sub = Some i \<Longrightarrow> Index (take i s @ sub) sub = Some i"
proof (induction s arbitrary: i)
  case Nil
  then show ?case by (cases sub) (auto split: if_splits)
next
  case (Cons c cs)
  show ?case
  proof (cases "HasPrefix (c # cs) sub")
    case True
    then show ?thesis using Cons.prems by (cases sub) auto
  next
    case False
    with Cons.prems obtain j where j: "Index cs sub = Some j" "i = Suc j" by auto
    have "c # cs = (c # take j cs @ sub) @ drop (j + length sub) cs"
      using Index_split [OF j(1)] by simp
    then have "\<not> HasPrefix (c # take j cs @ sub) sub"
      using False HasPrefix_append_long [of sub "c # take j cs @ sub" "drop (j + length sub) cs"] by simp
    with Cons.IH [OF j(1)] j(2) show ?thesis by simp
  qed
qed

lemma LastIndex_single:
  "LastIndex s [c] = Some i \<longleftrightarrow> (\<exists>a b. s = a @ c # b \<and> c \<notin> set b \<and> i = length a)"
proof
  assume i: "LastIndex s [c] = Some i"
  then have "c \<in> set s" by (metis LastIndex_single_None option.distinct(1))
  then obtain a b where "s = a @ c # b" "c \<notin> set b" using split_list_last by metis
  moreover from this have "i = length a" using i by simp
  ultimately show "\<exists>a b. s = a @ c # b \<and> c \<notin> set b \<and> i = length a" by blast
qed auto

section \<open>Codecs\<close>

text \<open>
  A parser of references and their printed form: \<open>wf\<close> are the references it can return, \<open>canon\<close> what
  it makes no difference between.
\<close>

locale codec =
  fixes parse :: "string \<Rightarrow> 'r option" and render :: "'r \<Rightarrow> string" and wf :: "'r \<Rightarrow> bool" and canon :: "string \<Rightarrow> string"
  assumes parse_render: "wf r \<Longrightarrow> parse (render r) = Some r"
    and render_parse: "parse f = Some r \<Longrightarrow> wf r \<and> canon (render r) = canon f"
begin

lemma parses_iff: "(\<exists>f. parse f = Some r) \<longleftrightarrow> wf r"
  using parse_render render_parse by blast

lemma parse_inj: "parse f = Some r \<Longrightarrow> parse g = Some r \<Longrightarrow> canon f = canon g"
  using render_parse by metis

lemma render_inj: "wf r \<Longrightarrow> wf r' \<Longrightarrow> render r = render r' \<Longrightarrow> r = r'"
  using parse_render by (metis option.inject)

end

section \<open>helm and nuget\<close>

lemma versionFrom_append:
  "\<forall>x \<in> set xs. \<not> digitStart x \<Longrightarrow> digitStart y \<Longrightarrow> versionFrom i (xs @ y # ys) = Some (i + length xs)"
  by (induction xs arbitrary: i) auto

lemma versionFrom_Some:
  "versionFrom i ps = Some j \<Longrightarrow> \<exists>xs y ys. ps = xs @ y # ys \<and> (\<forall>x \<in> set xs. \<not> digitStart x) \<and> digitStart y \<and> j = i + length xs"
proof (induction ps arbitrary: i)
  case (Cons p ps)
  show ?case
  proof (cases "digitStart p")
    case True
    with Cons.prems show ?thesis by (intro exI [of _ "[]"] exI [of _ p] exI [of _ ps]) auto
  next
    case False
    with Cons.prems Cons.IH [of "Suc i"] obtain xs y ys where
      "ps = xs @ y # ys" "\<forall>x \<in> set xs. \<not> digitStart x" "digitStart y" "j = Suc i + length xs" by auto
    with False show ?thesis by (intro exI [of _ "p # xs"]) auto
  qed
qed simp

lemma hd_Join: "y \<noteq> [] \<Longrightarrow> hd (Join (y # ys) sep) = hd y \<and> Join (y # ys) sep \<noteq> []"
  by (cases ys) auto

lemma Split_digitStart:
  assumes "digitStart v" and "\<not> is_digit c"
  shows "\<exists>y ys. Split v c = y # ys \<and> digitStart y"
  using assms by (cases v) (auto simp: digitStart_def split: list.split)

lemma splitVersion_iff:
  assumes "\<not> is_digit c"
  shows "splitVersion c base = Some (n, v) \<longleftrightarrow>
     base = n @ c # v \<and> n \<noteq> [] \<and> digitStart v \<and> (\<forall>p \<in> set (tl (Split n c)). \<not> digitStart p)"
proof
  assume s: "splitVersion c base = Some (n, v)"
  define parts where "parts = Split base c"
  from s obtain i where i: "versionIdx parts = Some i" "2 \<le> length parts"
    and nv: "n = Join (take i parts) [c]" "v = Join (drop i parts) [c]" "n \<noteq> []"
    by (auto simp: splitVersion_def Let_def parts_def split: if_splits option.splits)
  obtain p0 ps where p: "parts = p0 # ps" using i(2) by (cases parts) auto
  from i(1) p obtain xs y ys where ps: "ps = xs @ y # ys" "\<forall>x \<in> set xs. \<not> digitStart x" "digitStart y" "i = Suc (length xs)"
    using versionFrom_Some [of 1 ps i] by (auto simp: versionIdx_def)
  have n: "n = Join (p0 # xs) [c]" and v: "v = Join (y # ys) [c]" using nv p ps by simp_all
  have free: "\<forall>x \<in> set parts. c \<notin> set x" and base: "base = Join parts [c]"
    using Split_iff [of base c parts] by (auto simp: parts_def)
  have "Split n c = p0 # xs" unfolding Split_iff using n free p ps by auto
  moreover have "base = n @ c # v"
    using Join_append [of "p0 # xs" "y # ys" "[c]"] by (simp add: base p ps n v)
  moreover have "digitStart v" using ps(3) hd_Join [of y ys] by (auto simp: v digitStart_def)
  ultimately show "base = n @ c # v \<and> n \<noteq> [] \<and> digitStart v \<and> (\<forall>p \<in> set (tl (Split n c)). \<not> digitStart p)"
    using nv(3) ps(2) by simp
next
  assume r: "base = n @ c # v \<and> n \<noteq> [] \<and> digitStart v \<and> (\<forall>p \<in> set (tl (Split n c)). \<not> digitStart p)"
  then obtain y ys where y: "Split v c = y # ys" "digitStart y" using Split_digitStart assms by blast
  obtain p0 xs where x: "Split n c = p0 # xs" by (cases "Split n c") auto
  have parts: "Split base c = (p0 # xs) @ y # ys" using r x y by (simp add: Split_append)
  have "versionIdx (Split base c) = Some (length (p0 # xs))"
    using versionFrom_append [of xs y 1 ys] r x y unfolding parts versionIdx_def by simp
  moreover have "Join (p0 # xs) [c] = n" "Join (y # ys) [c] = v" using x y Join_Split by metis+
  moreover have "v \<noteq> []" using r by (auto simp: digitStart_def)
  ultimately show "splitVersion c base = Some (n, v)"
    using r unfolding splitVersion_def Let_def parts by simp
qed

definition versioned :: "char \<Rightarrow> string \<Rightarrow> string \<Rightarrow> bool" where
  "versioned c n v \<longleftrightarrow> n \<noteq> [] \<and> digitStart v \<and> (\<forall>p \<in> set (tl (Split n c)). \<not> digitStart p)"

interpretation chart: codec ParseChartFilename "\<lambda>r. crName r @ ''-'' @ crVersion r @ ''.tgz''"
  "\<lambda>r. versioned (CHR ''-'') (crName r) (crVersion r)" "\<lambda>f. f"
proof unfold_locales
  have d: "\<not> is_digit (CHR ''-'')" by code_simp
  fix r :: ChartRef and f
  have "CutSuffix (crName r @ ''-'' @ crVersion r @ ''.tgz'') ''.tgz'' = Some (crName r @ CHR ''-'' # crVersion r)"
    using CutSuffix_append [of "crName r @ CHR ''-'' # crVersion r" "''.tgz''"] by simp
  then show "versioned (CHR ''-'') (crName r) (crVersion r) \<Longrightarrow> ParseChartFilename (crName r @ ''-'' @ crVersion r @ ''.tgz'') = Some r"
    using splitVersion_iff [OF d, of "crName r @ CHR ''-'' # crVersion r" "crName r" "crVersion r"]
    by (simp add: ParseChartFilename_def versioned_def)
  show "ParseChartFilename f = Some r \<Longrightarrow>
      versioned (CHR ''-'') (crName r) (crVersion r) \<and> crName r @ ''-'' @ crVersion r @ ''.tgz'' = f"
    by (auto simp: ParseChartFilename_def versioned_def splitVersion_iff [OF d] CutSuffix_Some split: option.splits)
qed

interpretation nupkg: codec nuget_ParsePackageFilename "\<lambda>r. ngID r @ ''.'' @ ngVersion r @ ''.nupkg''"
  "\<lambda>r. versioned (CHR ''.'') (ngID r) (ngVersion r)" "\<lambda>f. f"
proof unfold_locales
  have d: "\<not> is_digit (CHR ''.'')" by code_simp
  fix r :: NugetRef and f
  have "CutSuffix (ngID r @ ''.'' @ ngVersion r @ ''.nupkg'') ''.nupkg'' = Some (ngID r @ CHR ''.'' # ngVersion r)"
    using CutSuffix_append [of "ngID r @ CHR ''.'' # ngVersion r" "''.nupkg''"] by simp
  then show "versioned (CHR ''.'') (ngID r) (ngVersion r) \<Longrightarrow> nuget_ParsePackageFilename (ngID r @ ''.'' @ ngVersion r @ ''.nupkg'') = Some r"
    using splitVersion_iff [OF d, of "ngID r @ CHR ''.'' # ngVersion r" "ngID r" "ngVersion r"]
    by (simp add: nuget_ParsePackageFilename_def versioned_def)
  show "nuget_ParsePackageFilename f = Some r \<Longrightarrow>
      versioned (CHR ''.'') (ngID r) (ngVersion r) \<and> ngID r @ ''.'' @ ngVersion r @ ''.nupkg'' = f"
    by (auto simp: nuget_ParsePackageFilename_def versioned_def splitVersion_iff [OF d] CutSuffix_Some split: option.splits)
qed

section \<open>debian and rpm\<close>

definition debFilename :: "DebRef \<Rightarrow> string" where
  "debFilename r = dName r @ ''_'' @ dVersion r @ ''_'' @ dArchitecture r @ ''.deb''"

definition deb_wf :: "DebRef \<Rightarrow> bool" where
  "deb_wf r \<longleftrightarrow> (\<forall>x \<in> {dName r, dVersion r, dArchitecture r}. x \<noteq> [] \<and> CHR ''_'' \<notin> set x)"

lemma debian_parse_iff:
  "debian_ParsePackageFilename f = Some r \<longleftrightarrow> f = debFilename r \<and> deb_wf r"
proof -
  have "debian_ParsePackageFilename f = Some r \<longleftrightarrow>
      (\<exists>base. f = base @ ''.deb'' \<and> Split base (CHR ''_'') = [dName r, dVersion r, dArchitecture r] \<and>
        dName r \<noteq> [] \<and> dVersion r \<noteq> [] \<and> dArchitecture r \<noteq> [])"
    by (auto simp: debian_ParsePackageFilename_def CutSuffix_Some [symmetric] split: option.splits list.splits if_splits)
  also have "\<dots> \<longleftrightarrow> f = debFilename r \<and> deb_wf r"
    by (auto simp: Split_iff debFilename_def deb_wf_def)
  finally show ?thesis .
qed

interpretation deb: codec debian_ParsePackageFilename debFilename deb_wf "\<lambda>f. f"
  by unfold_locales (simp_all add: debian_parse_iff)

definition rpmFilename :: "RpmRef \<Rightarrow> string" where
  "rpmFilename r = rpName r @ ''-'' @ rpVersion r @ ''-'' @ rpRelease r @ ''.'' @ rpArchitecture r @ ''.rpm''"

definition rpm_wf :: "RpmRef \<Rightarrow> bool" where
  "rpm_wf r \<longleftrightarrow> rpName r \<noteq> [] \<and> (\<forall>x \<in> {rpVersion r, rpRelease r}. x \<noteq> [] \<and> CHR ''-'' \<notin> set x) \<and>
               rpArchitecture r \<in> set knownArchitectures"

lemma knownArchitectures_dotless: "a \<in> set knownArchitectures \<Longrightarrow> a \<noteq> [] \<and> CHR ''.'' \<notin> set a"
  by (auto simp: knownArchitectures_def)

lemma last_two:
  assumes "3 \<le> length xs"
  shows "xs = take (length xs - 2) xs @ [xs ! (length xs - 2), xs ! (length xs - 1)]" and "take (length xs - 2) xs \<noteq> []"
proof -
  obtain b ys where 1: "xs = ys @ [b]" using assms by (cases xs rule: rev_cases) auto
  obtain a zs where 2: "ys = zs @ [a]" using assms 1 by (cases ys rule: rev_cases) auto
  show "xs = take (length xs - 2) xs @ [xs ! (length xs - 2), xs ! (length xs - 1)]" "take (length xs - 2) xs \<noteq> []"
    using assms by (auto simp: 1 2 nth_append)
qed

lemma rpm_split:
  "(let parts = Split s (CHR ''-''); n = length parts
    in 3 \<le> n \<and> name = Join (take (n - 2) parts) ''-'' \<and> version = parts ! (n - 2) \<and> release = parts ! (n - 1)) \<longleftrightarrow>
   s = name @ ''-'' @ version @ ''-'' @ release \<and> CHR ''-'' \<notin> set version \<and> CHR ''-'' \<notin> set release"
proof
  define parts where "parts = Split s (CHR ''-'')"
  assume "let parts = Split s (CHR ''-''); n = length parts
    in 3 \<le> n \<and> name = Join (take (n - 2) parts) ''-'' \<and> version = parts ! (n - 2) \<and> release = parts ! (n - 1)"
  then have n: "3 \<le> length parts" and d: "name = Join (take (length parts - 2) parts) ''-''"
      "version = parts ! (length parts - 2)" "release = parts ! (length parts - 1)"
    by (simp_all add: parts_def Let_def)
  have s: "s = Join parts ''-''" and free: "\<forall>x \<in> set parts. CHR ''-'' \<notin> set x"
    using Split_iff [of s "CHR ''-''" parts] by (auto simp: parts_def)
  have "parts = take (length parts - 2) parts @ [version, release]"
    unfolding d(2,3) by (rule last_two(1) [OF n])
  from arg_cong [OF this, of "\<lambda>x. Join x ''-''"]
  have "Join parts ''-'' = Join (take (length parts - 2) parts) ''-'' @ ''-'' @ Join [version, release] ''-''"
    unfolding Join_append [OF last_two(2) [OF n] list.distinct(2)] .
  then have "s = name @ ''-'' @ version @ ''-'' @ release" by (simp add: s d(1))
  moreover have "version \<in> set parts" "release \<in> set parts" using n d(2,3) by auto
  ultimately show "s = name @ ''-'' @ version @ ''-'' @ release \<and> CHR ''-'' \<notin> set version \<and> CHR ''-'' \<notin> set release"
    using free by blast
next
  assume a: "s = name @ ''-'' @ version @ ''-'' @ release \<and> CHR ''-'' \<notin> set version \<and> CHR ''-'' \<notin> set release"
  then have "Split s (CHR ''-'') = Split name (CHR ''-'') @ [version, release]"
    by (simp add: Split_append Split_append_sep Split_free)
  moreover obtain x xs where "Split name (CHR ''-'') = x # xs" by (cases "Split name (CHR ''-'')") auto
  moreover have "Join (Split name (CHR ''-'')) ''-'' = name" by simp
  ultimately show "let parts = Split s (CHR ''-''); n = length parts
    in 3 \<le> n \<and> name = Join (take (n - 2) parts) ''-'' \<and> version = parts ! (n - 2) \<and> release = parts ! (n - 1)"
    by (auto simp: Let_def nth_append)
qed

lemma rpm_parse_iff: "rpm_ParsePackageFilename f = Some r \<longleftrightarrow> f = rpmFilename r \<and> rpm_wf r"
proof
  assume "rpm_ParsePackageFilename f = Some r"
  then obtain base i where f: "f = base @ ''.rpm''" and i: "LastIndex base ''.'' = Some i"
    and ar: "rpArchitecture r = drop (i + 1) base" "rpArchitecture r \<in> set knownArchitectures"
    and rest: "let parts = Split (take i base) (CHR ''-''); n = length parts
      in 3 \<le> n \<and> rpName r = Join (take (n - 2) parts) ''-'' \<and> rpVersion r = parts ! (n - 2) \<and> rpRelease r = parts ! (n - 1)"
    and ne: "rpName r \<noteq> []" "rpVersion r \<noteq> []" "rpRelease r \<noteq> []"
    by (auto simp: rpm_ParsePackageFilename_def CutSuffix_Some Let_def split: option.splits if_splits)
  from i obtain a b where "base = a @ CHR ''.'' # b" "i = length a" unfolding LastIndex_single by blast
  with f ar rest [unfolded rpm_split] ne show "f = rpmFilename r \<and> rpm_wf r"
    by (simp add: rpmFilename_def rpm_wf_def)
next
  assume a: "f = rpmFilename r \<and> rpm_wf r"
  define rest where "rest = rpName r @ ''-'' @ rpVersion r @ ''-'' @ rpRelease r"
  define base where "base = rest @ CHR ''.'' # rpArchitecture r"
  have ar: "rpArchitecture r \<noteq> []" "CHR ''.'' \<notin> set (rpArchitecture r)" "rpArchitecture r \<in> set knownArchitectures"
    using a knownArchitectures_dotless by (auto simp: rpm_wf_def)
  have cs: "CutSuffix f ''.rpm'' = Some base"
    using a CutSuffix_append [of base "''.rpm''"] by (simp add: rpmFilename_def base_def rest_def)
  have li: "LastIndex base ''.'' = Some (length rest)" unfolding base_def using ar(2) by simp
  have sp: "let parts = Split rest (CHR ''-''); n = length parts
      in 3 \<le> n \<and> rpName r = Join (take (n - 2) parts) ''-'' \<and> rpVersion r = parts ! (n - 2) \<and> rpRelease r = parts ! (n - 1)"
    unfolding rpm_split using a by (simp add: rest_def rpm_wf_def)
  have "rest \<noteq> []" "length rest + 1 \<noteq> length base" using ar(1) by (simp_all add: rest_def base_def)
  then show "rpm_ParsePackageFilename f = Some r"
    using cs li sp a ar by (auto simp: rpm_ParsePackageFilename_def base_def rpm_wf_def Let_def)
qed

interpretation rpmfile: codec rpm_ParsePackageFilename rpmFilename rpm_wf "\<lambda>f. f"
  by unfold_locales (simp_all add: rpm_parse_iff)

section \<open>npm\<close>

definition npmKey :: "NpmRef \<Rightarrow> string" where
  "npmKey r = FullName r @ (if nVersion r = [] then [] else ''/-/'' @ nName r @ ''-'' @ nVersion r @ ''.tgz'')"

definition npm_wf :: "NpmRef \<Rightarrow> bool" where
  "npm_wf r \<longleftrightarrow>
     nName r \<noteq> [] \<and> (if nScope r = [] then hd (nName r) \<noteq> CHR ''@'' else CHR ''/'' \<notin> set (nScope r)) \<and>
     (if nVersion r = [] then CHR ''/'' \<notin> set (nName r) else Index (nName r @ ''/-/'') ''/-/'' = Some (length (nName r)))"

lemma npmScope_Some:
  "npmScope key = Some (sc, rest) \<longleftrightarrow>
     (if sc = [] then key = rest \<and> \<not> HasPrefix key ''@'' else key = ''@'' @ sc @ ''/'' @ rest \<and> CHR ''/'' \<notin> set sc)"
proof (cases "HasPrefix key ''@''")
  case False
  then show ?thesis by (auto simp: npmScope_def)
next
  case True
  then obtain t where t: "key = CHR ''@'' # t" by (auto simp: HasPrefix_iff)
  show ?thesis
  proof
    assume "npmScope key = Some (sc, rest)"
    then obtain sp where "Cut key ''/'' = Some (sp, rest)" "sp \<noteq> ''@''" "sc = TrimPrefix sp ''@''"
      using True by (auto simp: npmScope_def split: option.splits if_splits)
    moreover from this obtain u where "sp = CHR ''@'' # u" by (cases sp) (auto simp: Cut_slash t)
    ultimately show "if sc = [] then key = rest \<and> \<not> HasPrefix key ''@'' else key = ''@'' @ sc @ ''/'' @ rest \<and> CHR ''/'' \<notin> set sc"
      by (auto simp: Cut_slash)
  next
    assume a: "if sc = [] then key = rest \<and> \<not> HasPrefix key ''@'' else key = ''@'' @ sc @ ''/'' @ rest \<and> CHR ''/'' \<notin> set sc"
    with True have s: "sc \<noteq> []" "key = (CHR ''@'' # sc) @ CHR ''/'' # rest" "CHR ''/'' \<notin> set sc" by (auto split: if_splits)
    then have "Cut key ''/'' = Some (CHR ''@'' # sc, rest)" by (simp add: Cut_slash)
    with True s(1) show "npmScope key = Some (sc, rest)" by (simp add: npmScope_def)
  qed
qed

text \<open>A tarball name that begins with \<^verbatim>\<open>name-\<close> and ends in \<^verbatim>\<open>.tgz\<close> has the version in between.\<close>

lemma tarball_split:
  assumes "HasSuffix t ''.tgz''" and "HasPrefix t (n @ ''-'')"
  shows "t = n @ ''-'' @ TrimSuffix (TrimPrefix t (n @ ''-'')) ''.tgz'' @ ''.tgz''"
proof -
  obtain u where u: "t = u @ ''.tgz''" using assms(1) by (auto simp: HasSuffix_iff)
  obtain v where v: "t = (n @ ''-'') @ v" using assms(2) by (auto simp: HasPrefix_iff)
  have "HasSuffix v ''.tgz''"
  proof -
    from u v have e: "(n @ ''-'') @ v = u @ ''.tgz''" by simp
    obtain w where "n @ ''-'' = u @ w \<and> w @ v = ''.tgz'' \<or> (n @ ''-'') @ w = u \<and> v = w @ ''.tgz''"
      using append_eq_append_conv2 [THEN iffD1, OF e] by blast
    then show ?thesis
    proof
      assume w: "n @ ''-'' = u @ w \<and> w @ v = ''.tgz''"
      show ?thesis
      proof (cases w rule: rev_cases)
        case Nil
        with w show ?thesis by (simp add: HasSuffix_iff)
      next
        case (snoc w' x)
        with w have "x = CHR ''-''" by auto
        with w snoc have "CHR ''-'' \<in> set ''.tgz''" by (metis in_set_conv_decomp append_Cons append_assoc)
        then show ?thesis by simp
      qed
    qed (auto simp: HasSuffix_iff)
  qed
  then obtain w where "v = w @ ''.tgz''" by (auto simp: HasSuffix_iff)
  then have "t = (n @ ''-'') @ w @ ''.tgz''" using v by simp
  then show ?thesis by (metis TrimPrefix_append TrimSuffix_append append_assoc)
qed

lemma npmNameVersion_iff:
  "npmNameVersion key = Some (name, version) \<longleftrightarrow>
   name \<noteq> [] \<and>
   (if version = [] then key = name \<and> CHR ''/'' \<notin> set name
    else key = name @ ''/-/'' @ name @ ''-'' @ version @ ''.tgz'' \<and> Index (name @ ''/-/'') ''/-/'' = Some (length name))"
  (is "?l = _ \<longleftrightarrow> ?r")
proof
  assume l: "?l = Some (name, version)"
  show ?r
  proof (cases "Index key ''/-/''")
    case None
    with l show ?thesis by (auto simp: npmNameVersion_def Contains_def Index_single_None split: if_splits)
  next
    case (Some idx)
    have n: "name = take idx key" "name \<noteq> []" "version \<noteq> []"
      and t: "HasSuffix (drop (idx + 3) key) ''.tgz''" "HasPrefix (drop (idx + 3) key) (name @ ''-'')"
      and v: "version = TrimSuffix (TrimPrefix (drop (idx + 3) key) (name @ ''-'')) ''.tgz''"
      using l Some by (auto simp: npmNameVersion_def Let_def split: if_splits)
    have k: "key = name @ ''/-/'' @ drop (idx + 3) key" using Index_split [OF Some] n(1) by (simp add: numeral_3_eq_3)
    have "length name = idx" using Index_Some_bound [OF Some] n(1) by simp
    with Index_first [OF Some] n(1) have "Index (name @ ''/-/'') ''/-/'' = Some (length name)" by simp
    with k tarball_split [OF t] v n show ?thesis by simp
  qed
next
  assume r: ?r
  show "?l = Some (name, version)"
  proof (cases "version = []")
    case True
    with r have k: "key = name" "CHR ''/'' \<notin> set name" "name \<noteq> []" by auto
    then have "Index key ''/-/'' = None"
      using Index_split [of key "''/-/''"] by (cases "Index key ''/-/''") (auto, metis append_Cons in_set_conv_decomp)
    with k True show ?thesis by (simp add: npmNameVersion_def Contains_def Index_single_None)
  next
    case False
    define tb where "tb = (name @ ''-'') @ version @ ''.tgz''"
    from r False have k: "key = (name @ ''/-/'') @ tb" and i: "Index (name @ ''/-/'') ''/-/'' = Some (length name)" and n: "name \<noteq> []"
      by (simp_all add: tb_def)
    have "Index key ''/-/'' = Some (length name)" unfolding k by (rule Index_append [OF i])
    moreover have "take (length name) key = name" "drop (length name + 3) key = tb" by (simp_all add: k)
    moreover have "HasSuffix tb ''.tgz''" by (auto simp: HasSuffix_iff tb_def)
    moreover have "HasPrefix tb (name @ ''-'')" "TrimPrefix tb (name @ ''-'') = version @ ''.tgz''"
      unfolding tb_def by (rule HasPrefix_append, rule TrimPrefix_append)
    moreover have "tb \<noteq> []" by (simp add: tb_def)
    ultimately show ?thesis using n False by (simp add: npmNameVersion_def Let_def)
  qed
qed

lemma npm_ParseKey_split:
  "npm_ParseKey f = Some r \<longleftrightarrow>
     (\<exists>key. npmScope (TrimPrefix f ''/'') = Some (nScope r, key) \<and> npmNameVersion key = Some (nName r, nVersion r))"
  by (cases r) (auto simp: npm_ParseKey_def split: option.splits)

interpretation npmref: codec npm_ParseKey "\<lambda>r. ''/'' @ npmKey r" npm_wf "\<lambda>f. TrimPrefix f ''/''"
proof unfold_locales
  fix r :: NpmRef and f
  have head: "HasPrefix (nName r @ t) ''@'' \<longleftrightarrow> hd (nName r) = CHR ''@''" if "nName r \<noteq> []" for t
    using that by (cases "nName r") auto
  assume w: "npm_wf r"
  define key where "key = nName r @ (if nVersion r = [] then [] else ''/-/'' @ nName r @ ''-'' @ nVersion r @ ''.tgz'')"
  have "npmScope (npmKey r) = Some (nScope r, key)"
    using w head unfolding npmScope_Some by (auto simp: npm_wf_def npmKey_def FullName_def key_def)
  moreover have "npmNameVersion key = Some (nName r, nVersion r)"
    unfolding npmNameVersion_iff using w by (auto simp: npm_wf_def key_def)
  ultimately show "npm_ParseKey (''/'' @ npmKey r) = Some r"
    unfolding npm_ParseKey_split by (intro exI [of _ key]) simp
next
  fix r :: NpmRef and f
  assume "npm_ParseKey f = Some r"
  then obtain key where k: "npmScope (TrimPrefix f ''/'') = Some (nScope r, key)" and n: "nName r \<noteq> []"
    and b: "if nVersion r = [] then key = nName r \<and> CHR ''/'' \<notin> set (nName r)
         else key = nName r @ ''/-/'' @ nName r @ ''-'' @ nVersion r @ ''.tgz'' \<and>
              Index (nName r @ ''/-/'') ''/-/'' = Some (length (nName r))"
    unfolding npm_ParseKey_split npmNameVersion_iff by blast
  have key: "key = nName r @ (if nVersion r = [] then [] else ''/-/'' @ nName r @ ''-'' @ nVersion r @ ''.tgz'')"
    using b by (simp split: if_splits)
  have "TrimPrefix f ''/'' = npmKey r"
    using k unfolding npmScope_Some key npmKey_def FullName_def by (simp split: if_splits)
  moreover have "if nScope r = [] then hd (nName r) \<noteq> CHR ''@'' else CHR ''/'' \<notin> set (nScope r)"
    using k n unfolding npmScope_Some key by (cases "nName r") (auto split: if_splits)
  moreover have "if nVersion r = [] then CHR ''/'' \<notin> set (nName r) else Index (nName r @ ''/-/'') ''/-/'' = Some (length (nName r))"
    using b by (simp split: if_splits)
  ultimately show "npm_wf r \<and> TrimPrefix (''/'' @ npmKey r) ''/'' = TrimPrefix f ''/''"
    using n unfolding npm_wf_def by simp
qed

section \<open>terraform\<close>

lemma trimPrefixSegments_iff:
  "trimPrefixSegments f p = Some xs \<longleftrightarrow>
     TrimPrefix f ''/'' = p @ Join xs ''/'' \<and> xs \<noteq> [] \<and> (\<forall>x \<in> set xs. slash_free x)"
  by (auto simp: trimPrefixSegments_def CutPrefix_Some Split_iff slash_free_def)

definition segments_wf :: "string list \<Rightarrow> bool" where
  "segments_wf xs \<longleftrightarrow> (\<forall>x \<in> set xs. x \<noteq> [] \<and> slash_free x)"

lemma slash_free_words [simp]: "slash_free ''versions''" "slash_free ''download''"
  by (simp_all add: slash_free_def)

interpretation provider_versions: codec ParseProviderVersionsPath
  "\<lambda>r. ''/v1/providers/'' @ Join [pNamespace r, pType r, ''versions''] ''/''"
  "\<lambda>r. segments_wf [pNamespace r, pType r]" "\<lambda>f. TrimPrefix f ''/''"
proof unfold_locales
  fix r :: ProviderRef and f
  have "trimPrefixSegments (''/v1/providers/'' @ Join [pNamespace r, pType r, ''versions''] ''/'') ''v1/providers/'' =
      Some [pNamespace r, pType r, ''versions'']" if "segments_wf [pNamespace r, pType r]"
    unfolding trimPrefixSegments_iff using that by (simp add: segments_wf_def)
  then show "segments_wf [pNamespace r, pType r] \<Longrightarrow>
      ParseProviderVersionsPath (''/v1/providers/'' @ Join [pNamespace r, pType r, ''versions''] ''/'') = Some r"
    by (simp add: ParseProviderVersionsPath_def segments_wf_def)
  assume "ParseProviderVersionsPath f = Some r"
  then have "trimPrefixSegments f ''v1/providers/'' = Some [pNamespace r, pType r, ''versions'']"
    and "pNamespace r \<noteq> []" "pType r \<noteq> []"
    by (auto simp: ParseProviderVersionsPath_def split: option.splits list.splits if_splits)
  then show "segments_wf [pNamespace r, pType r] \<and>
      TrimPrefix (''/v1/providers/'' @ Join [pNamespace r, pType r, ''versions''] ''/'') ''/'' = TrimPrefix f ''/''"
    unfolding trimPrefixSegments_iff by (simp add: segments_wf_def)
qed

definition providerDownloadSegments :: "ProviderDownloadRef \<Rightarrow> string list" where
  "providerDownloadSegments r =
     [pNamespace (pdProvider r), pType (pdProvider r), pdVersion r, ''download'', pdOS r, pdArch r]"

interpretation provider_download: codec ParseProviderDownloadPath
  "\<lambda>r. ''/v1/providers/'' @ Join (providerDownloadSegments r) ''/''"
  "\<lambda>r. segments_wf (providerDownloadSegments r)" "\<lambda>f. TrimPrefix f ''/''"
proof unfold_locales
  fix r :: ProviderDownloadRef and f
  have "trimPrefixSegments (''/v1/providers/'' @ Join (providerDownloadSegments r) ''/'') ''v1/providers/'' =
      Some (providerDownloadSegments r)" if "segments_wf (providerDownloadSegments r)"
    unfolding trimPrefixSegments_iff using that by (simp add: segments_wf_def providerDownloadSegments_def)
  then show "segments_wf (providerDownloadSegments r) \<Longrightarrow>
      ParseProviderDownloadPath (''/v1/providers/'' @ Join (providerDownloadSegments r) ''/'') = Some r"
    by (simp add: ParseProviderDownloadPath_def segments_wf_def) (auto simp: providerDownloadSegments_def)
  assume "ParseProviderDownloadPath f = Some r"
  then have "trimPrefixSegments f ''v1/providers/'' = Some (providerDownloadSegments r)"
    and "\<forall>x \<in> set (providerDownloadSegments r). x \<noteq> []"
    by (auto simp: ParseProviderDownloadPath_def providerDownloadSegments_def split: option.splits list.splits if_splits)
  then show "segments_wf (providerDownloadSegments r) \<and>
      TrimPrefix (''/v1/providers/'' @ Join (providerDownloadSegments r) ''/'') ''/'' = TrimPrefix f ''/''"
    unfolding trimPrefixSegments_iff by (simp add: segments_wf_def)
qed

definition moduleVersionsSegments :: "ModuleRef \<Rightarrow> string list" where
  "moduleVersionsSegments r = [moNamespace r, moName r, moSystem r, ''versions'']"

interpretation module_versions: codec ParseModuleVersionsPath
  "\<lambda>r. ''/v1/modules/'' @ Join (moduleVersionsSegments r) ''/''"
  "\<lambda>r. segments_wf (moduleVersionsSegments r)" "\<lambda>f. TrimPrefix f ''/''"
proof unfold_locales
  fix r :: ModuleRef and f
  have "trimPrefixSegments (''/v1/modules/'' @ Join (moduleVersionsSegments r) ''/'') ''v1/modules/'' =
      Some (moduleVersionsSegments r)" if "segments_wf (moduleVersionsSegments r)"
    unfolding trimPrefixSegments_iff using that by (simp add: segments_wf_def moduleVersionsSegments_def)
  then show "segments_wf (moduleVersionsSegments r) \<Longrightarrow>
      ParseModuleVersionsPath (''/v1/modules/'' @ Join (moduleVersionsSegments r) ''/'') = Some r"
    by (simp add: ParseModuleVersionsPath_def segments_wf_def) (auto simp: moduleVersionsSegments_def)
  assume "ParseModuleVersionsPath f = Some r"
  then have "trimPrefixSegments f ''v1/modules/'' = Some (moduleVersionsSegments r)"
    and "\<forall>x \<in> set (moduleVersionsSegments r). x \<noteq> []"
    by (auto simp: ParseModuleVersionsPath_def moduleVersionsSegments_def split: option.splits list.splits if_splits)
  then show "segments_wf (moduleVersionsSegments r) \<and>
      TrimPrefix (''/v1/modules/'' @ Join (moduleVersionsSegments r) ''/'') ''/'' = TrimPrefix f ''/''"
    unfolding trimPrefixSegments_iff by (simp add: segments_wf_def)
qed

definition moduleDownloadSegments :: "ModuleDownloadRef \<Rightarrow> string list" where
  "moduleDownloadSegments r =
     [moNamespace (mdModule r), moName (mdModule r), moSystem (mdModule r), mdVersion r, ''download'']"

interpretation module_download: codec ParseModuleDownloadPath
  "\<lambda>r. ''/v1/modules/'' @ Join (moduleDownloadSegments r) ''/''"
  "\<lambda>r. segments_wf (moduleDownloadSegments r)" "\<lambda>f. TrimPrefix f ''/''"
proof unfold_locales
  fix r :: ModuleDownloadRef and f
  have "trimPrefixSegments (''/v1/modules/'' @ Join (moduleDownloadSegments r) ''/'') ''v1/modules/'' =
      Some (moduleDownloadSegments r)" if "segments_wf (moduleDownloadSegments r)"
    unfolding trimPrefixSegments_iff using that by (simp add: segments_wf_def moduleDownloadSegments_def)
  then show "segments_wf (moduleDownloadSegments r) \<Longrightarrow>
      ParseModuleDownloadPath (''/v1/modules/'' @ Join (moduleDownloadSegments r) ''/'') = Some r"
    by (simp add: ParseModuleDownloadPath_def segments_wf_def) (auto simp: moduleDownloadSegments_def)
  assume "ParseModuleDownloadPath f = Some r"
  then have "trimPrefixSegments f ''v1/modules/'' = Some (moduleDownloadSegments r)"
    and "\<forall>x \<in> set (moduleDownloadSegments r). x \<noteq> []"
    by (auto simp: ParseModuleDownloadPath_def moduleDownloadSegments_def split: option.splits list.splits if_splits)
  then show "segments_wf (moduleDownloadSegments r) \<and>
      TrimPrefix (''/v1/modules/'' @ Join (moduleDownloadSegments r) ''/'') ''/'' = TrimPrefix f ''/''"
    unfolding trimPrefixSegments_iff by (simp add: segments_wf_def)
qed

section \<open>docker\<close>

lemma LastIndex_split: "LastIndex s sub = Some i \<Longrightarrow> s = take i s @ sub @ drop (i + length sub) s"
  using LastIndex_bound [of s sub i] append_take_drop_id [of i s] append_take_drop_id [of "length sub" "drop i s"]
  by (simp add: add.commute)

text \<open>The last marker of the path separates name and value.\<close>

definition v2_wf :: "string \<Rightarrow> string \<Rightarrow> string \<Rightarrow> bool" where
  "v2_wf marker n v \<longleftrightarrow> n \<noteq> [] \<and> v \<noteq> [] \<and> LastIndex (n @ marker @ v) marker = Some (length n)"

lemma TrimPrefix_v2 [simp]: "TrimPrefix (CHR ''v'' # CHR ''2'' # CHR ''/'' # t) ''v2/'' = t"
  by (simp add: TrimPrefix_def)

lemma parseV2Path_iff:
  "parseV2Path f marker = Some (n, v) \<longleftrightarrow> TrimPrefix f ''/'' = ''v2/'' @ n @ marker @ v \<and> v2_wf marker n v"
proof
  assume "parseV2Path f marker = Some (n, v)"
  then obtain rest i where r: "TrimPrefix f ''/'' = ''v2/'' @ rest" and i: "LastIndex rest marker = Some i" "i \<noteq> 0"
    and nv: "n = take i rest" "v = drop (i + length marker) rest" "n \<noteq> []" "v \<noteq> []"
    by (auto simp: parseV2Path_def Let_def HasPrefix_iff split: option.splits if_splits)
  have rest: "rest = n @ marker @ v" using LastIndex_split [OF i(1)] nv by simp
  moreover have "length n = i" using LastIndex_bound [OF i(1)] nv(1) by simp
  ultimately show "TrimPrefix f ''/'' = ''v2/'' @ n @ marker @ v \<and> v2_wf marker n v"
    using r i nv by (simp add: v2_wf_def)
next
  assume "TrimPrefix f ''/'' = ''v2/'' @ n @ marker @ v \<and> v2_wf marker n v"
  then have p: "TrimPrefix f ''/'' = ''v2/'' @ n @ marker @ v"
    and w: "n \<noteq> []" "v \<noteq> []" "LastIndex (n @ marker @ v) marker = Some (length n)" by (auto simp: v2_wf_def)
  have "HasPrefix (TrimPrefix f ''/'') ''v2/''" "TrimPrefix (TrimPrefix f ''/'') ''v2/'' = n @ marker @ v"
    unfolding p by (rule HasPrefix_append, rule TrimPrefix_append)
  with w show "parseV2Path f marker = Some (n, v)" by (simp add: parseV2Path_def Let_def)
qed

interpretation docker_manifest: codec ParseManifestPath
  "\<lambda>r. ''/v2/'' @ mrName r @ ''/manifests/'' @ mrReference r"
  "\<lambda>r. v2_wf ''/manifests/'' (mrName r) (mrReference r)" "\<lambda>f. TrimPrefix f ''/''"
proof unfold_locales
  have iff: "ParseManifestPath f = Some r \<longleftrightarrow> parseV2Path f ''/manifests/'' = Some (mrName r, mrReference r)" for f r
    by (cases r) (auto simp: ParseManifestPath_def split: option.splits)
  show "v2_wf ''/manifests/'' (mrName r) (mrReference r) \<Longrightarrow>
      ParseManifestPath (''/v2/'' @ mrName r @ ''/manifests/'' @ mrReference r) = Some r" for r
    unfolding iff parseV2Path_iff by simp
  show "ParseManifestPath f = Some r \<Longrightarrow> v2_wf ''/manifests/'' (mrName r) (mrReference r) \<and>
      TrimPrefix (''/v2/'' @ mrName r @ ''/manifests/'' @ mrReference r) ''/'' = TrimPrefix f ''/''" for f r
    unfolding iff parseV2Path_iff by simp
qed

interpretation docker_blob: codec ParseBlobPath
  "\<lambda>r. ''/v2/'' @ brName r @ ''/blobs/'' @ brDigest r"
  "\<lambda>r. v2_wf ''/blobs/'' (brName r) (brDigest r) \<and> IsDigest (brDigest r)" "\<lambda>f. TrimPrefix f ''/''"
proof unfold_locales
  have iff: "ParseBlobPath f = Some r \<longleftrightarrow> parseV2Path f ''/blobs/'' = Some (brName r, brDigest r) \<and> IsDigest (brDigest r)" for f r
    by (cases r) (auto simp: ParseBlobPath_def split: option.splits if_splits)
  show "v2_wf ''/blobs/'' (brName r) (brDigest r) \<and> IsDigest (brDigest r) \<Longrightarrow>
      ParseBlobPath (''/v2/'' @ brName r @ ''/blobs/'' @ brDigest r) = Some r" for r
    unfolding iff parseV2Path_iff by simp
  show "ParseBlobPath f = Some r \<Longrightarrow> (v2_wf ''/blobs/'' (brName r) (brDigest r) \<and> IsDigest (brDigest r)) \<and>
      TrimPrefix (''/v2/'' @ brName r @ ''/blobs/'' @ brDigest r) ''/'' = TrimPrefix f ''/''" for f r
    unfolding iff parseV2Path_iff by simp
qed

section \<open>maven\<close>

definition mavenRest :: "string \<Rightarrow> string \<Rightarrow> string" where
  "mavenRest cl ext = (if cl = [] then [] else ''-'' @ cl) @ ''.'' @ ext"

definition mavenRest_wf :: "string \<Rightarrow> string \<Rightarrow> bool" where
  "mavenRest_wf cl ext \<longleftrightarrow>
     (if cl = [] then (case beforeFirstDot ext of Some d \<Rightarrow> \<not> isAllDigits d | None \<Rightarrow> True) else CHR ''.'' \<notin> set cl)"

lemma parseMavenRest_iff:
  "parseMavenRest rest = Some (cl, ext) \<longleftrightarrow> rest = mavenRest cl ext \<and> mavenRest_wf cl ext"
proof (cases rest)
  case Nil
  then show ?thesis by (auto simp: parseMavenRest_def mavenRest_def)
next
  case (Cons c t)
  consider (dash) "c = CHR ''-''" | (dot) "c = CHR ''.''" | (other) "c \<noteq> CHR ''-''" "c \<noteq> CHR ''.''" by blast
  then show ?thesis
  proof cases
    case dash
    have "parseMavenRest rest = Some (cl, ext) \<longleftrightarrow> cl \<noteq> [] \<and> Cut t ''.'' = Some (cl, ext)"
      unfolding Cons dash by (auto simp: parseMavenRest_def Cut_def Let_def split: option.splits if_splits)
    then show ?thesis unfolding Cut_single_Some Cons dash by (auto simp: mavenRest_def mavenRest_wf_def)
  next
    case dot
    then show ?thesis
      unfolding Cons by (auto simp: parseMavenRest_def mavenRest_def mavenRest_wf_def Let_def split: option.splits if_splits)
  next
    case other
    then show ?thesis unfolding Cons by (auto simp: parseMavenRest_def mavenRest_def)
  qed
qed

definition mavenPath :: "Coordinate \<Rightarrow> string" where
  "mavenPath c =
     Join (Split (GroupID c) (CHR ''.'') @
       [ArtifactID c, cVersion c, ArtifactID c @ ''-'' @ cVersion c @ mavenRest (Classifier c) (Extension c)]) ''/''"

definition maven_wf :: "Coordinate \<Rightarrow> bool" where
  "maven_wf c \<longleftrightarrow>
     [] \<notin> set (Split (GroupID c) (CHR ''.'')) \<and> slash_free (GroupID c) \<and>
     ArtifactID c \<noteq> [] \<and> slash_free (ArtifactID c) \<and> cVersion c \<noteq> [] \<and> slash_free (cVersion c) \<and>
     Extension c \<noteq> [] \<and> slash_free (Extension c) \<and> slash_free (Classifier c) \<and> mavenRest_wf (Classifier c) (Extension c)"

lemma Split_subset:
  assumes "x \<in> set (Split s c)" shows "set x \<subseteq> set s"
proof -
  have "concat (Split s c) = filter (\<lambda>y. y \<noteq> c) s"
  proof (induction s)
    case (Cons y s)
    then show ?case by (cases "Split s c") auto
  qed simp
  then have "\<Union> (set ` set (Split s c)) \<subseteq> set s" by (metis filter_is_subset set_concat)
  with assms show ?thesis by blast
qed

lemma maven_roundtrip_lemma:
  assumes "maven_wf c" shows "ParseCoordinate (mavenPath c) = Some c"
proof -
  define gs where "gs = Split (GroupID c) (CHR ''.'')"
  define fname where "fname = (ArtifactID c @ ''-'' @ cVersion c) @ mavenRest (Classifier c) (Extension c)"
  have gs: "gs \<noteq> []" "[] \<notin> set gs" "\<forall>g \<in> set gs. slash_free g" "Join gs ''.'' = GroupID c"
    using assms Split_subset [of _ "GroupID c" "CHR ''.''"] by (auto simp: gs_def maven_wf_def slash_free_def)
  have segs: "Split (mavenPath c) (CHR ''/'') = gs @ [ArtifactID c, cVersion c, fname]"
    unfolding Split_iff using gs assms
    by (auto simp: mavenPath_def fname_def gs_def [symmetric] maven_wf_def slash_free_def mavenRest_def)
  have "TrimPrefix (mavenPath c) ''/'' = mavenPath c"
  proof -
    obtain g gs' where g: "gs = g # gs'" "g \<noteq> []" "slash_free g" using gs(1-3) by (cases gs) auto
    then have "hd (mavenPath c) = hd g \<and> mavenPath c \<noteq> []"
      using hd_Join [of g] by (simp add: mavenPath_def gs_def [symmetric])
    with g have "\<not> HasPrefix (mavenPath c) ''/''" by (cases "mavenPath c"; cases g) (auto simp: slash_free_def)
    then show ?thesis by (simp add: TrimPrefix_def)
  qed
  moreover have "HasPrefix fname (ArtifactID c @ ''-'' @ cVersion c)"
    "TrimPrefix fname (ArtifactID c @ ''-'' @ cVersion c) = mavenRest (Classifier c) (Extension c)"
    unfolding fname_def by (rule HasPrefix_append, rule TrimPrefix_append)
  moreover have "parseMavenRest (mavenRest (Classifier c) (Extension c)) = Some (Classifier c, Extension c)"
    using assms by (simp add: parseMavenRest_iff maven_wf_def)
  ultimately show ?thesis
    using gs assms by (simp add: ParseCoordinate_def segs Let_def nth_append maven_wf_def)
qed

section \<open>pypi names\<close>


text \<open>Normal form of PEP 503: lower case, and dashes only single and between other bytes or at the ends.\<close>

fun single_dashes :: "bool \<Rightarrow> string \<Rightarrow> bool" where
  "single_dashes after [] \<longleftrightarrow> True"
| "single_dashes after (c # s) \<longleftrightarrow>
     (if c = CHR ''-'' then \<not> after \<and> single_dashes True s else \<not> isSepByte c \<and> single_dashes False s)"

lemma collapseRuns_single: "single_dashes b (collapseRuns b s)"
  by (induction b s rule: collapseRuns.induct) (auto simp: isSepByte_def)

lemma collapseRuns_id: "single_dashes b s \<Longrightarrow> collapseRuns b s = s"
  by (induction b s rule: single_dashes.induct) (auto simp: isSepByte_def split: if_splits)

lemma collapseRuns_bytes: "c \<in> set (collapseRuns b s) \<Longrightarrow> c = CHR ''-'' \<or> c \<in> set s"
  by (induction b s rule: collapseRuns.induct) (auto split: if_splits)

lemma lowerByte_range: "code c < 128 \<Longrightarrow> code (lowerByte c) < 128 \<and> \<not> (65 \<le> code (lowerByte c) \<and> code (lowerByte c) \<le> 90)"
  using code_range [of c] by (auto simp: lowerByte_def code_char_of)

lemma lowerByte_sep: "isSepByte (lowerByte c) \<longleftrightarrow> isSepByte c" "lowerByte c = CHR ''-'' \<longleftrightarrow> c = CHR ''-''"
proof -
  have k: "code (CHR ''-'') = 45" "code (CHR ''_'') = 95" "code (CHR ''.'') = 46" by code_simp+
  have eq: "lowerByte c = d \<longleftrightarrow> c = d" if "\<not> (97 \<le> code d \<and> code d \<le> 122)" "\<not> (65 \<le> code d \<and> code d \<le> 90)" for d
  proof (cases "65 \<le> code c \<and> code c \<le> 90")
    case True
    then have "code (lowerByte c) = code c + 32" by (simp add: lowerByte_def code_char_of)
    with True that have "code (lowerByte c) \<noteq> code d" "code c \<noteq> code d" by auto
    then show ?thesis by auto
  next
    case False
    then have "lowerByte c = c" unfolding lowerByte_def by (rule if_not_P)
    then show ?thesis by simp
  qed
  show "lowerByte c = CHR ''-'' \<longleftrightarrow> c = CHR ''-''" by (rule eq) (simp_all add: k)
  show "isSepByte (lowerByte c) \<longleftrightarrow> isSepByte c"
    unfolding isSepByte_def by (subst eq, simp_all add: k)+
qed

lemma collapseRuns_lower: "collapseRuns b (map lowerByte s) = map lowerByte (collapseRuns b s)"
proof -
  have dash: "lowerByte (CHR ''-'') = CHR ''-''" using lowerByte_sep(2) [of "CHR ''-''"] by blast
  show ?thesis by (induction b s rule: collapseRuns.induct) (simp_all add: lowerByte_sep dash)
qed

lemma collapseRuns_ascii:
  assumes "list_all (\<lambda>c. code c < 128) s" shows "list_all (\<lambda>c. code c < 128) (collapseRuns b s)"
proof -
  have "code (CHR ''-'') < 128" by code_simp
  with assms show ?thesis unfolding list_all_iff by (blast dest: collapseRuns_bytes)
qed

lemma lowerByte_idem: "code c < 128 \<Longrightarrow> lowerByte (lowerByte c) = lowerByte c"
  using lowerByte_range [of c] by (auto simp: lowerByte_def [of "lowerByte c"])

lemma ToLower_ascii: "list_all (\<lambda>c. code c < 128) s \<Longrightarrow> ToLower ul s = map lowerByte s"
  by (simp add: ToLower_def)

lemma NormalizeName_ascii:
  assumes "list_all (\<lambda>c. code c < 128) s"
  shows "NormalizeName ul s = map lowerByte (collapseRuns False s)"
    and "list_all (\<lambda>c. code c < 128) (NormalizeName ul s)"
proof -
  from collapseRuns_ascii [OF assms] show "NormalizeName ul s = map lowerByte (collapseRuns False s)"
    and "list_all (\<lambda>c. code c < 128) (NormalizeName ul s)"
    using lowerByte_range by (auto simp: NormalizeName_def ToLower_ascii list_all_iff)
qed

section \<open>Properties of the formats\<close>

text \<open>
  The eight formats with routes of their own.
\<close>

definition routeFormats :: "Format list" where
  "routeFormats = [generic_Format, maven_Format, npm_Format, pypi_Format, helm_Format, nuget_Format, debian_Format, rpm_Format]"

lemma routeFormats_sound:
  assumes "fmt \<in> set routeFormats"
  shows "\<exists>valid. repository_format fmt valid"
  using assms unfolding routeFormats_def
  by (auto intro: generic.repository_format_axioms maven.repository_format_axioms npm.repository_format_axioms
      pypi.repository_format_axioms helm.repository_format_axioms nuget.repository_format_axioms
      debian.repository_format_axioms rpm.repository_format_axioms)



text \<open>
  C21. The file name parsers of Helm, NuGet, Debian and RPM accept exactly the names their formats
  print. For Helm and NuGet the version is the part from the first dash (or dot), after the
  first part, that a digit follows; a Debian name has three underscore-free fields; an RPM name ends
  in release and a known architecture, whatever dashes the package name has.
\<close>

theorem package_filenames_exact:
  "(ParseChartFilename f = Some ch \<longleftrightarrow>
      f = crName ch @ ''-'' @ crVersion ch @ ''.tgz'' \<and> versioned (CHR ''-'') (crName ch) (crVersion ch)) \<and>
   (nuget_ParsePackageFilename f = Some ng \<longleftrightarrow>
      f = ngID ng @ ''.'' @ ngVersion ng @ ''.nupkg'' \<and> versioned (CHR ''.'') (ngID ng) (ngVersion ng)) \<and>
   (debian_ParsePackageFilename f = Some de \<longleftrightarrow> f = debFilename de \<and> deb_wf de) \<and>
   (rpm_ParsePackageFilename f = Some rp \<longleftrightarrow> f = rpmFilename rp \<and> rpm_wf rp)"
  using chart.parse_render [of ch] chart.render_parse [of f ch] nupkg.parse_render [of ng] nupkg.render_parse [of f ng]
  by (auto simp: debian_parse_iff rpm_parse_iff)

text \<open>
  An npm key parses to a package reference exactly when, after an optional slash, it is the
  metadata or tarball key that reference prints; so distinct references never share a key.
\<close>

theorem npm_ParseKey_exact:
  "npm_ParseKey f = Some r \<longleftrightarrow> TrimPrefix f ''/'' = npmKey r \<and> npm_wf r"
proof
  assume "npm_ParseKey f = Some r"
  from npmref.render_parse [OF this] show "TrimPrefix f ''/'' = npmKey r \<and> npm_wf r" by simp
next
  assume *: "TrimPrefix f ''/'' = npmKey r \<and> npm_wf r"
  then have "npm_ParseKey (''/'' @ npmKey r) = Some r" by (blast intro: npmref.parse_render)
  then show "npm_ParseKey f = Some r" using * by (simp add: npm_ParseKey_def)
qed

text \<open>
  Maven: the repository path of every well-formed coordinate parses to that coordinate, with or
  without classifier and with dots in the extension.
\<close>

theorem maven_roundtrip:
  assumes "maven_wf c"
  shows "ParseCoordinate (mavenPath c) = Some c"
  using assms by (rule maven_roundtrip_lemma)

theorem maven_roundtrip_witness:
  "ParseCoordinate ''org/apache/lib/1.0/lib-1.0-sources.tar.gz'' =
     Some \<lparr>GroupID = ''org.apache'', ArtifactID = ''lib'', cVersion = ''1.0'', Classifier = ''sources'', Extension = ''tar.gz''\<rparr>"
proof -
  let ?c = "\<lparr>GroupID = ''org.apache'', ArtifactID = ''lib'', cVersion = ''1.0'', Classifier = ''sources'', Extension = ''tar.gz''\<rparr>"
  have "maven_wf ?c" by code_simp
  moreover have "mavenPath ?c = ''org/apache/lib/1.0/lib-1.0-sources.tar.gz''" by code_simp
  ultimately show ?thesis using maven_roundtrip [of ?c] by simp
qed

text \<open>
  Normalising an ASCII project name is idempotent and gives a name in the normal form of PEP 503:
  no upper case letters, no underscores or dots, no two dashes in a row.
\<close>

theorem NormalizeName_normal:
  assumes "list_all (\<lambda>c. code c < 128) name"
  shows "NormalizeName ul (NormalizeName ul name) = NormalizeName ul name \<and>
         single_dashes False (NormalizeName ul name) \<and> (\<forall>c \<in> set (NormalizeName ul name). \<not> (65 \<le> code c \<and> code c \<le> 90))"
proof -
  let ?n = "NormalizeName ul name"
  have n: "?n = map lowerByte (collapseRuns False name)" and a: "list_all (\<lambda>c. code c < 128) ?n"
    using NormalizeName_ascii assms by auto
  have sd: "single_dashes False ?n"
    unfolding n collapseRuns_lower [symmetric] by (rule collapseRuns_single)
  have low: "\<forall>c \<in> set ?n. \<not> (65 \<le> code c \<and> code c \<le> 90)"
    using collapseRuns_ascii [OF assms, of False] lowerByte_range unfolding n list_all_iff set_map by blast
  then have "map lowerByte ?n = ?n" by (auto simp: lowerByte_def intro!: map_idI)
  then show ?thesis using NormalizeName_ascii(1) [OF a] collapseRuns_id [OF sd] sd low by simp
qed

theorem NormalizeName_normal_witness:
  "single_dashes False (NormalizeName (\<lambda>r. r) ''My__Pkg.Name'')"
proof -
  have "list_all (\<lambda>c. code c < 128) ''My__Pkg.Name''" by code_simp
  from NormalizeName_normal [OF this, of "\<lambda>r. r"] show ?thesis by blast
qed

text \<open>
  The tarball branch of the npm key parser takes a name with slashes, which the metadata branch
  refuses: a nested path is served as a package of the name \<^verbatim>\<open>a/b\<close>.
\<close>

theorem npm_nested_name:
  "npm_ParseKey ''a/b/-/a/b-1.0.tgz'' = Some \<lparr>nScope = [], nName = ''a/b'', nVersion = ''1.0''\<rparr> \<and>
   npm_ParseKey ''a/b'' = None"
  by code_simp

end
