(* ===== verification/Go_Http.thy ===== *)
theory Go_Http
  imports Go_Json
begin

text \<open>
  What the handlers use of \<^verbatim>\<open>net/http\<close>, \<^verbatim>\<open>net/url\<close> and \<^verbatim>\<open>net\<close>: percent decoding, query parameters, the
  split of an address into host and port, and the request multiplexer \<^verbatim>\<open>http.ServeMux\<close> with its
  path cleaning, its redirects and its precedence of patterns.
\<close>

section \<open>URLs and addresses\<close>

text \<open>\<^verbatim>\<open>url.PathUnescape\<close> (\<open>form\<close> false) and \<^verbatim>\<open>url.QueryUnescape\<close> (\<open>form\<close> true); \<open>None\<close> is the error.\<close>

fun unescape :: "bool \<Rightarrow> string \<Rightarrow> string option" where
  "unescape form [] = Some []"
| "unescape form (c # s) =
     (if c = CHR ''%'' then
        (case s of
           a # b # t \<Rightarrow>
             (case (hexVal a, hexVal b) of
                (Some h, Some l) \<Rightarrow> map_option (\<lambda>u. char_of (16 * h + l) # u) (unescape form t)
              | _ \<Rightarrow> None)
         | _ \<Rightarrow> None)
      else map_option (\<lambda>u. (if form \<and> c = CHR ''+'' then CHR '' '' else c) # u) (unescape form s))"

text \<open>The multiplexer keeps a segment it cannot decode.\<close>

definition pathUnescape :: "string \<Rightarrow> string" where
  "pathUnescape s = (case unescape False s of Some u \<Rightarrow> u | None \<Rightarrow> s)"

text \<open>\<^verbatim>\<open>url.ParseQuery\<close>, one piece; \<open>None\<close> for a piece that is skipped.\<close>

definition queryPiece :: "string \<Rightarrow> (string \<times> string) option" where
  "queryPiece p =
     (if p = [] \<or> CHR '';'' \<in> set p then None
      else let (k, v) = (case Cut p ''='' of Some kv \<Rightarrow> kv | None \<Rightarrow> (p, []))
           in case (unescape True k, unescape True v) of
                (Some k', Some v') \<Rightarrow> Some (k', v')
              | _ \<Rightarrow> None)"

text \<open>\<^verbatim>\<open>r.URL.Query().Get(name)\<close>.\<close>

definition Query_Get :: "string \<Rightarrow> string \<Rightarrow> string" where
  "Query_Get rawQuery name =
     (case map_of (List.map_filter queryPiece (Split rawQuery (CHR ''&''))) name of Some v \<Rightarrow> v | None \<Rightarrow> [])"

text \<open>\<^verbatim>\<open>net.SplitHostPort\<close>, the host only; \<open>None\<close> is the error.\<close>

definition SplitHost :: "string \<Rightarrow> string option" where
  "SplitHost hp =
     (case LastIndex hp '':'' of
        None \<Rightarrow> None
      | Some i \<Rightarrow>
          if HasPrefix hp ''['' then
            (case Index hp '']'' of
               None \<Rightarrow> None
             | Some e \<Rightarrow>
                 if e + 1 \<noteq> i \<or> CHR ''['' \<in> set (drop 1 hp) \<or> CHR '']'' \<in> set (drop (e + 1) hp) then None
                 else Some (drop 1 (take e hp)))
          else if CHR '':'' \<in> set (take i hp) \<or> CHR ''['' \<in> set hp \<or> CHR '']'' \<in> set hp then None
          else Some (take i hp))"

section \<open>Requests\<close>

text \<open>
  A parsed request. \<open>rqPath\<close> is \<^verbatim>\<open>r.URL.Path\<close>, \<open>rqEscapedPath\<close> is \<^verbatim>\<open>r.URL.EscapedPath()\<close>; the server's
  parser makes the first the decoding of the second.
\<close>

record request =
  rqMethod :: string
  rqPath :: string
  rqEscapedPath :: string
  rqRawQuery :: string
  rqHeader :: "string \<Rightarrow> string"
  rqRemoteAddr :: string
  rqPathValues :: "(string \<times> string) list"

definition parsed_request :: "request \<Rightarrow> bool" where
  "parsed_request r \<longleftrightarrow> unescape False (rqEscapedPath r) = Some (rqPath r)"

definition PathValue :: "request \<Rightarrow> string \<Rightarrow> string" where
  "PathValue r name = (case map_of (rqPathValues r) name of Some v \<Rightarrow> v | None \<Rightarrow> [])"

section \<open>ServeMux\<close>

datatype seg = Lit string | Wild string | Multi string

record 'h pattern =
  patMethod :: string
  patSegs :: "seg list"
  patHandler :: 'h

text \<open>\<^verbatim>\<open>path.Clean\<close> of a rooted path: the segments that remain, in reverse.\<close>

fun cleanSegs :: "string list \<Rightarrow> string list \<Rightarrow> string list" where
  "cleanSegs acc [] = rev acc"
| "cleanSegs acc (s # ss) =
     (if s = [] \<or> s = ''.'' then cleanSegs acc ss
      else if s = ''..'' then cleanSegs (tl acc) ss
      else cleanSegs (s # acc) ss)"

definition cleanPath :: "string \<Rightarrow> string" where
  "cleanPath p0 =
     (if p0 = [] then ''/''
      else let p = (if hd p0 \<noteq> CHR ''/'' then ''/'' @ p0 else p0);
               np = ''/'' @ Join (cleanSegs [] (Split p (CHR ''/''))) ''/''
           in if last p = CHR ''/'' \<and> np \<noteq> ''/'' then np @ ''/'' else np)"

definition firstSegment :: "string \<Rightarrow> string \<times> string" where
  "firstSegment path =
     (if path = ''/'' then (''/'', [])
      else let p = tl path; s = takeWhile (\<lambda>c. c \<noteq> CHR ''/'') p in (pathUnescape s, drop (length s) p))"

text \<open>
  A node of the routing tree is the list of the patterns below it, each with its segments still to
  match: the children of a node are the patterns whose next segment is a given one.
\<close>

definition litChild :: "string \<Rightarrow> (seg list \<times> 'h pattern) list \<Rightarrow> (seg list \<times> 'h pattern) list" where
  "litChild s ns = List.map_filter (\<lambda>(ss, p). case ss of Lit t # ss' \<Rightarrow> if t = s then Some (ss', p) else None | _ \<Rightarrow> None) ns"

definition wildChild :: "(seg list \<times> 'h pattern) list \<Rightarrow> (seg list \<times> 'h pattern) list" where
  "wildChild ns = List.map_filter (\<lambda>(ss, p). case ss of Wild t # ss' \<Rightarrow> Some (ss', p) | _ \<Rightarrow> None) ns"

definition multiChild :: "(seg list \<times> 'h pattern) list \<Rightarrow> (string \<times> 'h pattern) option" where
  "multiChild ns =
     (case List.map_filter (\<lambda>(ss, p). case ss of [Multi t] \<Rightarrow> Some (t, p) | _ \<Rightarrow> None) ns of [] \<Rightarrow> None | x # _ \<Rightarrow> Some x)"

definition leafOf :: "(seg list \<times> 'h pattern) list \<Rightarrow> 'h pattern option" where
  "leafOf ns = map_option snd (List.find (\<lambda>(ss, p). ss = []) ns)"

text \<open>Literals take precedence over wildcards, and those over the rest of the path.\<close>

lemma firstSegment_shorter: "path \<noteq> [] \<Longrightarrow> firstSegment path = (s, rest) \<Longrightarrow> length rest < length path"
  by (auto simp: firstSegment_def Let_def split: if_splits)

function matchPath :: "(seg list \<times> 'h pattern) list \<Rightarrow> string \<Rightarrow> string list \<Rightarrow> ('h pattern \<times> string list) option" where
  "matchPath ns path ms =
     (if path = [] then map_option (\<lambda>p. (p, ms)) (leafOf ns)
      else let (s, rest) = firstSegment path
           in case matchPath (litChild s ns) rest ms of
                Some x \<Rightarrow> Some x
              | None \<Rightarrow>
                  (case (if s = ''/'' then None else matchPath (wildChild ns) rest (ms @ [s])) of
                     Some x \<Rightarrow> Some x
                   | None \<Rightarrow> map_option (\<lambda>(t, p). (p, if t = [] then ms else ms @ [pathUnescape (tl path)])) (multiChild ns)))"
  by pat_completeness auto
termination
  by (relation "measure (\<lambda>(ns, path, ms). length path)") (auto simp: firstSegment_shorter [OF _ sym])

declare matchPath.simps [simp del]

definition methodPatterns :: "string \<Rightarrow> 'h pattern list \<Rightarrow> (seg list \<times> 'h pattern) list" where
  "methodPatterns m ps = map (\<lambda>p. (patSegs p, p)) (filter (\<lambda>p. patMethod p = m) ps)"

definition orElse :: "'a option \<Rightarrow> 'a option \<Rightarrow> 'a option" where
  "orElse x y = (case x of Some v \<Rightarrow> Some v | None \<Rightarrow> y)"

definition matchMethodAndPath :: "'h pattern list \<Rightarrow> string \<Rightarrow> string \<Rightarrow> ('h pattern \<times> string list) option" where
  "matchMethodAndPath ps m path =
     orElse (matchPath (methodPatterns m ps) path [])
       (orElse (if m = ''HEAD'' then matchPath (methodPatterns ''GET'' ps) path [] else None)
          (matchPath (methodPatterns [] ps) path []))"

definition isMulti :: "seg \<Rightarrow> bool" where
  "isMulti s \<longleftrightarrow> (case s of Multi t \<Rightarrow> True | _ \<Rightarrow> False)"

definition exactMatch :: "('h pattern \<times> string list) option \<Rightarrow> string \<Rightarrow> bool" where
  "exactMatch n path \<longleftrightarrow>
     (case n of
        None \<Rightarrow> False
      | Some (p, ms) \<Rightarrow>
          if \<not> isMulti (last (patSegs p)) then True
          else if path \<noteq> [] \<and> last path \<noteq> CHR ''/'' then False
          else length (patSegs p) = length (filter (\<lambda>c. c = CHR ''/'') path))"

datatype 'h mux_result =
    MuxFound 'h request
  | MuxRedirect string
  | MuxNotFound
  | MuxNotAllowed

definition wildNames :: "seg list \<Rightarrow> string list" where
  "wildNames ss = List.map_filter (\<lambda>s. case s of Wild t \<Rightarrow> Some t | Multi t \<Rightarrow> if t = [] then None else Some t | Lit t \<Rightarrow> None) ss"

definition findHandler :: "'h pattern list \<Rightarrow> request \<Rightarrow> 'h mux_result" where
  "findHandler ps r =
     (let esc = rqEscapedPath r; m = rqMethod r;
          path = (if m = ''CONNECT'' then esc else cleanPath esc);
          n = matchMethodAndPath ps m path
      in if \<not> exactMatch n path \<and> \<not> HasSuffix path ''/'' \<and>
            exactMatch (matchMethodAndPath ps m (path @ ''/'')) (path @ ''/'') then MuxRedirect (path @ ''/'')
         else if m \<noteq> ''CONNECT'' \<and> path \<noteq> esc then MuxRedirect path
         else case n of
                Some (p, ms) \<Rightarrow> MuxFound (patHandler p) (r\<lparr>rqPathValues := zip (wildNames (patSegs p)) ms\<rparr>)
              | None \<Rightarrow>
                  if list_ex (\<lambda>p. patMethod p \<noteq> [] \<and>
                       (matchPath (methodPatterns (patMethod p) ps) path [] \<noteq> None \<or>
                        matchPath (methodPatterns (patMethod p) ps) (path @ ''/'') [] \<noteq> None)) ps
                  then MuxNotAllowed else MuxNotFound)"

end
