(* ===== verification/Metricsapi.thy ===== *)
theory Metricsapi
  imports Catalog
begin

text \<open>
  The Prometheus gauges (\<^verbatim>\<open>internal/metricsapi\<close>). The gauges are \<^verbatim>\<open>float64\<close> counters that start at zero and
  grow by one, so they are exact up to two to the power of 53; the model counts in \<open>nat\<close>.
\<close>

definition week :: duration where
  "week = 7 * 24 * 3600 * 1000000000"

definition month :: duration where
  "month = 31 * 24 * 3600 * 1000000000"

record Metrics =
  volumeFiles :: "(string, nat) gomap"
  duplicateFiles :: int
  uploadsPerWeek :: nat
  uploadsPerMonth :: nat

definition metricsapi_New :: Metrics where
  "metricsapi_New = \<lparr>volumeFiles = [], duplicateFiles = 0, uploadsPerWeek = 0, uploadsPerMonth = 0\<rparr>"

definition parseLastModified :: "string \<Rightarrow> instant option" where
  "parseLastModified s = (if s = [] then None else time_Parse s)"

definition volumeOf :: "Entry \<Rightarrow> string" where
  "volumeOf e = (if eBucket e = [] then ''unknown'' else eBucket e)"

text \<open>One turn of the loop over the entries.\<close>

definition countEntry :: "instant \<Rightarrow> (string, nat) gomap \<times> nat \<times> nat \<Rightarrow> Entry \<Rightarrow> (string, nat) gomap \<times> nat \<times> nat" where
  "countEntry now st e =
     (case st of (bucketCounts, weekCount, monthCount) \<Rightarrow>
        let bucket = volumeOf e;
            counts = gm_set bucket ((case gm_get bucketCounts bucket of Some n \<Rightarrow> n | None \<Rightarrow> 0) + 1) bucketCounts
        in (case parseLastModified (eLastModified e) of
             None \<Rightarrow> (counts, weekCount, monthCount)
           | Some t \<Rightarrow>
               let age = time_Sub now t
               in (counts, if le64 0 age \<and> le64 age week then weekCount + 1 else weekCount,
                   if le64 0 age \<and> le64 age month then monthCount + 1 else monthCount)))"

definition Update :: "instant \<Rightarrow> Entry list \<Rightarrow> int \<Rightarrow> Metrics \<Rightarrow> Metrics" where
  "Update now entries duplicates m =
     (case foldl (countEntry now) ([], 0, 0) entries of (bucketCounts, weekCount, monthCount) \<Rightarrow>
        m\<lparr>volumeFiles := bucketCounts, duplicateFiles := duplicates,
          uploadsPerWeek := weekCount, uploadsPerMonth := monthCount\<rparr>)"

section \<open>What the gauges show\<close>

text \<open>An entry counts as recent when its timestamp parses and lies at most \<open>d\<close> nanoseconds back.\<close>

definition uploadedWithin :: "int \<Rightarrow> instant \<Rightarrow> Entry \<Rightarrow> bool" where
  "uploadedWithin d now e \<longleftrightarrow>
     (case parseLastModified (eLastModified e) of None \<Rightarrow> False | Some t \<Rightarrow> t \<le> now \<and> now - t \<le> d)"

lemma age_within:
  assumes "0 \<le> sint d" "sint d < max64"
  shows "le64 0 (time_Sub now t) \<and> le64 (time_Sub now t) d \<longleftrightarrow> t \<le> now \<and> now - t \<le> sint d"
  using assms by (auto simp: le64_def sint_time_Sub min64_def max64_def)

lemma foldl_countEntry:
  "foldl (countEntry now) (m, w, k) es = (m', w', k') \<Longrightarrow>
     gm_ok m \<Longrightarrow>
     gm_ok m' \<and>
     (\<forall>b. gm_get m' b =
        (let n = (case gm_get m b of Some n \<Rightarrow> n | None \<Rightarrow> 0) + length (filter (\<lambda>e. volumeOf e = b) es)
         in if gm_get m b = None \<and> n = 0 then None else Some n)) \<and>
     w' = w + length (filter (uploadedWithin (7 * 24 * 3600 * 1000000000) now) es) \<and>
     k' = k + length (filter (uploadedWithin (31 * 24 * 3600 * 1000000000) now) es)"
proof (induction es arbitrary: m w k)
  case Nil
  then show ?case by (auto simp: Let_def split: option.split)
next
  case (Cons e es)
  obtain m1 w1 k1 where c: "countEntry now (m, w, k) e = (m1, w1, k1)" by (metis prod_cases3)
  have week: "sint week = 7 * 24 * 3600 * 1000000000" and month: "sint month = 31 * 24 * 3600 * 1000000000"
    unfolding week_def month_def by code_simp+
  have wk: "le64 0 (time_Sub now t) \<and> le64 (time_Sub now t) week \<longleftrightarrow> t \<le> now \<and> now - t \<le> 7 * 24 * 3600 * 1000000000"
    and mo: "le64 0 (time_Sub now t) \<and> le64 (time_Sub now t) month \<longleftrightarrow> t \<le> now \<and> now - t \<le> 31 * 24 * 3600 * 1000000000" for t
    using age_within [of week now t] age_within [of month now t] unfolding week month by (simp_all add: max64_def)
  have m1: "m1 = gm_set (volumeOf e) ((case gm_get m (volumeOf e) of Some n \<Rightarrow> n | None \<Rightarrow> 0) + 1) m"
    using c by (auto simp: countEntry_def Let_def split: option.splits)
  have w1: "w1 = w + (if uploadedWithin (7 * 24 * 3600 * 1000000000) now e then 1 else 0)"
    and k1: "k1 = k + (if uploadedWithin (31 * 24 * 3600 * 1000000000) now e then 1 else 0)"
    using c unfolding countEntry_def Let_def uploadedWithin_def prod.case wk mo by (auto split: option.splits)
  have "gm_ok m1" using Cons.prems(2) by (simp add: m1)
  from Cons.IH [OF Cons.prems(1) [unfolded foldl_Cons c] this] show ?case
    by (auto simp: m1 w1 k1 Let_def split: option.splits)
qed

text \<open>
  After an update the gauges show exactly the catalog: every bucket with files its number of
  files (entries without a bucket under \<^verbatim>\<open>unknown\<close>) and no other bucket, the given number of
  duplicates, and as uploads of the week and of the month the entries whose timestamp lies at
  most 7 and 31 days back and not in the future.
\<close>

theorem Update_exact:
  "(\<forall>b. gm_get (volumeFiles (Update now es d m)) b =
      (let n = length (filter (\<lambda>e. volumeOf e = b) es) in if n = 0 then None else Some n)) \<and>
   duplicateFiles (Update now es d m) = d \<and>
   uploadsPerWeek (Update now es d m) = length (filter (uploadedWithin (7 * 24 * 3600 * 1000000000) now) es) \<and>
   uploadsPerMonth (Update now es d m) = length (filter (uploadedWithin (31 * 24 * 3600 * 1000000000) now) es)"
proof -
  obtain m1 w k where f: "foldl (countEntry now) ([], 0, 0) es = (m1, w, k)" by (metis prod_cases3)
  with foldl_countEntry [OF f] show ?thesis by (auto simp: Update_def Let_def)
qed

end
