(* ===== verification/Httpapi.thy ===== *)
theory Httpapi
  imports Resolver Go_Http Metricsapi
begin

text \<open>
  The HTTP surface (\<^verbatim>\<open>internal/httpapi\<close>): key validation, API keys, the rate limiter, the handlers and the
  two multiplexers. The API shares its catalog with the resolver, so the model keeps it there.
  A reply records the call that writes it: \<^verbatim>\<open>writeJSON\<close> with its status and members,
  \<^verbatim>\<open>http.Redirect\<close> with its status and target, or an answer of the multiplexer or of the
  Prometheus handler.
\<close>

section \<open>validation.go\<close>

definition maxKeyLength :: nat where
  "maxKeyLength = 1024"

definition errEmptyKey :: go_error where "errEmptyKey = ErrorsNew ''key must not be empty''"
definition errKeyTooLong :: go_error where "errKeyTooLong = ErrorsNew ''key exceeds maximum length''"
definition errKeyLeadingSlash :: go_error where "errKeyLeadingSlash = ErrorsNew (''key must not start with '' @ [CHR 0x27, CHR ''/'', CHR 0x27])"
definition errKeyTraversal :: go_error where "errKeyTraversal = ErrorsNew (''key must not contain '' @ CHR 0x27 # ''..'' @ CHR 0x27 # '' path segments'')"
definition errKeyControlChar :: go_error where "errKeyControlChar = ErrorsNew ''key must not contain control characters''"

definition containsDotDotSegment :: "string \<Rightarrow> bool" where
  "containsDotDotSegment key \<longleftrightarrow> list_ex (\<lambda>segment. segment = ''..'') (Split key (CHR ''/''))"

definition containsControlByte :: "string \<Rightarrow> bool" where
  "containsControlByte key \<longleftrightarrow> list_ex (\<lambda>(r, bs). IsControl r) (Runes key)"

definition validateKey :: "string \<Rightarrow> go_error option" where
  "validateKey key =
     (if key = [] then Some errEmptyKey
      else if length key > maxKeyLength then Some errKeyTooLong
      else if HasPrefix key ''/'' then Some errKeyLeadingSlash
      else if containsDotDotSegment key then Some errKeyTraversal
      else if containsControlByte key then Some errKeyControlChar
      else None)"

section \<open>Replies\<close>

datatype reply =
    JSONReply int "(string \<times> json) list"
  | RedirectReply int string
  | MetricsReply Metrics
  | MuxRedirectReply string
  | MuxError int

definition writeJSON :: "int \<Rightarrow> (string \<times> json) list \<Rightarrow> reply" where
  "writeJSON status body = JSONReply status body"

text \<open>What goes over the wire for a JSON reply: the members of a Go map in the order of their keys.\<close>

definition jsonBody :: "(string \<times> json) list \<Rightarrow> bytes" where
  "jsonBody body = json_Print (JObj (sort_slice (\<lambda>a b. fst a < fst b) body)) @ [CHR 0x0A]"

text \<open>\<^verbatim>\<open>err.Error()\<close> of an error made by \<^verbatim>\<open>errors.New\<close>.\<close>

definition errText :: "go_error \<Rightarrow> string" where
  "errText e = (case e of ErrorsNew s \<Rightarrow> s | Errorf f as es \<Rightarrow> f | ErrorsJoin es \<Rightarrow> [])"

section \<open>middleware.go\<close>

record AuthConfig =
  apiKeys :: "bytes list"

definition NewAuthConfig :: "string list \<Rightarrow> AuthConfig" where
  "NewAuthConfig keys = \<lparr>apiKeys = filter (\<lambda>k. k \<noteq> []) (map TrimSpace keys)\<rparr>"

definition Enabled :: "AuthConfig \<Rightarrow> bool" where
  "Enabled a \<longleftrightarrow> length (apiKeys a) > 0"

text \<open>\<^verbatim>\<open>subtle.ConstantTimeCompare\<close>: the or of the differences of all bytes is zero.\<close>

definition ConstantTimeCompare :: "bytes \<Rightarrow> bytes \<Rightarrow> bool" where
  "ConstantTimeCompare x y \<longleftrightarrow>
     length x = length y \<and> foldl (\<lambda>v (a, b). or v (xor (code a) (code b))) 0 (zip x y) = (0 :: int)"

definition valid :: "AuthConfig \<Rightarrow> string \<Rightarrow> bool" where
  "valid a key \<longleftrightarrow> list_ex (\<lambda>k. length k = length key \<and> ConstantTimeCompare k key) (apiKeys a)"

definition requestKey :: "request \<Rightarrow> string" where
  "requestKey r =
     (if rqHeader r ''X-API-Key'' = [] then TrimPrefix (rqHeader r ''Authorization'') ''Bearer '' else rqHeader r ''X-API-Key'')"

text \<open>
  The token bucket of \<^verbatim>\<open>golang.org/x/time/rate\<close> is a parameter: making a limiter and asking it at a
  given time.
\<close>

record 'l rate_lib =
  NewLimiter :: "64 word \<Rightarrow> int \<Rightarrow> 'l"
  limiterAllow :: "'l \<Rightarrow> instant \<Rightarrow> bool \<times> 'l"

record 'l rateLimiterEntry =
  reLimiter :: 'l
  reLastSeen :: instant

record 'l ipRateLimiter =
  rlEntries :: "(string, 'l rateLimiterEntry) gomap"
  rlRate :: "64 word"
  rlBurst :: int

definition rateLimiterIdleTimeout :: int where
  "rateLimiterIdleTimeout = 10 * 60 * 1000000000"

definition newIPRateLimiter :: "64 word \<Rightarrow> int \<Rightarrow> 'l ipRateLimiter" where
  "newIPRateLimiter r burst = \<lparr>rlEntries = [], rlRate = r, rlBurst = burst\<rparr>"

text \<open>One tick of the cleanup loop.\<close>

definition cleanupTick :: "instant \<Rightarrow> 'l ipRateLimiter \<Rightarrow> 'l ipRateLimiter" where
  "cleanupTick now l =
     (let cutoff = now - rateLimiterIdleTimeout
      in l\<lparr>rlEntries := filter (\<lambda>(ip, e). \<not> reLastSeen e < cutoff) (rlEntries l)\<rparr>)"

definition allow :: "'l rate_lib \<Rightarrow> string \<Rightarrow> instant \<Rightarrow> 'l ipRateLimiter \<Rightarrow> bool \<times> 'l ipRateLimiter" where
  "allow lib ip now l =
     (let limiter = (case gm_get (rlEntries l) ip of
                       Some e \<Rightarrow> reLimiter e
                     | None \<Rightarrow> NewLimiter lib (rlRate l) (rlBurst l));
          (ok, limiter') = limiterAllow lib limiter now
      in (ok, l\<lparr>rlEntries := gm_set ip \<lparr>reLimiter = limiter', reLastSeen = now\<rparr> (rlEntries l)\<rparr>))"

definition clientIP :: "request \<Rightarrow> string" where
  "clientIP r = (case SplitHost (rqRemoteAddr r) of Some host \<Rightarrow> host | None \<Rightarrow> rqRemoteAddr r)"

section \<open>api.go: state\<close>

record ('w, 'l) API =
  aCfg :: Config
  aResolver :: "'w Resolver"
  aStore :: "'w Store"
  aMetrics :: Metrics
  aAuth :: AuthConfig
  aRateLimiter :: "'l ipRateLimiter option"
  aReady :: bool

type_synonym ('w, 'l) handler = "request \<Rightarrow> ('w, 'l) API \<Rightarrow> reply \<times> ('w, 'l) API"

definition presignExpiry :: duration where
  "presignExpiry = 3600 * 1000000000"

definition WithAuth :: "AuthConfig \<Rightarrow> ('w, 'l) API \<Rightarrow> ('w, 'l) API" where
  "WithAuth auth a = a\<lparr>aAuth := auth\<rparr>"

definition WithRateLimit :: "64 word \<Rightarrow> int \<Rightarrow> ('w, 'l) API \<Rightarrow> ('w, 'l) API" where
  "WithRateLimit rps burst a = a\<lparr>aRateLimiter := Some (newIPRateLimiter rps burst)\<rparr>"

definition httpapi_New :: "Config \<Rightarrow> 'w Resolver \<Rightarrow> 'w Store \<Rightarrow> Metrics \<Rightarrow> (('w, 'l) API \<Rightarrow> ('w, 'l) API) list \<Rightarrow> ('w, 'l) API" where
  "httpapi_New cfg res st metrics opts =
     foldl (\<lambda>a opt. opt a)
       \<lparr>aCfg = cfg, aResolver = res, aStore = st, aMetrics = metrics, aAuth = \<lparr>apiKeys = []\<rparr>,
        aRateLimiter = None, aReady = False\<rparr> opts"

definition SetReady :: "bool \<Rightarrow> ('w, 'l) API \<Rightarrow> ('w, 'l) API" where
  "SetReady ready a = a\<lparr>aReady := ready\<rparr>"

definition IsReady :: "('w, 'l) API \<Rightarrow> bool" where
  "IsReady a = aReady a"

definition aCatalog :: "('w, 'l) API \<Rightarrow> Catalog" where
  "aCatalog a = rCatalog (aResolver a)"

definition onResolver :: "('w Resolver \<Rightarrow> 'x \<times> 'w Resolver) \<Rightarrow> ('w, 'l) API \<Rightarrow> 'x \<times> ('w, 'l) API" where
  "onResolver f a = (let (x, r) = f (aResolver a) in (x, a\<lparr>aResolver := r\<rparr>))"

definition timeNow :: "('w, 'l) API \<Rightarrow> instant" where
  "timeNow a = rNow (aResolver a) (rWorld (aResolver a))"

section \<open>api.go: handlers\<close>

definition requireReady :: "('w, 'l) handler \<Rightarrow> ('w, 'l) handler" where
  "requireReady h r a =
     (if \<not> IsReady a then (writeJSON 503 [(''error'', JStr ''service not initialized'')], a) else h r a)"

definition statusBucket :: "Bucket \<Rightarrow> json" where
  "statusBucket b =
     JObj (sort_slice (\<lambda>x y. fst x < fst y)
       [(''name'', JStr (bName b)), (''manifest_key'', JStr (bManifestKey b)), (''public'', JBool (bPublic b)), (''kind'', JStr (bKind b))])"

fun firstBuckets :: "Bucket list \<Rightarrow> string \<Rightarrow> string \<Rightarrow> string \<times> string" where
  "firstBuckets [] publicBucket privateBucket = (publicBucket, privateBucket)"
| "firstBuckets (b # bs) publicBucket privateBucket =
     (if \<not> HasStorage b then firstBuckets bs publicBucket privateBucket
      else if bPublic b \<and> publicBucket = [] then firstBuckets bs (bName b) privateBucket
      else if \<not> bPublic b \<and> privateBucket = [] then firstBuckets bs publicBucket (bName b)
      else firstBuckets bs publicBucket privateBucket)"

definition handleStatus :: "('w, 'l) handler" where
  "handleStatus r a =
     (let (publicBucket, privateBucket) = firstBuckets (cBuckets (aCfg a)) [] []
      in (writeJSON 200
            [(''status'', JStr ''ok''), (''buckets'', JArr (map statusBucket (cBuckets (aCfg a)))),
             (''region'', JStr (cAWSRegion (aCfg a))), (''ready'', JBool (IsReady a)),
             (''file_count'', JNum (FormatInt (int (Count (aCatalog a))))),
             (''public_bucket'', JStr publicBucket), (''private_bucket'', JStr privateBucket)], a))"

definition handleReadiness :: "('w, 'l) handler" where
  "handleReadiness r a =
     (if IsReady a
      then (writeJSON 200 [(''status'', JStr ''ready''), (''ready'', JBool True), (''file_count'', JNum (FormatInt (int (Count (aCatalog a)))))], a)
      else (writeJSON 503 [(''status'', JStr ''not_ready''), (''ready'', JBool False), (''file_count'', JNum (FormatInt (int (Count (aCatalog a)))))], a))"

definition handleHealthcheck :: "('w, 'l) handler" where
  "handleHealthcheck r a = (writeJSON 200 [(''status'', JStr ''ok''), (''ready'', JBool (IsReady a))], a)"

definition handleList :: "('w, 'l) handler" where
  "handleList r a =
     (let entries = ListAll (aCatalog a)
      in (writeJSON 200 [(''count'', JNum (FormatInt (int (length entries)))), (''files'', JArr (map encodeEntry entries))], a))"

text \<open>The checks that \<^verbatim>\<open>/update\<close> and \<^verbatim>\<open>/relocate\<close> begin with.\<close>

definition filenameError :: "string \<Rightarrow> reply option" where
  "filenameError filename =
     (if filename = [] then Some (writeJSON 400 [(''error'', JStr (''missing '' @ CHR 0x27 # ''filename'' @ CHR 0x27 # '' query parameter''))])
      else case validateKey filename of
             Some err \<Rightarrow> Some (writeJSON 400 [(''error'', JStr (errText err)), (''filename'', JStr filename)])
           | None \<Rightarrow> None)"

text \<open>What \<^verbatim>\<open>/update\<close> takes from the catalog: an entry whose object is still there.\<close>

definition lookupExisting :: "string \<Rightarrow> 'w Resolver \<Rightarrow> Entry option \<times> 'w Resolver" where
  "lookupExisting filename r =
     (case Lookup (rCatalog r) filename of
        None \<Rightarrow> (None, r)
      | Some entry \<Rightarrow> (case Exists (eBucket entry) (eKey entry) r of (ok, r') \<Rightarrow> (if ok then Some entry else None, r')))"

definition handleUpdate :: "('w, 'l) handler" where
  "handleUpdate r a =
     (let filename = Query_Get (rqRawQuery r) ''filename''
      in case filenameError filename of
           Some rep \<Rightarrow> (rep, a)
         | None \<Rightarrow>
             (case onResolver (lookupExisting filename) a of
                (Some entry, a1) \<Rightarrow> (writeJSON 200 [(''message'', JStr ''file located''), (''file'', encodeEntry entry)], a1)
              | (None, a1) \<Rightarrow>
                  (case onResolver (ResolveMissingFile filename) a1 of
                     (Inl err, a2) \<Rightarrow> (writeJSON 500 [(''error'', JStr ''failed to resolve file'')], a2)
                   | (Inr None, a2) \<Rightarrow> (writeJSON 404 [(''error'', JStr ''file not found''), (''filename'', JStr filename)], a2)
                   | (Inr (Some entry), a2) \<Rightarrow>
                       (writeJSON 200 [(''message'', JStr ''file located''), (''file'', encodeEntry entry)], a2))))"

definition handleRelocate :: "('w, 'l) handler" where
  "handleRelocate r a =
     (let filename = Query_Get (rqRawQuery r) ''filename''
      in case filenameError filename of
           Some rep \<Rightarrow> (rep, a)
         | None \<Rightarrow>
             (case onResolver (Relocate filename) a of
                (Inl err, a1) \<Rightarrow>
                  if errors_Is err ErrFileNotFound
                  then (writeJSON 404 [(''status'', JStr ''fail''), (''error'', JStr ''file not found in any bucket''), (''filename'', JStr filename)], a1)
                  else (writeJSON 500 [(''status'', JStr ''fail''), (''error'', JStr ''failed to persist manifests''), (''filename'', JStr filename)], a1)
              | (Inr result, a1) \<Rightarrow>
                  (writeJSON 200
                     ([(''status'', JStr ''ok''), (''file'', encodeEntry (rrEntry result))] @
                      (if rrRelocatedFrom result \<noteq> []
                       then [(''relocated_from'', JStr (rrRelocatedFrom result)), (''relocated_to'', JStr (rrRelocatedTo result))] else []) @
                      (if rrDuplicate result
                       then [(''duplicate'', JBool True),
                             (''note'', JStr ''file exists in multiple buckets, highest-priority (first configured) bucket takes precedence'')] else [])), a1)))"

definition downloadURL :: "Entry \<Rightarrow> ('w, 'l) API \<Rightarrow> (go_error + string) \<times> ('w, 'l) API" where
  "downloadURL entry a =
     (if eBucketType entry = ''public'' then (Inr (sPublicURL (aStore a) (eBucket entry) (eKey entry)), a)
      else onResolver (io (sPresignedURL (aStore a) (eBucket entry) (eKey entry) presignExpiry)) a)"

definition handleDownload :: "('w, 'l) handler" where
  "handleDownload r a =
     (case validateKey (PathValue r ''key'') of
        Some err \<Rightarrow> (writeJSON 400 [(''error'', JStr (errText err))], a)
      | None \<Rightarrow>
          (case onResolver (ResolveRoute (rqPath r)) a of
             (Inl err, a1) \<Rightarrow> (writeJSON 500 [(''error'', JStr ''failed to resolve route'')], a1)
           | (Inr None, a1) \<Rightarrow> (writeJSON 404 [(''error'', JStr ''file not found''), (''route'', JStr (rqPath r))], a1)
           | (Inr (Some entry), a1) \<Rightarrow>
               (case downloadURL entry a1 of
                  (Inl err, a2) \<Rightarrow> (writeJSON 500 [(''error'', JStr ''failed to build download url'')], a2)
                | (Inr url, a2) \<Rightarrow> (RedirectReply 302 url, a2))))"

definition handleMetrics :: "('w, 'l) handler" where
  "handleMetrics r a =
     (let m = Update (timeNow a) (ListAll (aCatalog a)) (DuplicateCount (aResolver a)) (aMetrics a)
      in (MetricsReply m, a\<lparr>aMetrics := m\<rparr>))"

definition handleNotFound :: "('w, 'l) handler" where
  "handleNotFound r a = (writeJSON 404 [(''error'', JStr ''not found'')], a)"

section \<open>Routes\<close>

definition apiPatterns :: "('w, 'l) handler pattern list" where
  "apiPatterns =
     [\<lparr>patMethod = ''GET'', patSegs = [Lit ''status''], patHandler = requireReady handleStatus\<rparr>,
      \<lparr>patMethod = ''GET'', patSegs = [Lit ''list''], patHandler = requireReady handleList\<rparr>,
      \<lparr>patMethod = ''GET'', patSegs = [Lit ''update''], patHandler = requireReady handleUpdate\<rparr>,
      \<lparr>patMethod = ''POST'', patSegs = [Lit ''relocate''], patHandler = requireReady handleRelocate\<rparr>,
      \<lparr>patMethod = ''GET'', patSegs = [Lit ''metrics''], patHandler = requireReady handleMetrics\<rparr>,
      \<lparr>patMethod = ''GET'', patSegs = [Wild ''bucket'', Multi ''key''], patHandler = requireReady handleDownload\<rparr>,
      \<lparr>patMethod = [], patSegs = [Multi []], patHandler = handleNotFound\<rparr>]"

text \<open>A multiplexer as a handler.\<close>

definition ServeMux :: "('w, 'l) handler pattern list \<Rightarrow> ('w, 'l) handler" where
  "ServeMux ps r a =
     (case findHandler ps r of
        MuxFound h r' \<Rightarrow> h r' a
      | MuxRedirect p \<Rightarrow> (MuxRedirectReply p, a)
      | MuxNotFound \<Rightarrow> (MuxError 404, a)
      | MuxNotAllowed \<Rightarrow> (MuxError 405, a))"

definition rateLimit_middleware :: "'l rate_lib \<Rightarrow> ('w, 'l) handler \<Rightarrow> ('w, 'l) handler" where
  "rateLimit_middleware lib nxt r a =
     (case aRateLimiter a of
        None \<Rightarrow> nxt r a
      | Some l \<Rightarrow>
          (case allow lib (clientIP r) (timeNow a) l of
             (False, l') \<Rightarrow> (writeJSON 429 [(''error'', JStr ''rate limit exceeded'')], a\<lparr>aRateLimiter := Some l'\<rparr>)
           | (True, l') \<Rightarrow> nxt r (a\<lparr>aRateLimiter := Some l'\<rparr>)))"

definition auth_middleware :: "('w, 'l) handler \<Rightarrow> ('w, 'l) handler" where
  "auth_middleware nxt r a =
     (if \<not> Enabled (aAuth a) then nxt r a
      else if \<not> valid (aAuth a) (requestKey r) then (writeJSON 401 [(''error'', JStr ''unauthorized'')], a)
      else nxt r a)"

definition protected :: "'l rate_lib \<Rightarrow> ('w, 'l) handler" where
  "protected lib = auth_middleware (rateLimit_middleware lib (ServeMux apiPatterns))"

definition topPatterns :: "'l rate_lib \<Rightarrow> ('w, 'l) handler pattern list" where
  "topPatterns lib =
     [\<lparr>patMethod = [], patSegs = [Multi []], patHandler = protected lib\<rparr>,
      \<lparr>patMethod = ''GET'', patSegs = [Lit ''healthcheck''], patHandler = handleHealthcheck\<rparr>,
      \<lparr>patMethod = ''GET'', patSegs = [Lit ''redines''], patHandler = handleReadiness\<rparr>,
      \<lparr>patMethod = ''GET'', patSegs = [Lit ''readiness''], patHandler = handleReadiness\<rparr>]"

definition Routes :: "'l rate_lib \<Rightarrow> ('w, 'l) handler" where
  "Routes lib = ServeMux (topPatterns lib)"

end
