(* ===== verification/Httpapi_Correct.thy ===== *)
theory Httpapi_Correct
  imports Httpapi Resolver_Properties
begin

text \<open>
  The HTTP surface: who gets past the key check, what is answered before the service is ready, what
  a redirect may point to, and which keys reach storage.
\<close>

section \<open>The multiplexer\<close>

lemma in_set_map_filter: "y \<in> set (List.map_filter f xs) \<longleftrightarrow> (\<exists>x \<in> set xs. f x = Some y)"
  by (induction xs) (auto simp: List.map_filter_def)

lemma set_litChild: "(ss, p) \<in> set (litChild s ns) \<Longrightarrow> p \<in> snd ` set ns"
  by (force simp: litChild_def in_set_map_filter split: list.splits seg.splits if_splits)

lemma set_wildChild: "(ss, p) \<in> set (wildChild ns) \<Longrightarrow> p \<in> snd ` set ns"
  by (force simp: wildChild_def in_set_map_filter split: list.splits seg.splits)

lemma multiChild_in:
  assumes "multiChild ns = Some (t, p)" shows "p \<in> snd ` set ns"
proof -
  from assms have "(t, p) \<in> set (List.map_filter (\<lambda>(ss, p). case ss of [Multi t] \<Rightarrow> Some (t, p) | _ \<Rightarrow> None) ns)"
    by (auto simp: multiChild_def split: list.splits)
  then show ?thesis by (force simp: in_set_map_filter split: list.splits seg.splits)
qed

lemma leafOf_in: "leafOf ns = Some p \<Longrightarrow> p \<in> snd ` set ns"
  by (induction ns) (auto simp: leafOf_def split: if_splits)

lemma matchPath_in: "matchPath ns path ms = Some (p, ms') \<Longrightarrow> p \<in> snd ` set ns"
proof (induction ns path ms rule: matchPath.induct)
  case (1 ns path ms)
  obtain s rest where f: "firstSegment path = (s, rest)" by fastforce
  have lit: "p \<in> snd ` set ns" if "path \<noteq> []" "matchPath (litChild s ns) rest ms = Some (p, ms')"
    using "1.IH"(1) [OF that(1) f [symmetric] refl that(2)] set_litChild by fastforce
  have wild: "p \<in> snd ` set ns" if "path \<noteq> []" "matchPath (litChild s ns) rest ms = None" "s \<noteq> ''/''"
    "matchPath (wildChild ns) rest (ms @ [s]) = Some (p, ms')"
    using "1.IH"(2) [OF that(1) f [symmetric] refl that(2,3,4)] set_wildChild by fastforce
  show ?case
    using "1.prems" lit wild unfolding matchPath.simps [of ns path ms] f
    by (auto simp: leafOf_in multiChild_in split: if_splits option.splits)
qed

lemma findHandler_in:
  assumes "findHandler ps r = MuxFound h r'"
  shows "\<exists>p \<in> set ps. h = patHandler p \<and> (\<exists>vs. r' = r\<lparr>rqPathValues := vs\<rparr>)"
proof -
  from assms obtain p ms where p: "matchMethodAndPath ps (rqMethod r)
      (if rqMethod r = ''CONNECT'' then rqEscapedPath r else cleanPath (rqEscapedPath r)) = Some (p, ms)"
    and h: "h = patHandler p" "r' = r\<lparr>rqPathValues := zip (wildNames (patSegs p)) ms\<rparr>"
    by (auto simp: findHandler_def Let_def split: if_splits option.splits)
  have "p \<in> set ps"
    using p by (auto simp: matchMethodAndPath_def orElse_def methodPatterns_def dest!: matchPath_in split: option.splits if_splits)
  with h show ?thesis by blast
qed

text \<open>A multiplexer answers itself, leaving the state alone, or calls one of its handlers.\<close>

lemma ServeMux_cases:
  obtains (redirect) p where "ServeMux ps r a = (MuxRedirectReply p, a)"
  | (error) n where "ServeMux ps r a = (MuxError n, a)"
  | (handler) p vs where "p \<in> set ps" "ServeMux ps r a = patHandler p (r\<lparr>rqPathValues := vs\<rparr>) a"
  by (cases "findHandler ps r") (auto simp: ServeMux_def dest: findHandler_in)

section \<open>Keys\<close>

lemma or_zero_iff: "or v w = 0 \<longleftrightarrow> v = 0 \<and> w = (0 :: int)"
  by (auto simp: bit_eq_iff bit_or_iff)

lemma xor_zero_iff: "xor v w = 0 \<longleftrightarrow> v = (w :: int)"
  by (auto simp: bit_eq_iff bit_xor_iff)

lemma ConstantTimeCompare_iff: "ConstantTimeCompare x y \<longleftrightarrow> x = y"
proof -
  have "length x = length y \<Longrightarrow>
      foldl (\<lambda>v (a, b). or v (xor (code a) (code b))) i (zip x y) = 0 \<longleftrightarrow> i = 0 \<and> x = y" for i :: int
    by (induction x y arbitrary: i rule: list_induct2) (auto simp: or_zero_iff xor_zero_iff)
  then show ?thesis unfolding ConstantTimeCompare_def by blast
qed

lemma valid_iff: "valid a key \<longleftrightarrow> key \<in> set (apiKeys a)"
  by (auto simp: valid_def list_ex_iff ConstantTimeCompare_iff)

lemma apiKeys_New: "set (apiKeys (NewAuthConfig keys)) = TrimSpace ` set keys - {[]}"
  by (auto simp: NewAuthConfig_def)

text \<open>
  C2. With API keys configured, a request without one of them reads and changes nothing: whatever its
  method and path, the state stays as it was and the answer is 401, a redirect or an error of the
  multiplexer, or the answer of a health or readiness probe.
\<close>

theorem unauthorized_request_refused:
  assumes "set (apiKeys (aAuth a)) \<noteq> {}" and "requestKey r \<notin> set (apiKeys (aAuth a))"
  shows "snd (Routes lib r a) = a \<and>
         fst (Routes lib r a) \<in>
           {JSONReply 401 [(''error'', JStr ''unauthorized'')], fst (handleHealthcheck r a), fst (handleReadiness r a)} \<union>
           range MuxRedirectReply \<union> range MuxError"
proof (cases rule: ServeMux_cases [of "topPatterns lib" r a])
  case (handler p vs)
  have "requestKey (r\<lparr>rqPathValues := vs\<rparr>) = requestKey r" by (simp add: requestKey_def)
  then have p: "protected lib (r\<lparr>rqPathValues := vs\<rparr>) a = (JSONReply 401 [(''error'', JStr ''unauthorized'')], a)"
    using assms by (auto simp: protected_def auth_middleware_def Enabled_def valid_iff writeJSON_def)
  from handler(1) have "patHandler p \<in> {protected lib, handleHealthcheck, handleReadiness}" by (auto simp: topPatterns_def)
  with handler(2) p show ?thesis
    by (auto simp: Routes_def handleHealthcheck_def handleReadiness_def aCatalog_def)
qed (simp_all add: Routes_def)

lemma apiPatterns_not_ready:
  assumes "\<not> IsReady a"
  shows "snd (ServeMux apiPatterns r a) = a \<and>
         fst (ServeMux apiPatterns r a) \<in> {JSONReply 503 [(''error'', JStr ''service not initialized'')],
           JSONReply 404 [(''error'', JStr ''not found'')]} \<union> range MuxRedirectReply \<union> range MuxError"
proof (cases rule: ServeMux_cases [of apiPatterns r a])
  case (handler p vs)
  from handler(1) have "patHandler p = handleNotFound \<or> (\<exists>h. patHandler p = requireReady h)"
    by (auto simp: apiPatterns_def)
  with handler(2) assms show ?thesis by (auto simp: requireReady_def handleNotFound_def writeJSON_def)
qed simp_all

text \<open>What the middleware may change: the limiter.\<close>

definition sameButLimiter :: "('w, 'l) API \<Rightarrow> ('w, 'l) API \<Rightarrow> bool" where
  "sameButLimiter a b \<longleftrightarrow> (\<exists>l. b = a\<lparr>aRateLimiter := l\<rparr>)"

lemma sameButLimiter_refl [simp]: "sameButLimiter a a"
  unfolding sameButLimiter_def by (rule exI [of _ "aRateLimiter a"]) simp

lemma sameButLimiter_IsReady: "sameButLimiter a b \<Longrightarrow> IsReady b = IsReady a"
  by (auto simp: sameButLimiter_def IsReady_def)

text \<open>The middleware refuses with 401 or 429, or hands the request on with only the limiter changed.\<close>

lemma protected_cases:
  obtains (refused) n e l where "n \<in> {401, 429}" "protected lib r a = (JSONReply n e, a\<lparr>aRateLimiter := l\<rparr>)"
  | (passed) l where "set (apiKeys (aAuth a)) = {} \<or> requestKey r \<in> set (apiKeys (aAuth a))"
      "protected lib r a = ServeMux apiPatterns r (a\<lparr>aRateLimiter := l\<rparr>)"
proof (cases "Enabled (aAuth a) \<and> \<not> valid (aAuth a) (requestKey r)")
  case True
  then have "protected lib r a = (JSONReply 401 [(''error'', JStr ''unauthorized'')], a\<lparr>aRateLimiter := aRateLimiter a\<rparr>)"
    by (simp add: protected_def auth_middleware_def writeJSON_def)
  then show ?thesis using refused by blast
next
  case False
  then have k: "set (apiKeys (aAuth a)) = {} \<or> requestKey r \<in> set (apiKeys (aAuth a))"
    and p: "protected lib r a = rateLimit_middleware lib (ServeMux apiPatterns) r a"
    by (auto simp: protected_def auth_middleware_def Enabled_def valid_iff)
  show ?thesis
  proof (cases "aRateLimiter a")
    case None
    then have "protected lib r a = ServeMux apiPatterns r a" using p by (simp add: rateLimit_middleware_def)
    then show ?thesis using passed [OF k, of "aRateLimiter a"] by simp
  next
    case (Some l)
    obtain ok l' where "allow lib (clientIP r) (timeNow a) l = (ok, l')" by fastforce
    then have "protected lib r a = (if ok then ServeMux apiPatterns r (a\<lparr>aRateLimiter := Some l'\<rparr>)
        else (JSONReply 429 [(''error'', JStr ''rate limit exceeded'')], a\<lparr>aRateLimiter := Some l'\<rparr>))"
      using p Some by (simp add: rateLimit_middleware_def writeJSON_def split: bool.split)
    then show ?thesis using passed [OF k] refused by (cases ok) auto
  qed
qed

text \<open>
  C8. Before the bootstrap has finished no request changes anything but the rate limiter, and none
  but the health check succeeds: the resolver, the catalog and the store are not reached.
\<close>

theorem not_ready_request_refused:
  assumes "\<not> IsReady a"
  shows "sameButLimiter a (snd (Routes lib r a)) \<and>
         (\<forall>n body. fst (Routes lib r a) = JSONReply n body \<longrightarrow>
            n \<in> {401, 404, 429, 503} \<or> body = [(''status'', JStr ''ok''), (''ready'', JBool False)]) \<and>
         (\<forall>n url. fst (Routes lib r a) \<noteq> RedirectReply n url) \<and> (\<forall>m. fst (Routes lib r a) \<noteq> MetricsReply m)"
proof (cases rule: ServeMux_cases [of "topPatterns lib" r a])
  case (handler p vs)
  let ?r = "r\<lparr>rqPathValues := vs\<rparr>"
  from handler(1) consider "patHandler p = protected lib" | "patHandler p = handleHealthcheck" | "patHandler p = handleReadiness"
    by (auto simp: topPatterns_def)
  then show ?thesis
  proof cases
    case 1
    show ?thesis
    proof (cases rule: protected_cases [of lib ?r a])
      case refused
      with 1 handler(2) show ?thesis by (auto simp: Routes_def sameButLimiter_def)
    next
      case (passed l)
      have "\<not> IsReady (a\<lparr>aRateLimiter := l\<rparr>)" using assms by (simp add: IsReady_def)
      from apiPatterns_not_ready [OF this, of ?r] passed(2) 1 handler(2) show ?thesis
        by (auto simp: Routes_def sameButLimiter_def)
    qed
  qed (use handler(2) assms in \<open>auto simp: Routes_def handleHealthcheck_def handleReadiness_def writeJSON_def\<close>)
qed (simp_all add: Routes_def)

lemma matchPath_one:
  assumes "firstSegment path = (s, [])" and "path \<noteq> []" and "s \<noteq> ''/''"
  shows "matchPath ns path ms =
    (case leafOf (litChild s ns) of
       Some p \<Rightarrow> Some (p, ms)
     | None \<Rightarrow> (case leafOf (wildChild ns) of
         Some p \<Rightarrow> Some (p, ms @ [s])
       | None \<Rightarrow> map_option (\<lambda>(t, p). (p, if t = [] then ms else ms @ [pathUnescape (tl path)])) (multiChild ns)))"
proof -
  have e: "matchPath ns' [] ms' = map_option (\<lambda>p. (p, ms')) (leafOf ns')" for ns' :: "(seg list \<times> 'a pattern) list" and ms'
    by (simp add: matchPath.simps)
  show ?thesis unfolding matchPath.simps [of ns path] using assms by (auto simp: e split: option.split)
qed

lemma probe_match:
  fixes lib :: "'l rate_lib"
  assumes "rqMethod r \<in> {''GET'', ''HEAD''}" and "rqEscapedPath r = p"
    and "p \<in> {''/readiness'', ''/redines'', ''/healthcheck''}"
  shows "findHandler (topPatterns lib :: ('w, 'l) handler pattern list) r =
      MuxFound (if p = ''/healthcheck'' then handleHealthcheck else handleReadiness) (r\<lparr>rqPathValues := []\<rparr>)"
proof -
  have c: "cleanPath p = p" using assms(3) by (elim insertE emptyE; hypsubst) code_simp+
  have f: "firstSegment p = (tl p, [])" using assms(3) by (elim insertE emptyE; hypsubst) code_simp+
  have ne: "p \<noteq> []" "tl p \<noteq> ''/''" using assms(3) by auto
  let ?T = "topPatterns lib :: ('w, 'l) handler pattern list"
  let ?P = "\<lparr>patMethod = ''GET'', patSegs = [Lit (tl p)],
    patHandler = if p = ''/healthcheck'' then handleHealthcheck else handleReadiness\<rparr>"
  have get: "matchPath (methodPatterns ''GET'' ?T) p [] = Some (?P, [])"
    unfolding matchPath_one [OF f ne] using assms(3)
    by (auto simp: methodPatterns_def topPatterns_def litChild_def leafOf_def List.map_filter_def)
  have head: "matchPath (methodPatterns ''HEAD'' ?T) p [] = None"
    unfolding matchPath_one [OF f ne]
    by (simp add: methodPatterns_def topPatterns_def litChild_def wildChild_def multiChild_def leafOf_def List.map_filter_def)
  have "matchMethodAndPath ?T (rqMethod r) p = Some (?P, [])"
    using assms(1) get head by (auto simp: matchMethodAndPath_def orElse_def)
  then show ?thesis using assms(1,2) c
    by (auto simp: findHandler_def Let_def exactMatch_def isMulti_def wildNames_def List.map_filter_def)
qed

text \<open>
  The probes answer in every state, without key and past the rate limiter, and change nothing: the
  readiness routes say 200 exactly when the service is ready and 503 otherwise.
\<close>

theorem probes_always_answer:
  fixes a :: "('w, 'l) API"
  assumes "rqMethod r \<in> {''GET'', ''HEAD''}"
  shows "(rqEscapedPath r \<in> {''/readiness'', ''/redines''} \<longrightarrow>
            (\<exists>body. Routes lib r a = (JSONReply (if IsReady a then 200 else 503) body, a))) \<and>
         (rqEscapedPath r = ''/healthcheck'' \<longrightarrow>
            Routes lib r a = (JSONReply 200 [(''status'', JStr ''ok''), (''ready'', JBool (IsReady a))], a))"
proof -
  have "findHandler (topPatterns lib :: ('w, 'l) handler pattern list) r =
      MuxFound (if rqEscapedPath r = ''/healthcheck'' then handleHealthcheck else handleReadiness) (r\<lparr>rqPathValues := []\<rparr>)"
    if "rqEscapedPath r \<in> {''/readiness'', ''/redines'', ''/healthcheck''}"
    using assms that by (intro probe_match) simp_all
  then show ?thesis
    by (auto simp: Routes_def ServeMux_def handleReadiness_def handleHealthcheck_def writeJSON_def)
qed

section \<open>Downloads\<close>

lemma not_redirect [simp]:
  "handleStatus r a \<noteq> (RedirectReply n url, a')" "handleList r a \<noteq> (RedirectReply n url, a')"
  "handleUpdate r a \<noteq> (RedirectReply n url, a')" "handleRelocate r a \<noteq> (RedirectReply n url, a')"
  "handleMetrics r a \<noteq> (RedirectReply n url, a')" "handleNotFound r a \<noteq> (RedirectReply n url, a')"
  by (auto simp: handleStatus_def handleList_def handleUpdate_def handleRelocate_def handleMetrics_def handleNotFound_def
      writeJSON_def filenameError_def Let_def split: prod.splits option.splits sum.splits)

lemma apiPatterns_handlers:
  assumes "p \<in> set apiPatterns"
  shows "patHandler p = handleNotFound \<or>
    (\<exists>h \<in> {handleStatus, handleList, handleUpdate, handleRelocate, handleMetrics, handleDownload}. patHandler p = requireReady h)"
  using assms by (auto simp: apiPatterns_def)

text \<open>Only the download handler redirects to a file, for a request with a key, in a ready service.\<close>

lemma Routes_redirect:
  assumes "Routes lib r a = (RedirectReply n url, a')"
  obtains l vs where "set (apiKeys (aAuth a)) = {} \<or> requestKey r \<in> set (apiKeys (aAuth a))" and "IsReady a"
    and "handleDownload (r\<lparr>rqPathValues := vs\<rparr>) (a\<lparr>aRateLimiter := l\<rparr>) = (RedirectReply n url, a')"
proof (cases rule: ServeMux_cases [of "topPatterns lib" r a])
  case (handler p vs)
  have "patHandler p \<in> {protected lib, handleHealthcheck, handleReadiness}" using handler(1) by (auto simp: topPatterns_def)
  with handler(2) assms have p: "protected lib (r\<lparr>rqPathValues := vs\<rparr>) a = (RedirectReply n url, a')"
    by (auto simp: Routes_def handleHealthcheck_def handleReadiness_def writeJSON_def split: if_splits)
  show ?thesis
  proof (cases rule: protected_cases [of lib "r\<lparr>rqPathValues := vs\<rparr>" a])
    case refused
    with p show ?thesis by simp
  next
    case (passed l)
    then have k: "set (apiKeys (aAuth a)) = {} \<or> requestKey r \<in> set (apiKeys (aAuth a))" by (simp add: requestKey_def split: if_splits)
    have s: "ServeMux apiPatterns (r\<lparr>rqPathValues := vs\<rparr>) (a\<lparr>aRateLimiter := l\<rparr>) = (RedirectReply n url, a')"
      using p passed(2) by simp
    show ?thesis
    proof (cases rule: ServeMux_cases [of apiPatterns "r\<lparr>rqPathValues := vs\<rparr>" "a\<lparr>aRateLimiter := l\<rparr>"])
      case (handler q ws)
      let ?r = "r\<lparr>rqPathValues := ws\<rparr>" and ?a = "a\<lparr>aRateLimiter := l\<rparr>"
      have q: "patHandler q ?r ?a = (RedirectReply n url, a')" using handler(2) s by simp
      have "patHandler q \<noteq> handleNotFound" using q by auto
      with apiPatterns_handlers [OF handler(1)] obtain h where
        h: "h \<in> {handleStatus, handleList, handleUpdate, handleRelocate, handleMetrics, handleDownload}"
        and "patHandler q = requireReady h" by blast
      with q have "requireReady h ?r ?a = (RedirectReply n url, a')" by simp
      then have i: "IsReady ?a" and "h ?r ?a = (RedirectReply n url, a')"
        by (auto simp: requireReady_def writeJSON_def split: if_splits)
      moreover from this h have "h = handleDownload" by auto
      ultimately show ?thesis using that [OF k, of ws l] by (simp add: IsReady_def)
    qed (use s in simp_all)
  qed
qed (use assms in \<open>simp_all add: Routes_def\<close>)

lemma onResolver_eq: "onResolver f a = (x, a') \<longleftrightarrow> (\<exists>r. f (aResolver a) = (x, r) \<and> a' = a\<lparr>aResolver := r\<rparr>)"
  by (auto simp: onResolver_def Let_def split: prod.splits)

lemma handleDownload_redirect:
  assumes "handleDownload r a = (RedirectReply n url, a')"
  shows "n = 302 \<and> validateKey (PathValue r ''key'') = None \<and>
    (\<exists>e res. ResolveRoute (rqPath r) (aResolver a) = (Inr (Some e), res) \<and>
       (if eBucketType e = ''public'' then url = sPublicURL (aStore a) (eBucket e) (eKey e)
        else fst (sPresignedURL (aStore a) (eBucket e) (eKey e) presignExpiry (rWorld res)) = Inr url))"
  using assms
  by (auto simp: handleDownload_def downloadURL_def onResolver_eq io_eq writeJSON_def
      split: option.splits prod.splits sum.splits if_splits) fastforce

text \<open>
  C3. A redirect to a file is only ever answered by a ready service to a request with an accepted key
  (when keys are configured), and it points to a file that is stored and that the request names:
  the entry is in the catalog and its object in the store; its route is the request's path, or the
  path asked for its visibility, or for a virtual repository its bucket is a member of. The
  target is the public URL exactly for buckets the configuration makes public, and for every other
  bucket a URL the store signed for one hour.
\<close>

theorem redirect_to_stored_file:
  assumes "object_store (rStore (aResolver a)) ok obj" and "ok (rWorld (aResolver a))"
    and "fetcher_frame ok obj (rFetcher (aResolver a))" and "cat_reachable UNIV (rCatalog (aResolver a))"
    and "Routes lib r a = (RedirectReply n url, a')"
  shows "n = 302 \<and> IsReady a \<and> (set (apiKeys (aAuth a)) = {} \<or> requestKey r \<in> set (apiKeys (aAuth a))) \<and>
    (\<exists>e res. ResolveRoute (rqPath r) (aResolver a) = (Inr (Some e), res) \<and>
       Lookup (rCatalog res) (eKey e) = Some e \<and> obj (rWorld res) (eBucket e) (eKey e) \<noteq> None \<and>
       (eRoute e = rqPath r \<or>
        (\<exists>public. parseVirtualPrefix (rqPath r) = Some (eKey e, public) \<and>
           (\<exists>b \<in> set (cBuckets (rCfg (aResolver a))). bName b = eBucket e \<and> HasStorage b \<and> bPublic b = public)) \<or>
        (\<exists>v \<in> set (cBuckets (rCfg (aResolver a))).
           bKind v = KindVirtual \<and> rqPath r = routeFor (bName v) (eKey e) \<and> eBucket e \<in> set (bMembers v))) \<and>
       (if bucketType (rCatalog (aResolver a)) (eBucket e) = ''public'' then url = sPublicURL (aStore a) (eBucket e) (eKey e)
        else fst (sPresignedURL (aStore a) (eBucket e) (eKey e) presignExpiry (rWorld res)) = Inr url))"
proof -
  from assms(5) obtain l vs where k: "set (apiKeys (aAuth a)) = {} \<or> requestKey r \<in> set (apiKeys (aAuth a))" "IsReady a"
    and h: "handleDownload (r\<lparr>rqPathValues := vs\<rparr>) (a\<lparr>aRateLimiter := l\<rparr>) = (RedirectReply n url, a')"
    by (rule Routes_redirect)
  from handleDownload_redirect [OF h] obtain e res where n: "n = 302"
    and e: "ResolveRoute (rqPath r) (aResolver a) = (Inr (Some e), res)"
    and u: "if eBucketType e = ''public'' then url = sPublicURL (aStore a) (eBucket e) (eKey e)
        else fst (sPresignedURL (aStore a) (eBucket e) (eKey e) presignExpiry (rWorld res)) = Inr url"
    by (auto split: if_splits)
  have "object_store.ready (rStore (aResolver a)) ok obj (aResolver a)"
    using assms(2-4) by (simp add: object_store.ready_def [OF assms(1)] cat_reachable_inv)
  note s = object_store.ResolveRoute_served [OF assms(1) this, of "rqPath r", unfolded object_store.served_def [OF assms(1)] e, simplified]
  have "steps UNIV (aResolver a) res" by (rule steps_ResolveRoute [OF e]) simp
  then have c: "(cat_step UNIV)\<^sup>*\<^sup>* (rCatalog (aResolver a)) (rCatalog res)" by (simp add: steps_def)
  from cat_invD(3) [OF cat_steps_inv [OF c cat_reachable_inv [OF assms(4)]]] s cat_steps_priority [OF c]
  have "eBucketType e = bucketType (rCatalog (aResolver a)) (eBucket e)"
    by (auto simp: Lookup_def entry_ok_def)
  then show ?thesis using n k s e u by auto
qed

section \<open>Which keys are checked\<close>

lemma unescape_slash:
  "unescape f (s @ CHR ''/'' # t) = Some u \<Longrightarrow>
     \<exists>x y. unescape f s = Some x \<and> unescape f t = Some y \<and> u = x @ CHR ''/'' # y"
proof (induction f s arbitrary: u rule: unescape.induct)
  case (1 f)
  then show ?case by auto
next
  case (2 f c s)
  have h: "hexVal (CHR ''/'') = None" by code_simp
  show ?case
  proof (cases "c = CHR ''%''")
    case False
    with 2 show ?thesis by fastforce
  next
    case True
    show ?thesis
    proof (cases s)
      case Nil
      with True "2.prems" h show ?thesis by (auto split: list.splits option.splits)
    next
      case (Cons a s')
      show ?thesis
      proof (cases s')
        case Nil
        with True Cons "2.prems" h show ?thesis by (auto split: option.splits)
      next
        case (Cons b s'')
        with \<open>s = a # s'\<close> True "2.prems" "2.IH"(1) [OF True] show ?thesis by (fastforce split: option.splits)
      qed
    qed
  qed
qed

text \<open>The one pattern with wildcards.\<close>

abbreviation downloadPattern :: "('w, 'l) handler pattern" where
  "downloadPattern \<equiv> \<lparr>patMethod = ''GET'', patSegs = [Wild ''bucket'', Multi ''key''], patHandler = requireReady handleDownload\<rparr>"

lemma wildNames_api: "p \<in> set apiPatterns \<Longrightarrow> wildNames (patSegs p) \<noteq> [] \<Longrightarrow> p = downloadPattern"
  by (auto simp: apiPatterns_def wildNames_def List.map_filter_def)

lemma matchPath_Nil [simp]: "matchPath ns [] ms = map_option (\<lambda>p. (p, ms)) (leafOf ns)"
  by (simp add: matchPath.simps)

text \<open>Past a literal or past the bucket nothing but the rest of the path is left to match.\<close>

lemma match_lit:
  assumes "matchPath (litChild s (methodPatterns m (apiPatterns :: ('w, 'l) handler pattern list))) rest ms = Some (downloadPattern, ms')"
  shows False
proof -
  have only: "x \<in> set (litChild s (methodPatterns m (apiPatterns :: ('w, 'l) handler pattern list))) \<Longrightarrow> wildNames (patSegs (snd x)) = []" for x
    by (auto simp: litChild_def in_set_map_filter methodPatterns_def apiPatterns_def wildNames_def List.map_filter_def split: if_splits)
  from matchPath_in [OF assms] only show False by (force simp: wildNames_def List.map_filter_def)
qed

lemma matchPath_none [simp]: "matchPath ([] :: (seg list \<times> 'h pattern) list) path ms = None"
proof (cases "matchPath ([] :: (seg list \<times> 'h pattern) list) path ms")
  case (Some x)
  then show ?thesis using matchPath_in [of "[] :: (seg list \<times> 'h pattern) list" path ms "fst x" "snd x"] by simp
qed simp

lemma match_wild:
  assumes "matchPath (wildChild (methodPatterns m (apiPatterns :: ('w, 'l) handler pattern list))) rest ms = Some (p, ms')"
  shows "rest \<noteq> [] \<and> ms' = ms @ [pathUnescape (tl rest)]"
proof -
  let ?ns = "wildChild (methodPatterns m (apiPatterns :: ('w, 'l) handler pattern list))"
  have ns: "?ns = (if m = ''GET'' then [([Multi ''key''], downloadPattern)] else [])"
    by (auto simp: wildChild_def methodPatterns_def apiPatterns_def List.map_filter_def)
  have m: "m = ''GET''" using matchPath_in [OF assms] by (auto simp: ns split: if_splits)
  have none: "litChild s ?ns = []" "wildChild ?ns = []" "leafOf ?ns = None" "multiChild ?ns = Some (''key'', downloadPattern)" for s
    unfolding ns if_P [OF m] by (simp_all add: litChild_def wildChild_def leafOf_def multiChild_def List.map_filter_def)
  show ?thesis
  proof (cases "rest = []")
    case True
    with assms none show ?thesis by simp
  next
    case False
    then show ?thesis using assms unfolding matchPath.simps [of ?ns rest] none
      by (auto simp: none split: prod.splits if_splits)
  qed
qed

lemma match_download:
  assumes "matchPath (methodPatterns m (apiPatterns :: ('w, 'l) handler pattern list)) path [] = Some (downloadPattern, ms)"
  shows "\<exists>s rest. firstSegment path = (s, rest) \<and> rest \<noteq> [] \<and> ms = [s, pathUnescape (tl rest)]"
proof -
  obtain s rest where f: "firstSegment path = (s, rest)" by fastforce
  let ?ns = "methodPatterns m (apiPatterns :: ('w, 'l) handler pattern list)"
  have multi: "multiChild ?ns \<noteq> Some (t, downloadPattern)" for t
    by (auto simp: multiChild_def methodPatterns_def apiPatterns_def List.map_filter_def)
  have leaf: "leafOf ?ns = None"
    by (auto simp: leafOf_def methodPatterns_def apiPatterns_def)
  from assms have ne: "path \<noteq> []" using leaf by auto
  have lit: "matchPath (litChild s ?ns) rest [] \<noteq> Some (downloadPattern, ms)" using match_lit by blast
  have "matchPath (wildChild ?ns) rest ([] @ [s]) = Some (downloadPattern, ms)"
    using assms ne f multi lit unfolding matchPath.simps [of ?ns path]
    by (auto split: option.splits if_splits)
  from match_wild [OF this] f show ?thesis by simp
qed

lemma cleanPath_rooted: "\<exists>t. cleanPath p = CHR ''/'' # t"
  by (simp add: cleanPath_def Let_def)

lemma findHandler_api_wild:
  assumes "findHandler apiPatterns r = MuxFound (h :: ('w, 'l) handler) r'" and "rqPathValues r' \<noteq> []"
  shows "\<exists>b k. rqEscapedPath r = CHR ''/'' # b @ CHR ''/'' # k \<and>
    rqPathValues r' = [(''bucket'', pathUnescape b), (''key'', pathUnescape k)]"
proof -
  let ?ps = "apiPatterns :: ('w, 'l) handler pattern list"
  from assms(1) obtain p ms where m: "matchMethodAndPath ?ps (rqMethod r) (rqEscapedPath r) = Some (p, ms)"
    and r': "r' = r\<lparr>rqPathValues := zip (wildNames (patSegs p)) ms\<rparr>"
    and c: "rqMethod r \<noteq> ''CONNECT'' \<longrightarrow> cleanPath (rqEscapedPath r) = rqEscapedPath r"
    by (auto simp: findHandler_def Let_def split: if_splits option.splits)
  from m obtain m' where p: "matchPath (methodPatterns m' ?ps) (rqEscapedPath r) [] = Some (p, ms)"
    and m': "m' = rqMethod r \<or> m' = ''GET'' \<and> rqMethod r = ''HEAD'' \<or> m' = []"
    by (auto simp: matchMethodAndPath_def orElse_def split: option.splits if_splits)
  have in_ps: "p \<in> set ?ps" "patMethod p = m'" using matchPath_in [OF p] by (auto simp: methodPatterns_def)
  have "wildNames (patSegs p) \<noteq> []" using assms(2) r' by auto
  with in_ps have d: "p = downloadPattern" by (auto intro: wildNames_api)
  with m' in_ps(2) have "rqMethod r \<noteq> ''CONNECT''" by auto
  with c cleanPath_rooted obtain t where t: "rqEscapedPath r = CHR ''/'' # t" by metis
  from match_download [OF p [unfolded d]] obtain s rest where
    f: "firstSegment (rqEscapedPath r) = (s, rest)" "rest \<noteq> []" and ms: "ms = [s, pathUnescape (tl rest)]" by blast
  define b where "b = takeWhile (\<lambda>c. c \<noteq> CHR ''/'') t"
  from f t have "s = pathUnescape b" and rest: "rest = dropWhile (\<lambda>c. c \<noteq> CHR ''/'') t"
    by (auto simp: firstSegment_def b_def Let_def dropWhile_eq_drop split: if_splits)
  moreover from rest f(2) have "hd rest = CHR ''/''" using hd_dropWhile [of "\<lambda>c. c \<noteq> CHR ''/''" t] by blast
  with f(2) have "rest = CHR ''/'' # tl rest" by (metis list.collapse)
  moreover have "t = b @ rest" by (simp add: b_def rest)
  ultimately show ?thesis using t ms r' d by (auto simp: wildNames_def List.map_filter_def)
qed


section \<open>A running service\<close>

definition witness_lib :: "unit rate_lib" where
  "witness_lib = \<lparr>NewLimiter = (\<lambda>r burst. ()), limiterAllow = (\<lambda>l now. (True, l))\<rparr>"

definition witness_api :: "(fakeStore, unit) API" where
  "witness_api = SetReady True (httpapi_New demo_config witness_running fake_Store metricsapi_New
     [WithAuth (NewAuthConfig ['' k1 '', [], ''k2'']), WithRateLimit 0 1])"

definition get :: "string \<Rightarrow> string \<Rightarrow> string \<Rightarrow> request" where
  "get esc path key = \<lparr>rqMethod = ''GET'', rqPath = path, rqEscapedPath = esc, rqRawQuery = [],
     rqHeader = (\<lambda>h. if h = ''X-API-Key'' then key else []), rqRemoteAddr = ''10.0.0.1:4711'', rqPathValues = []\<rparr>"

lemma witness_api_resolver [simp]: "aResolver witness_api = witness_running"
  by (simp add: witness_api_def SetReady_def httpapi_New_def WithAuth_def WithRateLimit_def)

theorem unauthorized_request_refused_witness:
  "snd (Routes witness_lib (get ''/pub/a'' ''/pub/a'' ''k3'') witness_api) = witness_api"
proof -
  have k: "apiKeys (aAuth witness_api) = [''k1'', ''k2'']"
    unfolding witness_api_def by code_simp
  have q: "requestKey (get ''/pub/a'' ''/pub/a'' ''k3'') = ''k3''" by code_simp
  have "set (apiKeys (aAuth witness_api)) \<noteq> {}" "requestKey (get ''/pub/a'' ''/pub/a'' ''k3'') \<notin> set (apiKeys (aAuth witness_api))"
    unfolding k q by simp_all
  from unauthorized_request_refused [OF this] show ?thesis by blast
qed

theorem not_ready_request_refused_witness:
  "sameButLimiter (SetReady False witness_api) (snd (Routes witness_lib (get ''/list'' ''/list'' ''k1'') (SetReady False witness_api)))"
proof -
  have "\<not> IsReady (SetReady False witness_api)" by (simp add: IsReady_def SetReady_def)
  from not_ready_request_refused [OF this] show ?thesis by blast
qed

theorem probes_always_answer_witness:
  "Routes witness_lib (get ''/healthcheck'' ''/healthcheck'' []) witness_api =
     (JSONReply 200 [(''status'', JStr ''ok''), (''ready'', JBool (IsReady witness_api))], witness_api)"
proof -
  have "rqMethod (get ''/healthcheck'' ''/healthcheck'' []) \<in> {''GET'', ''HEAD''}" by (simp add: get_def)
  from probes_always_answer [OF this] show ?thesis by (simp add: get_def)
qed

theorem redirect_to_stored_file_witness:
  "\<exists>url a'. Routes witness_lib (get ''/all/b'' ''/all/b'' ''k2'') witness_api = (RedirectReply 302 url, a') \<and> IsReady witness_api"
proof -
  let ?r = "get ''/all/b'' ''/all/b'' ''k2''"
  have "fst (Routes witness_lib ?r witness_api) = RedirectReply 302 ''http://presigned.example/priv/b?expires=1h0m0s''"
    by code_simp
  then have r: "Routes witness_lib ?r witness_api =
      (RedirectReply 302 ''http://presigned.example/priv/b?expires=1h0m0s'', snd (Routes witness_lib ?r witness_api))"
    by (metis prod.collapse)
  have s: "object_store (rStore (aResolver witness_api)) fake_inv fake_obj" "fake_inv (rWorld (aResolver witness_api))"
    "fetcher_frame fake_inv fake_obj (rFetcher (aResolver witness_api))" "cat_reachable UNIV (rCatalog (aResolver witness_api))"
    unfolding witness_api_resolver by (rule witness_running_facts)+
  from redirect_to_stored_file [OF s r] r show ?thesis by blast
qed


definition traversal_api :: "(fakeStore, unit) API" where
  "traversal_api = SetReady True (httpapi_New demo_config
     (service_New \<lparr>NewRequest = (\<lambda>u. None), Do = (\<lambda>u w. (Inl (ErrorsNew ''down''), w))\<rparr> (\<lambda>w. 0) demo_config fake_Store []
        [(''priv'', [(''../s'', \<lparr>foContent = ''x'', foLastModified = []\<rparr>)])])
     fake_Store metricsapi_New [])"

text \<open>
  A percent-encoded slash lets a key past \<^verbatim>\<open>validateKey\<close>: in the request \<^verbatim>\<open>GET /priv%2F../s\<close> the
  multiplexer takes \<^verbatim>\<open>priv/..\<close> as the bucket and has only \<^verbatim>\<open>s\<close> checked, but the path is resolved as
  \<^verbatim>\<open>/priv/../s\<close>: the key \<^verbatim>\<open>../s\<close>, which the check rejects, reaches the store and is served.
\<close>

theorem encoded_slash_skips_validation:
  "parsed_request (get ''/priv%2F../s'' ''/priv/../s'' []) \<and> validateKey ''../s'' = Some errKeyTraversal \<and>
   fst (Routes witness_lib (get ''/priv%2F../s'' ''/priv/../s'' []) traversal_api) =
     RedirectReply 302 ''http://presigned.example/priv/../s?expires=1h0m0s''"
  by (intro conjI; code_simp)

end
