(* ===== verification/Server.thy ===== *)
theory Server
  imports Httpapi_Correct
begin

text \<open>
  The process (\<^verbatim>\<open>cmd/parparchik/main.go\<close>): how \<^verbatim>\<open>run\<close> wires the parts, and its goroutines (requests, the
  bootstrap, the periodic sync, the eviction of idle rate limiters) as steps of one state. Each
  handler and each background call is one step.
\<close>

section \<open>main.go\<close>

definition newAPI :: "'w http_client \<Rightarrow> ('w \<Rightarrow> instant) \<Rightarrow> Config \<Rightarrow> 'w Store \<Rightarrow> 'w \<Rightarrow> ('w, 'l) API" where
  "newAPI http now cfg st w =
     httpapi_New cfg (service_New http now cfg st [] w) st metricsapi_New
       [WithAuth (NewAuthConfig (cAPIKeys cfg)), WithRateLimit (cRateLimitPerSecond cfg) (cRateLimitBurst cfg)]"

text \<open>\<^verbatim>\<open>run\<close> up to the point where the server listens.\<close>

definition run_setup ::
    "go_float \<Rightarrow> getenv \<Rightarrow> ('a, 'w) s3_sdk \<Rightarrow> 'w http_client \<Rightarrow> ('w \<Rightarrow> instant) \<Rightarrow> 'w \<Rightarrow> go_error + ('w, 'l) API" where
  "run_setup fl getenv sdk http now w =
     (case Load fl getenv of
        Inl err \<Rightarrow> Inl (Errorf ''load config: %w'' [] [err])
      | Inr cfg \<Rightarrow>
          (case NewS3Store sdk cfg of
             Inl err \<Rightarrow> Inl (Errorf ''create object store: %w'' [] [err])
           | Inr s3 \<Rightarrow> Inr (newAPI http now cfg (s3_Store s3) w)))"

definition bootstrap :: "('w, 'l) API \<Rightarrow> ('w, 'l) API" where
  "bootstrap a =
     (case onResolver Bootstrap a of
        (Some err, a') \<Rightarrow> a'
      | (None, a') \<Rightarrow> SetReady True a')"

text \<open>One tick of \<^verbatim>\<open>periodicSync\<close>; there are no ticks without a positive interval.\<close>

definition syncTick :: "('w, 'l) API \<Rightarrow> ('w, 'l) API" where
  "syncTick a = (if le64 (cSyncInterval (aCfg a)) 0 then a else snd (onResolver SyncRegistry a))"

definition evictIdle :: "('w, 'l) API \<Rightarrow> ('w, 'l) API" where
  "evictIdle a = a\<lparr>aRateLimiter := map_option (cleanupTick (timeNow a)) (aRateLimiter a)\<rparr>"

section \<open>Steps\<close>

inductive server_step :: "'l rate_lib \<Rightarrow> ('w, 'l) API \<Rightarrow> ('w, 'l) API \<Rightarrow> bool" for lib where
  serve: "Routes lib r a = (rep, a') \<Longrightarrow> server_step lib a a'"
| boot: "server_step lib a (bootstrap a)"
| sync: "server_step lib a (syncTick a)"
| evict: "server_step lib a (evictIdle a)"
| outside: "server_step lib a (a\<lparr>aResolver := (aResolver a)\<lparr>rWorld := w\<rparr>\<rparr>)"

text \<open>What no step changes, and what the resolver does meanwhile.\<close>

definition api_frame :: "('w, 'l) API \<Rightarrow> ('w, 'l) API \<Rightarrow> bool" where
  "api_frame a b \<longleftrightarrow>
     aCfg b = aCfg a \<and> aStore b = aStore a \<and> aAuth b = aAuth a \<and> (aReady a \<longrightarrow> aReady b) \<and>
     res_step\<^sup>*\<^sup>* (aResolver a) (aResolver b)"

lemma api_frame_refl [simp, intro]: "api_frame a a"
  by (simp add: api_frame_def)

lemma api_frame_trans: "api_frame a b \<Longrightarrow> api_frame b c \<Longrightarrow> api_frame a c"
  by (auto simp: api_frame_def)

lemma api_frame_upd [simp]:
  "api_frame a (b\<lparr>aRateLimiter := l\<rparr>) = api_frame a b" "api_frame a (b\<lparr>aMetrics := m\<rparr>) = api_frame a b"
  "api_frame (a\<lparr>aRateLimiter := l\<rparr>) b = api_frame a b"
  by (simp_all add: api_frame_def)

lemma api_frame_onResolver:
  assumes "onResolver f a = (x, a')" and "\<And>y r'. f (aResolver a) = (y, r') \<Longrightarrow> res_step\<^sup>*\<^sup>* (aResolver a) r'"
  shows "api_frame a a'"
  using assms by (auto simp: onResolver_eq api_frame_def)

lemma io_res_step: "io f r = (x, r') \<Longrightarrow> res_step r r'"
  by (auto simp: io_eq intro: run_world)

lemma Exists_res_step: "Exists b k r = (x, r') \<Longrightarrow> res_step\<^sup>*\<^sup>* r r'"
  by (auto simp: Exists_def dest: io_res_step split: prod.splits sum.splits)

lemma handlers_frame [simp]:
  "snd (handleStatus r a) = a" "snd (handleList r a) = a" "snd (handleNotFound r a) = a"
  "snd (handleReadiness r a) = a" "snd (handleHealthcheck r a) = a" "api_frame a (snd (handleMetrics r a))"
  by (simp_all add: handleStatus_def handleList_def handleNotFound_def handleReadiness_def handleHealthcheck_def
      handleMetrics_def Let_def split: prod.split)

lemma lookupExisting_res_steps: "lookupExisting f r = (x, r') \<Longrightarrow> res_step\<^sup>*\<^sup>* r r'"
  by (auto simp: lookupExisting_def dest: Exists_res_step split: option.splits prod.splits)

lemma handleUpdate_frame: "api_frame a (snd (handleUpdate r a))"
proof -
  have l: "onResolver (lookupExisting f) b = (x, b') \<Longrightarrow> api_frame b b'" for f x and b b' :: "('a, 'b) API"
    by (erule api_frame_onResolver) (rule lookupExisting_res_steps)
  have m: "onResolver (ResolveMissingFile f) b = (x, b') \<Longrightarrow> api_frame b b'" for f x and b b' :: "('a, 'b) API"
    by (erule api_frame_onResolver) (blast intro: run_ResolveMissingFile)
  show ?thesis unfolding handleUpdate_def Let_def
    by (auto split: option.splits prod.splits sum.splits dest!: l m intro: api_frame_trans)
qed

lemma handleRelocate_frame: "api_frame a (snd (handleRelocate r a))"
proof -
  have m: "onResolver (Relocate f) b = (x, b') \<Longrightarrow> api_frame b b'" for f x and b b' :: "('a, 'b) API"
    by (erule api_frame_onResolver) (blast intro: run_Relocate)
  show ?thesis unfolding handleRelocate_def Let_def
    by (auto split: option.splits prod.splits sum.splits dest!: m)
qed

lemma handleDownload_frame: "api_frame a (snd (handleDownload r a))"
proof -
  have m: "onResolver (ResolveRoute f) b = (x, b') \<Longrightarrow> api_frame b b'" for f x and b b' :: "('a, 'b) API"
    by (erule api_frame_onResolver) (blast intro: run_ResolveRoute)
  have d: "downloadURL e b = (x, b') \<Longrightarrow> api_frame b b'" for e x and b b' :: "('a, 'b) API"
    by (auto simp: downloadURL_def split: if_splits elim!: api_frame_onResolver intro: io_res_step)
  show ?thesis unfolding handleDownload_def
    by (auto split: option.splits prod.splits sum.splits dest!: m d intro: api_frame_trans)
qed

lemma api_handler_frame:
  assumes "p \<in> set apiPatterns" shows "api_frame a (snd (patHandler p r a))"
proof -
  from apiPatterns_handlers [OF assms] consider "patHandler p = handleNotFound"
    | h where "h \<in> {handleStatus, handleList, handleUpdate, handleRelocate, handleMetrics, handleDownload}" "patHandler p = requireReady h"
    by blast
  then show ?thesis
  proof cases
    case 2
    then show ?thesis
      using handleUpdate_frame [of a r] handleRelocate_frame [of a r] handleDownload_frame [of a r]
      by (auto simp: requireReady_def)
  qed simp
qed

lemma Routes_frame: "api_frame a (snd (Routes lib r a))"
proof (cases rule: ServeMux_cases [of "topPatterns lib" r a])
  case (handler p vs)
  let ?r = "r\<lparr>rqPathValues := vs\<rparr>"
  from handler(1) consider "patHandler p = protected lib" | "patHandler p = handleHealthcheck" | "patHandler p = handleReadiness"
    by (auto simp: topPatterns_def)
  then show ?thesis
  proof cases
    case 1
    show ?thesis
    proof (cases rule: protected_cases [of lib ?r a])
      case (refused n e l)
      with 1 handler(2) show ?thesis by (simp add: Routes_def)
    next
      case (passed l)
      then have s: "snd (Routes lib r a) = snd (ServeMux apiPatterns ?r (a\<lparr>aRateLimiter := l\<rparr>))"
        using 1 handler(2) by (simp add: Routes_def)
      show ?thesis unfolding s
      proof (cases rule: ServeMux_cases [of apiPatterns ?r "a\<lparr>aRateLimiter := l\<rparr>"])
        case (handler q ws)
        then show "api_frame a (snd (ServeMux apiPatterns ?r (a\<lparr>aRateLimiter := l\<rparr>)))"
          using api_handler_frame [OF handler(1), of "a\<lparr>aRateLimiter := l\<rparr>" "?r\<lparr>rqPathValues := ws\<rparr>"] by simp
      qed simp_all
    qed
  qed (use handler(2) in \<open>simp_all add: Routes_def\<close>)
qed (simp_all add: Routes_def)

lemma bootstrap_frame: "api_frame a (bootstrap a)"
proof -
  obtain x a' where o: "onResolver Bootstrap a = (x, a')" by fastforce
  then have "api_frame a a'" by (rule api_frame_onResolver) (blast intro: run_Bootstrap)
  moreover have "api_frame a' (SetReady True a')" by (simp add: api_frame_def SetReady_def)
  ultimately show ?thesis using o by (cases x) (auto simp: bootstrap_def intro: api_frame_trans)
qed

lemma syncTick_frame: "api_frame a (syncTick a)"
proof -
  have "onResolver SyncRegistry a = (x, a') \<Longrightarrow> api_frame a a'" for x a'
    by (erule api_frame_onResolver) (blast intro: run_SyncRegistry)
  from this [OF prod.collapse [symmetric]] show ?thesis by (simp add: syncTick_def)
qed

lemma server_step_frame: "server_step lib a b \<Longrightarrow> api_frame a b"
proof (induction rule: server_step.induct)
  case (serve r a rep a')
  then show ?case using Routes_frame [of a lib r] by simp
next
  case (outside a w)
  have "res_step\<^sup>*\<^sup>* (aResolver a) ((aResolver a)\<lparr>rWorld := w\<rparr>)" by (intro r_into_rtranclp run_world)
  then show ?case by (simp add: api_frame_def)
qed (simp_all add: bootstrap_frame syncTick_frame evictIdle_def)

lemma server_run_frame: "(server_step lib)\<^sup>*\<^sup>* a b \<Longrightarrow> api_frame a b"
  by (induction rule: rtranclp_induct) (auto dest: server_step_frame intro: api_frame_trans)

lemma newAPI_fields [simp]:
  "aResolver (newAPI http now cfg st w) = service_New http now cfg st [] w" "aCfg (newAPI http now cfg st w) = cfg"
  "aStore (newAPI http now cfg st w) = st" "aAuth (newAPI http now cfg st w) = NewAuthConfig (cAPIKeys cfg)"
  "aReady (newAPI http now cfg st w) = False"
  by (simp_all add: newAPI_def httpapi_New_def WithAuth_def WithRateLimit_def)

section \<open>Properties\<close>

text \<open>
  C4. In every run of the process, whatever clients, stores and upstreams do and however requests,
  bootstrap, syncs and evictions follow each other: the catalog's two indices agree and carry the
  configured visibility, the configured keys stay in force, and a redirect to a file is only
  answered to a request with one of them (when there are any) and uses a public URL only for a
  bucket configured as public.
\<close>

theorem server_run_safe:
  assumes "(server_step lib)\<^sup>*\<^sup>* (newAPI http now cfg st w) a"
  shows "(\<forall>route e. LookupByRoute (aCatalog a) route = Some e \<longrightarrow> Lookup (aCatalog a) (eKey e) = Some e \<and> eRoute e = route) \<and>
    (\<forall>k e. Lookup (aCatalog a) k = Some e \<longrightarrow> eKey e = k \<and> eBucketType e = (if IsPublic cfg (eBucket e) then ''public'' else ''private'')) \<and>
    (\<forall>r n url a'. Routes lib r a = (RedirectReply n url, a') \<longrightarrow>
       (TrimSpace ` set (cAPIKeys cfg) - {[]} = {} \<or> requestKey r \<in> TrimSpace ` set (cAPIKeys cfg)) \<and>
       (\<exists>e res. ResolveRoute (rqPath r) (aResolver a) = (Inr (Some e), res) \<and>
          (if eBucketType e = ''public'' then url = sPublicURL st (eBucket e) (eKey e)
           else fst (sPresignedURL st (eBucket e) (eKey e) presignExpiry (rWorld res)) = Inr url)))"
proof -
  from server_run_frame [OF assms] have run: "res_step\<^sup>*\<^sup>* (service_New http now cfg st [] w) (aResolver a)"
    and auth: "aAuth a = NewAuthConfig (cAPIKeys cfg)" and st: "aStore a = st"
    by (simp_all add: api_frame_def)
  note inv = cat_reachable_inv [OF service_reachable(1) [OF run]]
  have red: "(TrimSpace ` set (cAPIKeys cfg) - {[]} = {} \<or> requestKey r \<in> TrimSpace ` set (cAPIKeys cfg)) \<and>
      (\<exists>e res. ResolveRoute (rqPath r) (aResolver a) = (Inr (Some e), res) \<and>
          (if eBucketType e = ''public'' then url = sPublicURL st (eBucket e) (eKey e)
           else fst (sPresignedURL st (eBucket e) (eKey e) presignExpiry (rWorld res)) = Inr url))"
    if "Routes lib r a = (RedirectReply n url, a')" for r n url a'
  proof -
    from that obtain l vs where k: "set (apiKeys (aAuth a)) = {} \<or> requestKey r \<in> set (apiKeys (aAuth a))"
      and h: "handleDownload (r\<lparr>rqPathValues := vs\<rparr>) (a\<lparr>aRateLimiter := l\<rparr>) = (RedirectReply n url, a')"
      by (rule Routes_redirect)
    from handleDownload_redirect [OF h] st k show ?thesis
      unfolding auth apiKeys_New by (auto split: if_splits)
  qed
  from LookupByRoute_inv [OF inv] cat_invD(3) [OF inv] service_reachable(5) [OF run] red show ?thesis
    by (auto simp: aCatalog_def Lookup_def entry_ok_def BucketType_def)
qed

text \<open>
  The readiness of the service. A store whose reads never fail lets the bootstrap succeed.
\<close>

definition store_reads :: "'w Store \<Rightarrow> bool" where
  "store_reads st \<longleftrightarrow> (\<forall>b w. \<exists>os w'. sListObjects st b w = (Inr os, w')) \<and> (\<forall>b k w. \<exists>c w'. sGetObject st b k w = (Inr c, w'))"

lemma fetchManifests_succeeds:
  "store_reads (rStore r) \<Longrightarrow> \<exists>ms' r'. fetchManifests bs ms r = (Inr ms', r') \<and> rStore r' = rStore r"
proof (induction bs arbitrary: ms r)
  case (Cons b bs)
  obtain c w' where g: "sGetObject (rStore r) (bName b) (bManifestKey b) (rWorld r) = (Inr c, w')"
    using Cons.prems by (meson store_reads_def)
  show ?case
    using Cons.IH [of r ms] Cons.IH [of "r\<lparr>rWorld := w'\<rparr>" "ms @ [\<lparr>bmBucket = bName b, bmContent = c\<rparr>]"] Cons.prems g
    by (simp add: io_def)
qed simp

lemma syncBuckets_succeeds:
  "store_reads (rStore r) \<Longrightarrow> \<exists>dups' r'. syncBuckets bs seen dups r = (Inr dups', r')"
proof (induction bs arbitrary: seen dups r)
  case (Cons b bs)
  obtain os w' where g: "sListObjects (rStore r) (bName b) (rWorld r) = (Inr os, w')"
    using Cons.prems by (meson store_reads_def)
  obtain s d c where o: "syncObjects b os seen dups (rCatalog r) = (s, d, c)" by (metis prod_cases3)
  show ?case
    using Cons.IH [of r seen dups] Cons.IH [of "r\<lparr>rWorld := w', rCatalog := c\<rparr>" s d] Cons.prems g o
    by (simp add: io_def)
qed simp

lemma Bootstrap_succeeds:
  assumes "store_reads (rStore r)" shows "fst (Bootstrap r) = None"
proof -
  obtain ms r1 where f: "fetchManifests (cBuckets (rCfg r)) [] r = (Inr ms, r1)" "rStore r1 = rStore r"
    using fetchManifests_succeeds [OF assms] by blast
  obtain d r2 where "syncBuckets (cBuckets (rCfg (onCatalog (LoadManifests ms) r1))) [] [] (onCatalog (LoadManifests ms) r1) = (Inr d, r2)"
    using syncBuckets_succeeds [of "onCatalog (LoadManifests ms) r1"] assms f(2) by (metis onCatalog_fields(3))
  with f show ?thesis by (auto simp: Bootstrap_def SyncRegistry_def)
qed

text \<open>
  C5. The service becomes ready and stays ready: with a store whose listings and reads succeed, the
  bootstrap succeeds, and from then on every readiness probe is answered with 200, whatever requests,
  syncs, evictions and changes of the buckets follow.
\<close>

theorem service_becomes_ready:
  fixes a :: "('w, 'l) API"
  assumes "store_reads (rStore (aResolver a))" and "(server_step lib)\<^sup>*\<^sup>* (bootstrap a) b"
    and "rqMethod r \<in> {''GET'', ''HEAD''}" and "rqEscapedPath r \<in> {''/readiness'', ''/redines''}"
  shows "\<exists>body. Routes lib r b = (JSONReply 200 body, b)"
proof -
  have "aReady (bootstrap a)"
    using Bootstrap_succeeds [OF assms(1)]
    by (auto simp: bootstrap_def onResolver_def SetReady_def split: prod.splits option.splits)
  with server_run_frame [OF assms(2)] have "IsReady b" by (simp add: api_frame_def IsReady_def)
  moreover have "findHandler (topPatterns lib :: ('w, 'l) handler pattern list) r =
      MuxFound handleReadiness (r\<lparr>rqPathValues := []\<rparr>)"
    using probe_match [OF assms(3) refl, of lib] assms(4) by (auto simp: probe_match [OF assms(3) refl])
  ultimately show ?thesis
    by (simp add: Routes_def ServeMux_def handleReadiness_def writeJSON_def)
qed

section \<open>The rate limiter\<close>

text \<open>A history of the limiter: requests of clients and ticks of the cleanup loop, with their times.\<close>

datatype rl_event = RlRequest string instant | RlTick instant

fun rl_run :: "'l rate_lib \<Rightarrow> rl_event list \<Rightarrow> 'l ipRateLimiter \<Rightarrow> (string \<times> bool) list" where
  "rl_run lib [] l = []"
| "rl_run lib (RlRequest ip t # es) l = (case allow lib ip t l of (ok, l') \<Rightarrow> (ip, ok) # rl_run lib es l')"
| "rl_run lib (RlTick t # es) l = rl_run lib es (cleanupTick t l)"

definition rl_concerns :: "string \<Rightarrow> rl_event \<Rightarrow> bool" where
  "rl_concerns ip e \<longleftrightarrow> (case e of RlRequest i t \<Rightarrow> i = ip | RlTick t \<Rightarrow> True)"

lemma gm_get_filter:
  "gm_ok m \<Longrightarrow> gm_get (filter (\<lambda>(k, v). P v) m) k = (case gm_get m k of Some v \<Rightarrow> if P v then Some v else None | None \<Rightarrow> None)"
proof (induction m)
  case (Cons x m)
  obtain k' v where x: "x = (k', v)" by fastforce
  have "gm_ok m" "k' \<notin> fst ` set m" using Cons.prems by (auto simp: gm_ok_def x)
  moreover have "gm_get m k' = None" using calculation(2) by (simp add: gm_get_def map_of_eq_None_iff)
  ultimately show ?case using Cons.IH by (auto simp: x)
qed simp

lemma gm_ok_filter: "gm_ok m \<Longrightarrow> gm_ok (filter P m)"
  by (simp add: gm_ok_def distinct_map_filter)

text \<open>The limiters of one client in two tables agree.\<close>

definition rl_same :: "string \<Rightarrow> 'l ipRateLimiter \<Rightarrow> 'l ipRateLimiter \<Rightarrow> bool" where
  "rl_same ip l m \<longleftrightarrow> gm_ok (rlEntries l) \<and> gm_ok (rlEntries m) \<and> gm_get (rlEntries l) ip = gm_get (rlEntries m) ip \<and>
     rlRate l = rlRate m \<and> rlBurst l = rlBurst m"

lemma rl_same_tick: "rl_same ip l m \<Longrightarrow> rl_same ip (cleanupTick t l) (cleanupTick t m)"
  by (simp add: rl_same_def cleanupTick_def gm_get_filter gm_ok_filter)

lemma rl_same_own:
  assumes "rl_same ip l m" and "allow lib ip t l = (ok, l')"
  shows "\<exists>m'. allow lib ip t m = (ok, m') \<and> rl_same ip l' m'"
  using assms by (cases "gm_get (rlEntries m) ip") (auto simp: allow_def rl_same_def Let_def split: prod.splits)

lemma rl_same_other: "rl_same ip l m \<Longrightarrow> i \<noteq> ip \<Longrightarrow> allow lib i t l = (ok, l') \<Longrightarrow> rl_same ip l' m"
  by (auto simp: allow_def rl_same_def Let_def split: prod.splits)

lemma rl_run_isolated:
  "rl_same ip l m \<Longrightarrow> filter (\<lambda>(i, ok). i = ip) (rl_run lib es l) = rl_run lib (filter (rl_concerns ip) es) m"
proof (induction lib es l arbitrary: m rule: rl_run.induct)
  case (2 lib i t es l)
  obtain ok l' where a: "allow lib i t l = (ok, l')" by fastforce
  show ?case
  proof (cases "i = ip")
    case True
    with rl_same_own [OF "2.prems"] a obtain m' where m': "allow lib ip t m = (ok, m')" "rl_same ip l' m'" by blast
    with "2.IH" [OF a [symmetric] m'(2)] a True show ?thesis by (simp add: rl_concerns_def)
  next
    case False
    with "2.IH" [OF a [symmetric] rl_same_other [OF "2.prems" False a]] a show ?thesis by (simp add: rl_concerns_def)
  qed
qed (simp_all add: rl_concerns_def rl_same_tick)

text \<open>
  C23. Clients are limited independently: in every history of requests and evictions the answers one
  client address gets are those it would get if it were the only client, whatever token bucket the
  limiter uses.
\<close>

theorem rate_limit_isolated:
  "filter (\<lambda>(i, ok). i = ip) (rl_run lib es (newIPRateLimiter r burst)) =
   rl_run lib (filter (rl_concerns ip) es) (newIPRateLimiter r burst)"
  by (rule rl_run_isolated) (simp add: rl_same_def newIPRateLimiter_def)

section \<open>Witnesses\<close>

definition witness_server :: "(fakeStore, unit) API" where
  "witness_server = newAPI \<lparr>NewRequest = (\<lambda>u. None), Do = (\<lambda>u w. (Inl (ErrorsNew ''down''), w))\<rparr> (\<lambda>w. 0) demo_config fake_Store
     [(''priv'', [(''b'', \<lparr>foContent = ''123'', foLastModified = []\<rparr>)])]"

theorem server_run_safe_witness:
  "\<exists>e. LookupByRoute (aCatalog (bootstrap witness_server)) ''/priv/b'' = Some e \<and>
     Lookup (aCatalog (bootstrap witness_server)) (eKey e) = Some e \<and> eRoute e = ''/priv/b''"
proof -
  have run: "(server_step witness_lib)\<^sup>*\<^sup>* witness_server (bootstrap witness_server)" by (intro r_into_rtranclp boot)
  have "LookupByRoute (aCatalog (bootstrap witness_server)) ''/priv/b'' \<noteq> None" by code_simp
  with server_run_safe [OF run [unfolded witness_server_def]] show ?thesis unfolding witness_server_def by blast
qed

lemma fake_store_reads: "store_reads fake_Store"
  by (simp add: store_reads_def fake_Store_def)

theorem service_becomes_ready_witness:
  "\<exists>body. Routes witness_lib (get ''/readiness'' ''/readiness'' []) (bootstrap witness_server) = (JSONReply 200 body, bootstrap witness_server)"
proof -
  have "store_reads (rStore (aResolver witness_server))"
    by (simp add: witness_server_def service_New_def resolver_New_def fake_store_reads)
  from service_becomes_ready [OF this rtranclp.rtrancl_refl] show ?thesis by (simp add: get_def)
qed

end
