(* ===== verification/Lifecycle.thy ===== *)
theory Lifecycle
  imports Server
begin

text \<open>
  The lifetime of the process (\<^verbatim>\<open>run\<close> of \<^verbatim>\<open>cmd/parparchik/main.go\<close>): the goroutine that listens, the channel
  \<^verbatim>\<open>serverErr\<close>, the background goroutines, the signal that cancels the context, the graceful shutdown and
  what \<^verbatim>\<open>run\<close> returns. The goroutines run in any order; a step of the service is one of \<open>server_step\<close>.
\<close>

section \<open>The goroutines\<close>

definition ErrServerClosed :: go_error where
  "ErrServerClosed = ErrorsNew ''http: Server closed''"

text \<open>
  Where \<^verbatim>\<open>run\<close> is: in the select statement, inside \<^verbatim>\<open>server.Shutdown\<close>, receiving from \<^verbatim>\<open>serverErr\<close> afterwards, or
  returned. A goroutine is running or has ended; the channel has room for one value.
\<close>

datatype phase = Selecting | ShuttingDown | Draining | Returned "go_error option"

record ('w, 'l) process =
  pAPI :: "('w, 'l) API"
  pPhase :: phase
  pListening :: bool
  pServerErr :: "go_error option list"
  pCtxDone :: bool
  pBootstrapping :: bool
  pSyncing :: bool

definition startProcess :: "('w, 'l) API \<Rightarrow> ('w, 'l) process" where
  "startProcess a =
     \<lparr>pAPI = a, pPhase = Selecting, pListening = True, pServerErr = [], pCtxDone = False,
      pBootstrapping = True, pSyncing = \<not> le64 (cSyncInterval (aCfg a)) 0\<rparr>"

text \<open>\<^verbatim>\<open>run\<close> with its two early returns.\<close>

definition run_start ::
    "go_float \<Rightarrow> getenv \<Rightarrow> ('a, 'w) s3_sdk \<Rightarrow> 'w http_client \<Rightarrow> ('w \<Rightarrow> instant) \<Rightarrow> 'w \<Rightarrow> go_error + ('w, 'l) process" where
  "run_start fl getenv sdk http now w =
     (case run_setup fl getenv sdk http now w of Inl err \<Rightarrow> Inl err | Inr a \<Rightarrow> Inr (startProcess a))"

text \<open>The listening goroutine once \<^verbatim>\<open>ListenAndServe\<close> has returned: what it sends.\<close>

definition serverErrOf :: "go_error \<Rightarrow> go_error option" where
  "serverErrOf err = (if \<not> errors_Is err ErrServerClosed then Some err else None)"

definition listenReturns :: "go_error \<Rightarrow> ('w, 'l) process \<Rightarrow> ('w, 'l) process" where
  "listenReturns err p = p\<lparr>pListening := False, pServerErr := pServerErr p @ [serverErrOf err]\<rparr>"

definition returns :: "go_error option \<Rightarrow> ('w, 'l) process \<Rightarrow> ('w, 'l) process" where
  "returns err p = p\<lparr>pPhase := Returned err\<rparr>"

definition shutdownReturns :: "go_error option \<Rightarrow> ('w, 'l) process \<Rightarrow> ('w, 'l) process" where
  "shutdownReturns err p =
     (case err of
        Some e \<Rightarrow> returns (Some (Errorf ''graceful shutdown: %w'' [] [e])) p
      | None \<Rightarrow> p\<lparr>pPhase := Draining\<rparr>)"

definition receiveServerErr :: "('w, 'l) process \<Rightarrow> ('w, 'l) process" where
  "receiveServerErr p = returns (hd (pServerErr p)) (p\<lparr>pServerErr := tl (pServerErr p)\<rparr>)"

text \<open>
  The steps of \<^verbatim>\<open>run\<close> and of the listening goroutine. \<^verbatim>\<open>ListenAndServe\<close> returns \<^verbatim>\<open>ErrServerClosed\<close> exactly
  when \<^verbatim>\<open>Shutdown\<close> has been called, another error at any time before. A send needs room in the channel.
\<close>

inductive control_step :: "('w, 'l) process \<Rightarrow> ('w, 'l) process \<Rightarrow> bool" where
  listen_fails: "pListening p \<Longrightarrow> pServerErr p = [] \<Longrightarrow> \<not> errors_Is err ErrServerClosed \<Longrightarrow> \<nexists>res. pPhase p = Returned res \<Longrightarrow>
     control_step p (listenReturns err p)"
| listen_closed: "pListening p \<Longrightarrow> pServerErr p = [] \<Longrightarrow> pPhase p = ShuttingDown \<or> pPhase p = Draining \<Longrightarrow>
     control_step p (listenReturns ErrServerClosed p)"
| select_error: "pPhase p = Selecting \<Longrightarrow> pServerErr p \<noteq> [] \<Longrightarrow> control_step p (receiveServerErr p)"
| select_done: "pPhase p = Selecting \<Longrightarrow> pCtxDone p \<Longrightarrow> control_step p (p\<lparr>pPhase := ShuttingDown\<rparr>)"
| shutdown: "pPhase p = ShuttingDown \<Longrightarrow> control_step p (shutdownReturns err p)"
| drain: "pPhase p = Draining \<Longrightarrow> pServerErr p \<noteq> [] \<Longrightarrow> control_step p (receiveServerErr p)"

text \<open>
  The other steps, while \<^verbatim>\<open>run\<close> has not returned: the signal, the service (requests until the shutdown is
  complete), the bootstrap, which runs once, and the sync, which ends when the context is done.
\<close>

inductive service_step :: "'l rate_lib \<Rightarrow> ('w, 'l) process \<Rightarrow> ('w, 'l) process \<Rightarrow> bool" for lib where
  signal: "service_step lib p (p\<lparr>pCtxDone := True\<rparr>)"
| request: "pPhase p = Selecting \<or> pPhase p = ShuttingDown \<Longrightarrow> Routes lib r (pAPI p) = (rep, a) \<Longrightarrow>
     service_step lib p (p\<lparr>pAPI := a\<rparr>)"
| booted: "pBootstrapping p \<Longrightarrow> service_step lib p (p\<lparr>pAPI := bootstrap (pAPI p), pBootstrapping := False\<rparr>)"
| tick: "pSyncing p \<Longrightarrow> service_step lib p (p\<lparr>pAPI := syncTick (pAPI p)\<rparr>)"
| sync_ends: "pCtxDone p \<Longrightarrow> service_step lib p (p\<lparr>pSyncing := False\<rparr>)"
| idle: "service_step lib p (p\<lparr>pAPI := evictIdle (pAPI p)\<rparr>)"
| world: "service_step lib p (p\<lparr>pAPI := (pAPI p)\<lparr>aResolver := (aResolver (pAPI p))\<lparr>rWorld := w\<rparr>\<rparr>\<rparr>)"

inductive process_step :: "'l rate_lib \<Rightarrow> ('w, 'l) process \<Rightarrow> ('w, 'l) process \<Rightarrow> bool" for lib where
  control: "control_step p p' \<Longrightarrow> process_step lib p p'"
| service: "\<nexists>res. pPhase p = Returned res \<Longrightarrow> service_step lib p p' \<Longrightarrow> process_step lib p p'"

section \<open>What the process keeps\<close>

lemma service_step_api: "service_step lib p p' \<Longrightarrow> (server_step lib)\<^sup>=\<^sup>= (pAPI p) (pAPI p')"
  by (cases rule: service_step.cases) (auto intro: server_step.intros)

lemma control_step_api: "control_step p p' \<Longrightarrow> pAPI p' = pAPI p \<and> pCtxDone p' = pCtxDone p"
  by (cases rule: control_step.cases)
     (auto simp: listenReturns_def receiveServerErr_def returns_def shutdownReturns_def split: option.splits)

text \<open>Whatever the process does to the service is a run of the service.\<close>

lemma process_serves: "(process_step lib)\<^sup>*\<^sup>* p p' \<Longrightarrow> (server_step lib)\<^sup>*\<^sup>* (pAPI p) (pAPI p')"
proof (induction rule: rtranclp_induct)
  case (step q r)
  from step(2) have "(server_step lib)\<^sup>=\<^sup>= (pAPI q) (pAPI r)"
    by (cases rule: process_step.cases) (auto dest: control_step_api service_step_api)
  with step(3) show ?case by (auto intro: rtranclp.rtrancl_into_rtrancl)
qed simp

lemma service_step_control:
  "service_step lib p p' \<Longrightarrow> pPhase p' = pPhase p \<and> pListening p' = pListening p \<and> pServerErr p' = pServerErr p \<and> (pCtxDone p \<longrightarrow> pCtxDone p')"
  by (cases rule: service_step.cases) auto

text \<open>
  While \<^verbatim>\<open>run\<close> has not returned, the channel holds a value exactly when the listening goroutine has ended;
  the value is \<^verbatim>\<open>nil\<close> only after the shutdown has begun, which needs the signal.
\<close>

definition process_inv :: "('w, 'l) process \<Rightarrow> bool" where
  "process_inv p \<longleftrightarrow>
     (case pPhase p of
        Selecting \<Rightarrow> (if pListening p then pServerErr p = [] else \<exists>e. pServerErr p = [Some e] \<and> \<not> errors_Is e ErrServerClosed)
      | Returned None \<Rightarrow> pCtxDone p \<and> \<not> pListening p
      | Returned (Some err) \<Rightarrow>
          \<not> pListening p \<and> \<not> errors_Is err ErrServerClosed \<or> pCtxDone p \<and> (\<exists>e. err = Errorf ''graceful shutdown: %w'' [] [e])
      | _ \<Rightarrow> pCtxDone p \<and>
          (if pListening p then pServerErr p = []
           else \<exists>v. pServerErr p = [v] \<and> (\<forall>e. v = Some e \<longrightarrow> \<not> errors_Is e ErrServerClosed)))"

lemma process_inv_start: "process_inv (startProcess a)"
  by (simp add: process_inv_def startProcess_def)

lemma control_step_inv:
  assumes "control_step p p'" and inv: "process_inv p" shows "process_inv p'"
  using assms(1)
proof cases
  case (listen_fails err)
  with inv show ?thesis by (cases "pPhase p") (simp_all add: process_inv_def listenReturns_def serverErrOf_def)
next
  case listen_closed
  with inv show ?thesis by (cases "pPhase p") (simp_all add: process_inv_def listenReturns_def serverErrOf_def ErrServerClosed_def)
next
  case select_error
  with inv show ?thesis by (auto simp: process_inv_def receiveServerErr_def returns_def split: if_splits)
next
  case select_done
  with inv show ?thesis by (auto simp: process_inv_def split: if_splits)
next
  case (shutdown err)
  with inv show ?thesis by (cases err) (simp_all add: process_inv_def shutdownReturns_def returns_def)
next
  case drain
  with inv obtain v where "pServerErr p = [v]" "pCtxDone p" "\<not> pListening p" "\<forall>e. v = Some e \<longrightarrow> \<not> errors_Is e ErrServerClosed"
    by (auto simp: process_inv_def split: if_splits)
  with drain show ?thesis by (cases v) (simp_all add: process_inv_def receiveServerErr_def returns_def)
qed

lemma service_step_inv:
  assumes "service_step lib p p'" and "process_inv p" shows "process_inv p'"
proof (cases "pPhase p")
  case (Returned res)
  with assms(2) service_step_control [OF assms(1)] show ?thesis by (cases res) (auto simp: process_inv_def)
qed (use assms(2) service_step_control [OF assms(1)] in \<open>simp_all add: process_inv_def\<close>)

lemma process_reachable_inv: "(process_step lib)\<^sup>*\<^sup>* (startProcess a) p \<Longrightarrow> process_inv p"
proof (induction rule: rtranclp_induct)
  case base
  show ?case by (rule process_inv_start)
next
  case (step q r)
  from step(2,3) show ?case by (cases rule: process_step.cases) (auto intro: control_step_inv service_step_inv)
qed

text \<open>How many steps \<^verbatim>\<open>run\<close> and the listening goroutine have left.\<close>

definition remaining :: "('w, 'l) process \<Rightarrow> nat" where
  "remaining p =
     (case pPhase p of Returned _ \<Rightarrow> 0
      | Selecting \<Rightarrow> 3 + (if pListening p then 1 else 0)
      | ShuttingDown \<Rightarrow> 2 + (if pListening p then 1 else 0)
      | Draining \<Rightarrow> 1 + (if pListening p then 1 else 0))"

lemma control_step_remaining: "control_step p p' \<Longrightarrow> remaining p' < remaining p"
  by (cases rule: control_step.cases)
     (auto simp: remaining_def listenReturns_def receiveServerErr_def returns_def shutdownReturns_def split: phase.splits option.splits)

lemma control_step_enabled:
  assumes "process_inv p" and "pCtxDone p" and "\<nexists>res. pPhase p = Returned res" shows "\<exists>p'. control_step p p'"
proof (cases "pPhase p")
  case Draining
  show ?thesis
  proof (cases "pListening p")
    case True
    with assms(1) Draining have "pServerErr p = []" by (simp add: process_inv_def)
    with True Draining show ?thesis using listen_closed [of p] by blast
  next
    case False
    with assms(1) Draining have "pServerErr p \<noteq> []" by (auto simp: process_inv_def)
    with Draining show ?thesis using drain [of p] by blast
  qed
qed (use assms in \<open>auto intro: select_done shutdown\<close>)

text \<open>
  C7. Why the process ends: \<^verbatim>\<open>run\<close> returns no error only after a signal and when the server no longer listens;
  an error it returns is one that stopped the server before it was asked to stop, or the failure of the
  graceful shutdown after a signal.
\<close>

theorem run_exit_reason:
  assumes "(process_step lib)\<^sup>*\<^sup>* (startProcess a) p" and "pPhase p = Returned res"
  shows "(res = None \<longrightarrow> pCtxDone p \<and> \<not> pListening p) \<and>
    (\<forall>err. res = Some err \<longrightarrow>
       \<not> pListening p \<and> \<not> errors_Is err ErrServerClosed \<or> pCtxDone p \<and> (\<exists>e. err = Errorf ''graceful shutdown: %w'' [] [e]))"
  using process_reachable_inv [OF assms(1)] assms(2) by (auto simp: process_inv_def split: option.splits)

text \<open>A signal, a shutdown that succeeds, and the return of \<^verbatim>\<open>run\<close>.\<close>

definition witness_signalled :: "(fakeStore, unit) process" where
  "witness_signalled = (startProcess witness_server)\<lparr>pCtxDone := True\<rparr>"

definition witness_drained :: "(fakeStore, unit) process" where
  "witness_drained = listenReturns ErrServerClosed (shutdownReturns None (witness_signalled\<lparr>pPhase := ShuttingDown\<rparr>))"

lemma witness_signalled_run: "(process_step witness_lib)\<^sup>*\<^sup>* (startProcess witness_server) witness_signalled"
  unfolding witness_signalled_def by (intro r_into_rtranclp service signal) (simp add: startProcess_def)

lemma witness_drained_run: "(process_step witness_lib)\<^sup>*\<^sup>* (startProcess witness_server) (receiveServerErr witness_drained)"
proof -
  let ?s = "witness_signalled\<lparr>pPhase := ShuttingDown\<rparr>"
  have "control_step witness_signalled ?s" by (rule select_done) (simp_all add: witness_signalled_def startProcess_def)
  moreover have "control_step ?s (shutdownReturns None ?s)" by (rule control_step.shutdown) simp
  moreover have "control_step (shutdownReturns None ?s) witness_drained"
    unfolding witness_drained_def by (rule listen_closed) (simp_all add: shutdownReturns_def witness_signalled_def startProcess_def)
  moreover have "control_step witness_drained (receiveServerErr witness_drained)"
    by (rule drain) (simp_all add: witness_drained_def listenReturns_def shutdownReturns_def)
  ultimately show ?thesis using witness_signalled_run by (meson control rtranclp.rtrancl_into_rtrancl)
qed

theorem run_exit_reason_witness:
  "pPhase (receiveServerErr witness_drained) = Returned None \<and> pCtxDone (receiveServerErr witness_drained) \<and>
   \<not> pListening (receiveServerErr witness_drained)"
proof -
  have "pPhase (receiveServerErr witness_drained) = Returned None"
    by (simp add: receiveServerErr_def returns_def witness_drained_def listenReturns_def shutdownReturns_def serverErrOf_def
        ErrServerClosed_def witness_signalled_def startProcess_def)
  with run_exit_reason [OF witness_drained_run this] show ?thesis by blast
qed

text \<open>
  C6. The process stops when asked to: in every state it can reach after a signal, whatever requests, syncs
  and failures came in between, \<^verbatim>\<open>run\<close> or the listening goroutine can go on until \<^verbatim>\<open>run\<close> has returned, every
  such step brings the end closer, no other step delays it, there are at most four of them, and a send
  to \<^verbatim>\<open>serverErr\<close> never blocks.
\<close>

theorem run_stops:
  assumes "(process_step lib)\<^sup>*\<^sup>* (startProcess a) p" and "pCtxDone p"
  shows "((\<exists>res. pPhase p = Returned res) \<or> (\<exists>p'. control_step p p')) \<and> remaining p \<le> 4 \<and>
    (\<forall>p'. control_step p p' \<longrightarrow> remaining p' < remaining p) \<and>
    (\<forall>p'. service_step lib p p' \<longrightarrow> remaining p' = remaining p \<and> pCtxDone p') \<and>
    ((\<exists>res. pPhase p = Returned res) \<or> (pListening p \<longrightarrow> pServerErr p = []))"
proof (intro conjI allI impI)
  have inv: "process_inv p" by (rule process_reachable_inv [OF assms(1)])
  show "(\<exists>res. pPhase p = Returned res) \<or> (\<exists>p'. control_step p p')" using control_step_enabled [OF inv assms(2)] by blast
  show "remaining p \<le> 4" by (simp add: remaining_def split: phase.split)
  show "control_step p p' \<Longrightarrow> remaining p' < remaining p" for p' by (rule control_step_remaining)
  show "service_step lib p p' \<Longrightarrow> remaining p' = remaining p" "service_step lib p p' \<Longrightarrow> pCtxDone p'" for p'
    using service_step_control [of lib p p'] assms(2) by (auto simp: remaining_def)
  show "(\<exists>res. pPhase p = Returned res) \<or> (pListening p \<longrightarrow> pServerErr p = [])"
    using inv by (auto simp: process_inv_def split: phase.splits option.splits if_splits)
qed

theorem run_stops_witness: "(\<exists>p. control_step witness_signalled p) \<and> remaining witness_signalled \<le> 4"
proof -
  have "pCtxDone witness_signalled" "pPhase witness_signalled = Selecting" by (simp_all add: witness_signalled_def startProcess_def)
  with run_stops [OF witness_signalled_run this(1)] show ?thesis by auto
qed

end
