(* ===== verification/Authz.thy ===== *)
theory Authz
  imports Prelude
begin

text \<open>
  Role-based authorization (\<^verbatim>\<open>internal/authz\<close>): grants, roles, the authorizer and the service accounts
  that map API keys to principals. Slices are copied on construction, so values suffice.
\<close>

type_synonym Action = string

definition ActionRead :: Action where "ActionRead = ''read''"
definition ActionWrite :: Action where "ActionWrite = ''write''"
definition ActionRelocate :: Action where "ActionRelocate = ''relocate''"
definition ActionAdmin :: Action where "ActionAdmin = ''admin''"

definition wildcardRepo :: string where "wildcardRepo = ''*''"

record Grant =
  gRepo :: string
  gActions :: "Action list"

fun anyAction :: "Action list \<Rightarrow> Action \<Rightarrow> bool" where
  "anyAction [] action = False"
| "anyAction (a # as) action = (if a = action then True else anyAction as action)"

definition grant_matches :: "Grant \<Rightarrow> string \<Rightarrow> Action \<Rightarrow> bool" where
  "grant_matches g repo action =
     (if gRepo g \<noteq> wildcardRepo \<and> gRepo g \<noteq> repo then False else anyAction (gActions g) action)"

record Role =
  roName :: string
  roGrants :: "Grant list"

record Principal =
  prID :: string
  prRoles :: "string list"

record Authorizer =
  azRoles :: "(string, Role) gomap"

definition cloneRole :: "Role \<Rightarrow> Role" where
  "cloneRole r = \<lparr>roName = roName r, roGrants = map (\<lambda>g. \<lparr>gRepo = gRepo g, gActions = gActions g\<rparr>) (roGrants r)\<rparr>"

definition NewAuthorizer :: "Role list \<Rightarrow> Authorizer" where
  "NewAuthorizer roles = \<lparr>azRoles = foldl (\<lambda>byName r. gm_set (roName r) (cloneRole r) byName) [] roles\<rparr>"

fun anyGrant :: "Grant list \<Rightarrow> string \<Rightarrow> Action \<Rightarrow> bool" where
  "anyGrant [] repo action = False"
| "anyGrant (g # gs) repo action = (if grant_matches g repo action then True else anyGrant gs repo action)"

fun anyRole :: "Authorizer \<Rightarrow> string list \<Rightarrow> Action \<Rightarrow> string \<Rightarrow> bool" where
  "anyRole a [] action repo = False"
| "anyRole a (roleName # rs) action repo =
     (case gm_get (azRoles a) roleName of
        None \<Rightarrow> anyRole a rs action repo
      | Some role \<Rightarrow> if anyGrant (roGrants role) repo action then True else anyRole a rs action repo)"

definition Allowed :: "Authorizer \<Rightarrow> Principal \<Rightarrow> Action \<Rightarrow> string \<Rightarrow> bool" where
  "Allowed a p action repo = anyRole a (prRoles p) action repo"

section \<open>Service accounts\<close>

record ServiceAccounts =
  saByKey :: "(string, Principal) gomap"

definition NewServiceAccounts :: "(string, Principal) gomap \<Rightarrow> ServiceAccounts" where
  "NewServiceAccounts principals =
     \<lparr>saByKey = foldl (\<lambda>m (k, p). gm_set k \<lparr>prID = prID p, prRoles = prRoles p\<rparr> m) [] principals\<rparr>"

definition sa_Principal :: "ServiceAccounts \<Rightarrow> string \<Rightarrow> Principal option" where
  "sa_Principal s apiKey = gm_get (saByKey s) apiKey"

definition SuperuserRoleName :: string where "SuperuserRoleName = ''superuser''"

definition SuperuserRole :: Role where
  "SuperuserRole =
     \<lparr>roName = SuperuserRoleName,
      roGrants = [\<lparr>gRepo = wildcardRepo, gActions = [ActionRead, ActionWrite, ActionRelocate, ActionAdmin]\<rparr>]\<rparr>"

section \<open>Decisions\<close>

lemma anyAction_iff: "anyAction as action \<longleftrightarrow> action \<in> set as"
  by (induction as) auto

lemma grant_matches_iff: "grant_matches g repo action \<longleftrightarrow> gRepo g \<in> {''*'', repo} \<and> action \<in> set (gActions g)"
  by (auto simp: grant_matches_def anyAction_iff wildcardRepo_def)

lemma anyGrant_iff: "anyGrant gs repo action \<longleftrightarrow> (\<exists>g \<in> set gs. grant_matches g repo action)"
  by (induction gs) auto

lemma anyRole_iff:
  "anyRole a rs action repo \<longleftrightarrow>
     (\<exists>n \<in> set rs. \<exists>role. gm_get (azRoles a) n = Some role \<and> (\<exists>g \<in> set (roGrants role). grant_matches g repo action))"
  by (induction rs) (auto simp: anyGrant_iff split: option.splits)

lemma cloneRole_id [simp]: "cloneRole r = r"
proof -
  have "map (\<lambda>g. \<lparr>gRepo = gRepo g, gActions = gActions g\<rparr>) gs = gs" for gs :: "Grant list" by (intro map_idI) simp
  then show ?thesis by (cases r) (simp add: cloneRole_def)
qed

text \<open>Of several roles with one name the last one counts.\<close>

definition roleNamed :: "Role list \<Rightarrow> string \<Rightarrow> Role option" where
  "roleNamed roles n = List.find (\<lambda>r. roName r = n) (rev roles)"

lemma azRoles_New: "gm_get (azRoles (NewAuthorizer roles)) n = roleNamed roles n"
proof -
  have "gm_get (foldl (\<lambda>byName r. gm_set (roName r) (cloneRole r) byName) [] roles) n = List.find (\<lambda>r. roName r = n) (rev roles)"
    by (induction roles rule: rev_induct) auto
  then show ?thesis by (simp add: NewAuthorizer_def roleNamed_def)
qed

text \<open>
  Authorization denies by default: a principal may perform an action on a repository exactly when
  one of its role names is the name of a defined role (the last definition of that name counts)
  and that role has a grant for this repository or for all of them that lists the action.
\<close>

theorem Allowed_iff:
  "Allowed (NewAuthorizer roles) p action repo \<longleftrightarrow>
     (\<exists>n \<in> set (prRoles p). \<exists>role. roleNamed roles n = Some role \<and>
        (\<exists>g \<in> set (roGrants role). gRepo g \<in> {''*'', repo} \<and> action \<in> set (gActions g)))"
  by (simp add: Allowed_def anyRole_iff azRoles_New grant_matches_iff)

lemma sa_Principal_New:
  assumes "gm_ok ps" shows "sa_Principal (NewServiceAccounts ps) k = gm_get ps k"
proof -
  have p: "\<lparr>prID = prID p, prRoles = prRoles p\<rparr> = p" for p :: Principal by (cases p) simp
  have "gm_ok ps \<Longrightarrow> gm_get (foldl (\<lambda>m (k, p). gm_set k \<lparr>prID = prID p, prRoles = prRoles p\<rparr> m) m ps) k =
      (case gm_get ps k of Some p \<Rightarrow> Some p | None \<Rightarrow> gm_get m k)" for m
  proof (induction ps arbitrary: m)
    case (Cons x ps)
    obtain k' v where x: "x = (k', v)" by fastforce
    have ok: "gm_ok ps" "gm_get ps k' = None" using Cons.prems by (auto simp: x gm_ok_def gm_get_def map_of_eq_None_iff)
    show ?case using Cons.IH [OF ok(1)] ok(2) by (auto simp: x p split: option.split)
  qed simp
  with assms show ?thesis by (simp add: sa_Principal_def NewServiceAccounts_def split: option.split)
qed

text \<open>
  A deployment that maps its API keys to principals holding only the superuser role grants each of
  the four actions on every repository to exactly the keys it maps.
\<close>

lemma superuser_accounts:
  assumes "gm_ok ps" and "\<forall>k p. gm_get ps k = Some p \<longrightarrow> prRoles p = [SuperuserRoleName]"
    and "action \<in> {ActionRead, ActionWrite, ActionRelocate, ActionAdmin}"
  shows "(case sa_Principal (NewServiceAccounts ps) key of
            Some p \<Rightarrow> Allowed (NewAuthorizer [SuperuserRole]) p action repo | None \<Rightarrow> False) \<longleftrightarrow> key \<in> fst ` set ps"
proof (cases "gm_get ps key")
  case None
  then have "key \<notin> fst ` set ps" by (simp add: gm_get_def map_of_eq_None_iff)
  with None show ?thesis by (simp add: sa_Principal_New [OF assms(1)])
next
  case (Some p)
  then have "key \<in> fst ` set ps" by (auto simp: gm_get_def dest!: map_of_SomeD intro: rev_image_eqI)
  moreover have "Allowed (NewAuthorizer [SuperuserRole]) p action repo"
    using assms(2,3) Some
    by (auto simp: Allowed_def anyRole_iff azRoles_New roleNamed_def SuperuserRole_def grant_matches_iff wildcardRepo_def)
  ultimately show ?thesis using Some by (simp add: sa_Principal_New [OF assms(1)])
qed

end
