(* ===== verification/Cleanup.thy ===== *)
theory Cleanup
  imports Catalog Objectstore
begin

text \<open>
  Retention (\<^verbatim>\<open>internal/cleanup\<close>): the pure \<^verbatim>\<open>Plan\<close> of what to delete and \<^verbatim>\<open>Execute\<close>, which deletes it from the
  store and the catalog. Sizes are \<^verbatim>\<open>int64\<close> and their sum wraps around.
\<close>

section \<open>cleanup.go\<close>

record Rule =
  MaxAge :: duration
  MaxTotalSize :: int64
  MaxVersionCount :: int
  GroupKey :: "(Entry \<Rightarrow> string) option"

type_synonym ages = "(string, instant) gomap"

definition parseAges :: "Entry list \<Rightarrow> ages" where
  "parseAges entries =
     foldl (\<lambda>m e. case time_Parse (eLastModified e) of Some t \<Rightarrow> gm_set (eKey e) t m | None \<Rightarrow> m) [] entries"

text \<open>The comparison both sorts use: oldest first, ties by key, entries without a timestamp last.\<close>

definition ageLess :: "ages \<Rightarrow> Entry \<Rightarrow> Entry \<Rightarrow> bool" where
  "ageLess ages a b =
     (case (gm_get ages (eKey a), gm_get ages (eKey b)) of
        (Some ti, Some tj) \<Rightarrow> if ti = tj then eKey a < eKey b else ti < tj
      | (ti, tj) \<Rightarrow> ti \<noteq> None \<and> tj = None)"

fun evictOldest :: "int64 \<Rightarrow> ages \<Rightarrow> int64 \<Rightarrow> Entry list \<Rightarrow> Entry list" where
  "evictOldest maxTotal ages tot [] = []"
| "evictOldest maxTotal ages tot (e # es) =
     (if le64 tot maxTotal then []
      else if gm_get ages (eKey e) = None then evictOldest maxTotal ages tot es
      else e # evictOldest maxTotal ages (tot - eSize e) es)"

definition oldestFirst :: "Rule \<Rightarrow> Entry list \<Rightarrow> ages \<Rightarrow> Entry list" where
  "oldestFirst r entries ages =
     (let tot = foldl (\<lambda>t e. t + eSize e) 0 entries
      in if le64 tot (MaxTotalSize r) then []
         else evictOldest (MaxTotalSize r) ages tot (sort_slice (ageLess ages) entries))"

definition groupEntries :: "(Entry \<Rightarrow> string) \<Rightarrow> Entry list \<Rightarrow> (string, Entry list) gomap" where
  "groupEntries groupKey entries =
     foldl (\<lambda>m e. let key = groupKey e
                  in if key = [] then m
                     else gm_set key ((case gm_get m key of Some g \<Rightarrow> g | None \<Rightarrow> []) @ [e]) m) [] entries"

fun evictOverflow :: "ages \<Rightarrow> int \<Rightarrow> Entry list \<Rightarrow> Entry list" where
  "evictOverflow ages overflow [] = []"
| "evictOverflow ages overflow (e # es) =
     (if gm_get ages (eKey e) = None then evictOverflow ages overflow es
      else if overflow = 0 then []
      else e # evictOverflow ages (overflow - 1) es)"

definition groupOverflow :: "Rule \<Rightarrow> ages \<Rightarrow> Entry list \<Rightarrow> Entry list" where
  "groupOverflow r ages grp =
     (if int (length grp) \<le> MaxVersionCount r then []
      else evictOverflow ages (int (length grp) - MaxVersionCount r) (sort_slice (ageLess ages) grp))"

definition versionOverflow :: "Rule \<Rightarrow> (Entry \<Rightarrow> string) \<Rightarrow> Entry list \<Rightarrow> ages \<Rightarrow> Entry list" where
  "versionOverflow r groupKey entries ages = concat (map (\<lambda>(k, grp). groupOverflow r ages grp) (groupEntries groupKey entries))"

definition addVictims :: "Entry list \<Rightarrow> (string, Entry) gomap \<Rightarrow> (string, Entry) gomap" where
  "addVictims es victims = foldl (\<lambda>m e. gm_set (eKey e) e m) victims es"

definition tooOld :: "Rule \<Rightarrow> instant \<Rightarrow> ages \<Rightarrow> Entry \<Rightarrow> bool" where
  "tooOld r now ages e \<longleftrightarrow>
     (case gm_get ages (eKey e) of None \<Rightarrow> False | Some t \<Rightarrow> lt64 (MaxAge r) (time_Sub now t))"

definition Plan :: "Rule \<Rightarrow> Entry list \<Rightarrow> instant \<Rightarrow> Entry list" where
  "Plan r entries now =
     (let ages = parseAges entries;
          v1 = (if lt64 0 (MaxAge r) then addVictims (filter (tooOld r now ages) entries) [] else []);
          v2 = (if lt64 0 (MaxTotalSize r) then addVictims (oldestFirst r entries ages) v1 else v1);
          v3 = (case GroupKey r of
                  Some groupKey \<Rightarrow>
                    if MaxVersionCount r > 0 then addVictims (versionOverflow r groupKey entries ages) v2 else v2
                | None \<Rightarrow> v2)
      in sort_slice keyLess (map snd v3))"

section \<open>execute.go\<close>

fun executeAll :: "'w Store \<Rightarrow> Entry list \<Rightarrow> go_error list \<Rightarrow> Catalog \<Rightarrow> 'w \<Rightarrow> go_error list \<times> Catalog \<times> 'w" where
  "executeAll store [] errs cat w = (errs, cat, w)"
| "executeAll store (victim # vs) errs cat w =
     (case sDeleteObject store (eBucket victim) (eKey victim) w of
        (Some err, w') \<Rightarrow>
          executeAll store vs (errs @ [Errorf ''cleanup: delete %q/%q: %w'' [eBucket victim, eKey victim] [err]]) cat w'
      | (None, w') \<Rightarrow> executeAll store vs errs (Remove (eKey victim) cat) w')"

definition Execute :: "'w Store \<Rightarrow> Catalog \<Rightarrow> Entry list \<Rightarrow> 'w \<Rightarrow> go_error option \<times> Catalog \<times> 'w" where
  "Execute store cat victims w =
     (case executeAll store victims [] cat w of (errs, cat', w') \<Rightarrow> (errors_Join errs, cat', w'))"

section \<open>Ages\<close>

definition knownAge :: "Entry \<Rightarrow> instant option" where
  "knownAge e = time_Parse (eLastModified e)"

lemma parseAges_get:
  assumes "distinct (map eKey es)" and "e \<in> set es"
  shows "gm_get (parseAges es) (eKey e) = knownAge e"
proof -
  have "gm_get (foldl (\<lambda>m e. case time_Parse (eLastModified e) of Some t \<Rightarrow> gm_set (eKey e) t m | None \<Rightarrow> m) m es) k =
      (case List.find (\<lambda>e. eKey e = k \<and> knownAge e \<noteq> None) (rev es) of Some e \<Rightarrow> knownAge e | None \<Rightarrow> gm_get m k)" for m k
    by (induction es rule: rev_induct) (auto simp: knownAge_def split: option.splits)
  then have g: "gm_get (parseAges es) k =
      (case List.find (\<lambda>e. eKey e = k \<and> knownAge e \<noteq> None) (rev es) of Some e \<Rightarrow> knownAge e | None \<Rightarrow> None)" for k
    by (simp add: parseAges_def split: option.split)
  show ?thesis
  proof (cases "List.find (\<lambda>x. eKey x = eKey e \<and> knownAge x \<noteq> None) (rev es)")
    case None
    with assms(2) have "knownAge e = None" by (auto simp: find_None_iff)
    then show ?thesis using None g by simp
  next
    case (Some x)
    then have "x \<in> set es" "eKey x = eKey e" using find_Some_in [OF Some] by auto
    with assms have "x = e" by (auto dest: eq_key_imp_eq_value [of "map (\<lambda>x. (eKey x, x)) es"] simp: distinct_map inj_on_def)
    then show ?thesis using Some g by simp
  qed
qed

lemma ageLess_order: "strict_weak_order (ageLess ages)"
  by unfold_locales (auto simp: ageLess_def split: option.splits if_splits)

definition older :: "Entry \<Rightarrow> Entry \<Rightarrow> bool" where
  "older a b \<longleftrightarrow>
     (case (knownAge a, knownAge b) of
        (Some t, Some u) \<Rightarrow> t < u \<or> t = u \<and> eKey a < eKey b
      | _ \<Rightarrow> False)"

section \<open>Sums of sizes\<close>

definition sizeOf :: "Entry list \<Rightarrow> int" where
  "sizeOf es = (\<Sum>e\<leftarrow>es. sint (eSize e))"

lemma sizeOf_simps [simp]: "sizeOf [] = 0" "sizeOf (e # es) = sint (eSize e) + sizeOf es"
  by (simp_all add: sizeOf_def)

lemma sizeOf_append [simp]: "sizeOf (xs @ ys) = sizeOf xs + sizeOf ys"
  by (simp add: sizeOf_def)

lemma sizeOf_nonneg: "\<forall>e \<in> set es. 0 \<le> sint (eSize e) \<Longrightarrow> 0 \<le> sizeOf es"
  by (induction es) auto

lemma sizeOf_set: "distinct es \<Longrightarrow> sizeOf es = (\<Sum>e \<in> set es. sint (eSize e))"
  by (simp add: sizeOf_def sum_list_distinct_conv_sum_set)

lemma sizeOf_mset: "mset xs = mset ys \<Longrightarrow> sizeOf xs = sizeOf ys"
  by (metis mset_map sizeOf_def sum_mset_sum_list)

lemma sint_minus_small:
  assumes "0 \<le> sint b" and "sint b \<le> sint (a :: int64)" shows "sint (a - b) = sint a - sint b"
proof -
  have "sint a \<le> max64" using sint_lt [of a] by (simp add: max64_def)
  with assms sint_of_int_range [of "sint a - sint b"] show ?thesis by (simp add: min64_def)
qed

lemma sint_plus_small:
  assumes "0 \<le> sint a" and "0 \<le> sint b" and "sint a + sint (b :: int64) \<le> max64" shows "sint (a + b) = sint a + sint b"
  using assms sint_of_int_range [of "sint a + sint b"] by (simp add: min64_def)

lemma total_size:
  assumes "\<forall>e \<in> set es. 0 \<le> sint (eSize e)" and "0 \<le> sint t" and "sint t + sizeOf es \<le> max64"
  shows "sint (foldl (\<lambda>t e. t + eSize e) t es) = sint t + sizeOf es"
  using assms
proof (induction es arbitrary: t)
  case (Cons e es)
  have "0 \<le> sizeOf es" using Cons.prems(1) by (intro sizeOf_nonneg) simp
  then have s: "sint (t + eSize e) = sint t + sint (eSize e)" using Cons.prems by (intro sint_plus_small) auto
  with Cons show ?case by simp
qed simp

section \<open>What each rule evicts\<close>

lemma evictOldest_sub:
  "set (evictOldest m ages t es) \<subseteq> {e \<in> set es. gm_get ages (eKey e) \<noteq> None}"
  by (induction m ages t es rule: evictOldest.induct) auto

lemma evictOldest_distinct: "distinct es \<Longrightarrow> distinct (evictOldest m ages t es)"
proof (induction m ages t es rule: evictOldest.induct)
  case (2 m ages t e es)
  then show ?case using evictOldest_sub [of m ages "t - eSize e" es] by auto
qed simp

lemma evictOldest_budget:
  assumes "\<forall>e \<in> set es. 0 \<le> sint (eSize e)" and "sizeOf es \<le> sint t"
  shows "sint t - sizeOf (evictOldest m ages t es) \<le> sint m \<or>
         evictOldest m ages t es = filter (\<lambda>e. gm_get ages (eKey e) \<noteq> None) es"
  using assms
proof (induction m ages t es rule: evictOldest.induct)
  case (2 m ages t e es)
  have "0 \<le> sizeOf es" using "2.prems"(1) by (intro sizeOf_nonneg) simp
  then have "sint (t - eSize e) = sint t - sint (eSize e)" using "2.prems" by (intro sint_minus_small) auto
  with 2 \<open>0 \<le> sizeOf es\<close> show ?case by (auto simp: le64_def)
qed simp

lemma evictOldest_needed:
  assumes "\<forall>e \<in> set es. 0 \<le> sint (eSize e)" and "sizeOf es \<le> sint t" and "x \<in> set (evictOldest m ages t es)"
  shows "\<exists>ys zs. es = ys @ x # zs \<and> sint m < sint t - sizeOf (filter (\<lambda>e. gm_get ages (eKey e) \<noteq> None) ys)"
  using assms
proof (induction m ages t es rule: evictOldest.induct)
  case (2 m ages t e es)
  have ge: "0 \<le> sizeOf es" using "2.prems"(1) by (intro sizeOf_nonneg) simp
  then have d: "sint (t - eSize e) = sint t - sint (eSize e)" using "2.prems" by (intro sint_minus_small) auto
  have over: "\<not> le64 t m" using "2.prems"(3) by (auto split: if_splits)
  show ?case
  proof (cases "gm_get ages (eKey e) = None")
    case True
    then obtain ys zs where "es = ys @ x # zs" "sint m < sint t - sizeOf (filter (\<lambda>e. gm_get ages (eKey e) \<noteq> None) ys)"
      using "2.IH"(1) [OF over True] "2.prems" over by auto
    with True show ?thesis by (intro exI [of _ "e # ys"] exI [of _ zs]) simp
  next
    case False
    show ?thesis
    proof (cases "x = e")
      case True
      then show ?thesis using over by (intro exI [of _ "[]"] exI [of _ es]) (auto simp: le64_def)
    next
      case neq: False
      then obtain ys zs where "es = ys @ x # zs" "sint m < sint (t - eSize e) - sizeOf (filter (\<lambda>e. gm_get ages (eKey e) \<noteq> None) ys)"
        using "2.IH"(2) [OF over False] "2.prems" over False d by auto
      with False d show ?thesis by (intro exI [of _ "e # ys"] exI [of _ zs]) simp
    qed
  qed
qed simp

lemma evictOverflow_take:
  "0 \<le> k \<Longrightarrow> evictOverflow ages k es = take (nat k) (filter (\<lambda>e. gm_get ages (eKey e) \<noteq> None) es)"
proof (induction ages k es rule: evictOverflow.induct)
  case (2 ages k e es)
  show ?case
  proof (cases "k = 0")
    case False
    then have "nat k = Suc (nat (k - 1))" using 2 by simp
    with 2 False show ?thesis by auto
  qed (use 2 in auto)
qed simp

lemma groupEntries_get:
  "gm_get (groupEntries gk es) k =
     (let g = filter (\<lambda>e. gk e = k) es in if k = [] \<or> g = [] then None else Some g)"
  "gm_ok (groupEntries gk es)"
proof -
  have "gm_ok (groupEntries gk es) \<and> (\<forall>k. gm_get (groupEntries gk es) k =
     (let g = filter (\<lambda>e. gk e = k) es in if k = [] \<or> g = [] then None else Some g))"
    by (induction es rule: rev_induct) (auto simp: groupEntries_def Let_def split: option.splits)
  then show "gm_get (groupEntries gk es) k = (let g = filter (\<lambda>e. gk e = k) es in if k = [] \<or> g = [] then None else Some g)"
    "gm_ok (groupEntries gk es)" by blast+
qed

lemma versionOverflow_mem:
  "e \<in> set (versionOverflow r gk es ages) \<longleftrightarrow>
     (\<exists>k. k \<noteq> [] \<and> e \<in> set (groupOverflow r ages (filter (\<lambda>x. gk x = k) es)))"
proof -
  have nil: "groupOverflow r ages [] = []" by (simp add: groupOverflow_def sort_slice_def)
  have "e \<in> set (versionOverflow r gk es ages) \<longleftrightarrow>
      (\<exists>k g. gm_get (groupEntries gk es) k = Some g \<and> e \<in> set (groupOverflow r ages g))"
    by (auto simp: versionOverflow_def gm_get_in_set [OF groupEntries_get(2)])
  also have "\<dots> \<longleftrightarrow> (\<exists>k. k \<noteq> [] \<and> e \<in> set (groupOverflow r ages (filter (\<lambda>x. gk x = k) es)))"
    using nil by (auto simp: groupEntries_get(1) Let_def)
  finally show ?thesis .
qed

section \<open>The plan\<close>

text \<open>The victims collected so far, as a set: keys identify the entries.\<close>

definition victims_ok :: "Entry list \<Rightarrow> (string, Entry) gomap \<Rightarrow> bool" where
  "victims_ok es m \<longleftrightarrow> gm_ok m \<and> (\<forall>(k, e) \<in> set m. k = eKey e \<and> e \<in> set es)"

lemma victims_ok_mem: "victims_ok es m \<Longrightarrow> e \<in> snd ` set m \<longleftrightarrow> gm_get m (eKey e) = Some e"
  unfolding victims_ok_def by (auto simp: gm_get_in_set image_iff) force

lemma eKey_inj: "distinct (map eKey es) \<Longrightarrow> x \<in> set es \<Longrightarrow> y \<in> set es \<Longrightarrow> eKey x = eKey y \<Longrightarrow> x = y"
  by (auto simp: distinct_map inj_on_def)

lemma gm_set_in: "(k', v') \<in> set (gm_set k v m) \<Longrightarrow> (k', v') = (k, v) \<or> (k', v') \<in> set m"
  unfolding gm_set_def by (induction m) (auto split: if_splits)

lemma addVictims_step:
  assumes "distinct (map eKey es)" and "victims_ok es m" and "e \<in> set es"
  shows "victims_ok es (gm_set (eKey e) e m) \<and> snd ` set (gm_set (eKey e) e m) = insert e (snd ` set m)"
proof -
  have ok: "victims_ok es (gm_set (eKey e) e m)"
    using assms(2,3) by (auto simp: victims_ok_def dest: gm_set_in)
  moreover have "x \<in> snd ` set (gm_set (eKey e) e m) \<longleftrightarrow> x \<in> insert e (snd ` set m)" for x
  proof (cases "eKey x = eKey e")
    case True
    have "x = e" if "gm_get m (eKey x) = Some x"
    proof -
      have "(eKey x, x) \<in> set m" using that assms(2) by (simp add: victims_ok_def gm_get_in_set)
      with assms True eKey_inj [of es x e] show ?thesis by (auto simp: victims_ok_def)
    qed
    with True show ?thesis using victims_ok_mem [OF ok, of x] victims_ok_mem [OF assms(2), of x] by auto
  next
    case False
    then show ?thesis using victims_ok_mem [OF ok, of x] victims_ok_mem [OF assms(2), of x] by auto
  qed
  ultimately show ?thesis by blast
qed

lemma addVictims_set:
  assumes "distinct (map eKey es)" and "victims_ok es m" and "set vs \<subseteq> set es"
  shows "victims_ok es (addVictims vs m) \<and> snd ` set (addVictims vs m) = set vs \<union> snd ` set m"
  using assms(2,3)
proof (induction vs arbitrary: m)
  case (Cons v vs)
  with addVictims_step [OF assms(1) Cons.prems(1), of v] show ?case by (auto simp: addVictims_def)
qed (simp add: addVictims_def)

lemma rule_sub:
  "set (oldestFirst r es ages) \<subseteq> {e \<in> set es. gm_get ages (eKey e) \<noteq> None}"
  "set (versionOverflow r gk es ages) \<subseteq> {e \<in> set es. gm_get ages (eKey e) \<noteq> None}"
proof -
  show "set (oldestFirst r es ages) \<subseteq> {e \<in> set es. gm_get ages (eKey e) \<noteq> None}"
    using evictOldest_sub [where es = "sort_slice (ageLess ages) es" and ages = ages] by (auto simp: oldestFirst_def Let_def)
  have "e \<in> set (groupOverflow r ages g) \<Longrightarrow> e \<in> set g \<and> gm_get ages (eKey e) \<noteq> None" for e g
    by (auto simp: groupOverflow_def evictOverflow_take split: if_splits dest!: in_set_takeD)
  note grp = this
  show "set (versionOverflow r gk es ages) \<subseteq> {e \<in> set es. gm_get ages (eKey e) \<noteq> None}"
  proof
    fix e assume "e \<in> set (versionOverflow r gk es ages)"
    then obtain k where "e \<in> set (groupOverflow r ages (filter (\<lambda>x. gk x = k) es))" by (auto simp: versionOverflow_mem)
    from grp [OF this] show "e \<in> {e \<in> set es. gm_get ages (eKey e) \<noteq> None}" by simp
  qed
qed

lemma set_Plan:
  assumes "distinct (map eKey es)"
  shows "distinct (map eKey (Plan r es now))" and "set (Plan r es now) =
    {e \<in> set es. lt64 0 (MaxAge r) \<and> tooOld r now (parseAges es) e} \<union>
    (if lt64 0 (MaxTotalSize r) then set (oldestFirst r es (parseAges es)) else {}) \<union>
    (case GroupKey r of Some gk \<Rightarrow> if MaxVersionCount r > 0 then set (versionOverflow r gk es (parseAges es)) else {} | None \<Rightarrow> {})"
proof -
  let ?a = "parseAges es"
  define v1 where "v1 = (if lt64 0 (MaxAge r) then addVictims (filter (tooOld r now ?a) es) [] else [])"
  define v2 where "v2 = (if lt64 0 (MaxTotalSize r) then addVictims (oldestFirst r es ?a) v1 else v1)"
  define v3 where "v3 = (case GroupKey r of
      Some gk \<Rightarrow> if MaxVersionCount r > 0 then addVictims (versionOverflow r gk es ?a) v2 else v2 | None \<Rightarrow> v2)"
  have 1: "victims_ok es v1 \<and> snd ` set v1 = {e \<in> set es. lt64 0 (MaxAge r) \<and> tooOld r now ?a e}"
    using addVictims_set [OF assms, of "[]" "filter (tooOld r now ?a) es"] by (auto simp: v1_def victims_ok_def)
  have 2: "victims_ok es v2 \<and> snd ` set v2 = snd ` set v1 \<union> (if lt64 0 (MaxTotalSize r) then set (oldestFirst r es ?a) else {})"
    using addVictims_set [OF assms, of v1 "oldestFirst r es ?a"] 1 rule_sub(1) [of r es ?a] unfolding v2_def by (auto split: if_splits)
  have 3: "victims_ok es v3 \<and> snd ` set v3 = snd ` set v2 \<union>
      (case GroupKey r of Some gk \<Rightarrow> if MaxVersionCount r > 0 then set (versionOverflow r gk es ?a) else {} | None \<Rightarrow> {})"
  proof (cases "GroupKey r")
    case (Some gk)
    have "set (versionOverflow r gk es ?a) \<subseteq> set es" using rule_sub(2) [of r gk es ?a] by blast
    from addVictims_set [OF assms conjunct1 [OF 2] this] Some 2 show ?thesis unfolding v3_def by auto
  qed (simp add: v3_def 2)
  have p: "Plan r es now = sort_slice keyLess (map snd v3)" unfolding Plan_def Let_def v3_def v2_def v1_def ..
  have "map eKey (map snd v3) = map fst v3" using 3 by (auto simp: victims_ok_def)
  moreover have "mset (map eKey (Plan r es now)) = mset (map eKey (map snd v3))" unfolding p mset_map mset_sort_slice ..
  ultimately show "distinct (map eKey (Plan r es now))"
    using 3 by (metis gm_ok_def mset_eq_imp_distinct_iff victims_ok_def)
  show "set (Plan r es now) =
    {e \<in> set es. lt64 0 (MaxAge r) \<and> tooOld r now (parseAges es) e} \<union>
    (if lt64 0 (MaxTotalSize r) then set (oldestFirst r es (parseAges es)) else {}) \<union>
    (case GroupKey r of Some gk \<Rightarrow> if MaxVersionCount r > 0 then set (versionOverflow r gk es (parseAges es)) else {} | None \<Rightarrow> {})"
    using 1 2 3 p by simp
qed

lemma ages_known: "distinct (map eKey es) \<Longrightarrow> x \<in> set es \<Longrightarrow> gm_get (parseAges es) (eKey x) \<noteq> None \<longleftrightarrow> knownAge x \<noteq> None"
  by (simp add: parseAges_get)

text \<open>In the sorted list the entries of known age before one of known age are the older ones.\<close>

lemma sorted_older:
  assumes d: "distinct (map eKey es)" and sub: "set g \<subseteq> set es" "distinct g"
    and s: "sort_slice (ageLess (parseAges es)) g = ys @ x # zs" and x: "knownAge x \<noteq> None"
  shows "set (filter (\<lambda>e. gm_get (parseAges es) (eKey e) \<noteq> None) ys) = {y \<in> set g. older y x}"
proof -
  let ?a = "parseAges es"
  have srt: "sorted_wrt (\<lambda>a b. \<not> ageLess ?a b a) (ys @ x # zs)"
    using strict_weak_order.sorted_slice [OF ageLess_order, of ?a g] s by simp
  have mem: "set g = set (ys @ x # zs)" and dd: "distinct (ys @ x # zs)"
    using s sub(2) by (metis set_sort_slice, metis mset_eq_imp_distinct_iff mset_sort_slice)
  have in_es: "y \<in> set es" if "y \<in> set (ys @ x # zs)" for y using that mem sub(1) by blast
  have less: "ageLess ?a u v \<longleftrightarrow> (if knownAge v = None then knownAge u \<noteq> None else older u v)"
    if "u \<in> set (ys @ x # zs)" "v \<in> set (ys @ x # zs)" for u v
    using parseAges_get [OF d in_es [OF that(1)]] parseAges_get [OF d in_es [OF that(2)]]
    by (auto simp: ageLess_def older_def split: option.splits)
  have tot: "older u v \<or> older v u" if "u \<in> set es" "v \<in> set es" "u \<noteq> v" "knownAge u \<noteq> None" "knownAge v \<noteq> None" for u v
    using that eKey_inj [OF d that(1,2)]
    by (cases "eKey u" "eKey v" rule: linorder_cases) (auto simp: older_def)
  have irrefl: "\<not> older u u" for u by (auto simp: older_def split: option.splits)
  have before: "older y x" if "y \<in> set ys" "knownAge y \<noteq> None" for y
  proof -
    from that(1) dd have "y \<noteq> x" by auto
    with tot [of y x] that in_es x have "older y x \<or> older x y" by simp
    moreover have "\<not> older x y" using that srt less [of x y] by (auto simp: sorted_wrt_append)
    ultimately show ?thesis by blast
  qed
  have after: "\<not> older y x" if "y \<in> set (x # zs)" for y
    using that srt less [of y x] x irrefl by (auto simp: sorted_wrt_append)
  have known: "older y x \<Longrightarrow> knownAge y \<noteq> None" for y by (auto simp: older_def split: option.splits)
  have "y \<in> set (filter (\<lambda>e. gm_get ?a (eKey e) \<noteq> None) ys) \<longleftrightarrow> y \<in> set ys \<and> knownAge y \<noteq> None" for y
    using ages_known [OF d in_es, of y] by auto
  then show ?thesis using before after known mem by (simp add: set_eq_iff) blast
qed

lemma distinct_entries: "distinct (map eKey es) \<Longrightarrow> distinct es"
  by (simp add: distinct_map)

lemma tooOld_iff:
  assumes "distinct (map eKey es)" and "e \<in> set es" and "tooOld r now (parseAges es) e"
  shows "\<exists>t. knownAge e = Some t \<and> sint (MaxAge r) < now - t"
  using assms(3) sint_ge [of "MaxAge r"]
  by (auto simp: tooOld_def parseAges_get [OF assms(1,2)] lt64_def sint_time_Sub min64_def split: option.splits)

lemma sizeOf_filter_not:
  "sizeOf (filter (\<lambda>x. \<not> P x) es) = sizeOf es - sizeOf (filter P es)"
  by (induction es) auto

lemma oldestFirst_needed:
  assumes "distinct (map eKey es)" and "\<forall>e \<in> set es. 0 \<le> sint (eSize e)" and "sizeOf es \<le> max64"
    and "e \<in> set (oldestFirst r es (parseAges es))"
  shows "sint (MaxTotalSize r) < sizeOf (filter (\<lambda>x. \<not> older x e) es)"
proof -
  let ?a = "parseAges es" and ?s = "sort_slice (ageLess (parseAges es)) es"
  let ?t = "foldl (\<lambda>t e. t + eSize e) 0 es" and ?k = "\<lambda>e. gm_get (parseAges es) (eKey e) \<noteq> None"
  have t: "sint ?t = sizeOf es" using total_size [OF assms(2), of 0] assms(3) by simp
  have sz: "sizeOf ?s = sizeOf es" by (rule sizeOf_mset) simp
  from assms(4) have ev: "e \<in> set (evictOldest (MaxTotalSize r) ?a ?t ?s)" by (auto simp: oldestFirst_def Let_def split: if_splits)
  with evictOldest_needed [of ?s ?t e "MaxTotalSize r" ?a] assms(2) t sz obtain ys zs where
    s: "?s = ys @ e # zs" and lt: "sint (MaxTotalSize r) < sizeOf es - sizeOf (filter ?k ys)" by auto
  have e: "e \<in> set es" "knownAge e \<noteq> None"
    using rule_sub(1) [of r es ?a] assms(4) ages_known [OF assms(1)] by auto
  have "set (filter ?k ys) = set (filter (\<lambda>x. older x e) es)"
    using sorted_older [OF assms(1) subset_refl distinct_entries [OF assms(1)] s e(2)] by auto
  moreover have "distinct (filter ?k ys)"
    using distinct_entries [OF assms(1)] s by (metis distinct_append distinct_filter mset_eq_imp_distinct_iff mset_sort_slice)
  ultimately have "sizeOf (filter ?k ys) = sizeOf (filter (\<lambda>x. older x e) es)"
    using distinct_entries [OF assms(1)] by (simp add: sizeOf_set)
  with lt show ?thesis by (simp add: sizeOf_filter_not)
qed

lemma groupOverflow_needed:
  assumes "distinct (map eKey es)" and "set g \<subseteq> set es" and "distinct g" and "e \<in> set (groupOverflow r (parseAges es) g)"
    and "0 < MaxVersionCount r"
  shows "MaxVersionCount r \<le> int (length (filter (\<lambda>x. x \<noteq> e \<and> \<not> older x e) g))"
proof -
  let ?k = "\<lambda>e. gm_get (parseAges es) (eKey e) \<noteq> None" and ?s = "sort_slice (ageLess (parseAges es)) g"
  let ?n = "nat (int (length g) - MaxVersionCount r)"
  have e: "e \<in> set (take ?n (filter ?k ?s))" and n: "MaxVersionCount r < int (length g)"
    using assms(4) by (auto simp: groupOverflow_def evictOverflow_take split: if_splits)
  then have "e \<in> set ?s" "?k e" by (auto dest: in_set_takeD)
  then obtain ys zs where s: "?s = ys @ e # zs" by (meson split_list)
  have dd: "distinct (ys @ e # zs)" using s assms(3) by (metis mset_eq_imp_distinct_iff mset_sort_slice)
  have "length (filter ?k ys) < ?n"
  proof (rule ccontr)
    assume "\<not> length (filter ?k ys) < ?n"
    then have "take ?n (filter ?k ?s) = take ?n (filter ?k ys)" by (simp add: s)
    with e have "e \<in> set ys" by (auto dest: in_set_takeD)
    with dd show False by auto
  qed
  moreover have e2: "e \<in> set g" "knownAge e \<noteq> None"
    using \<open>e \<in> set ?s\<close> \<open>?k e\<close> assms(2) ages_known [OF assms(1)] by auto
  moreover have "length (filter ?k ys) = length (filter (\<lambda>x. older x e) g)"
  proof -
    have "distinct (filter ?k ys)" using dd by simp
    then show ?thesis
      using sorted_older [OF assms(1-3) s e2(2)] distinct_card [of "filter ?k ys"] distinct_card [of "filter (\<lambda>x. older x e) g"] assms(3)
      by simp
  qed
  moreover have "length g \<le> length (filter (\<lambda>x. x \<noteq> e \<and> \<not> older x e) g) + length (filter (\<lambda>x. older x e) g) + 1"
  proof -
    let ?A = "filter (\<lambda>x. \<not> older x e) g"
    have "length (filter (\<lambda>x. x = e) ?A) \<le> 1"
      using distinct_length_filter [of ?A "\<lambda>x. x = e"] assms(3) card_mono [of "{e}" "{x. x = e} \<inter> set ?A"] by auto
    moreover have "filter (\<lambda>x. x \<noteq> e) ?A = filter (\<lambda>x. x \<noteq> e \<and> \<not> older x e) g" by (simp add: conj_commute)
    ultimately show ?thesis
      using sum_length_filter_compl [of "\<lambda>x. older x e" g] sum_length_filter_compl [of "\<lambda>x. x = e" ?A] by simp
  qed
  ultimately show ?thesis using n by linarith
qed

lemma Plan_sorted:
  assumes "distinct (map eKey es)" shows "sorted_wrt (\<lambda>a b. eKey a < eKey b) (Plan r es now)"
proof -
  have "sorted_wrt (\<lambda>a b. \<not> keyLess b a) (Plan r es now)" unfolding Plan_def Let_def by (rule keyLess.sorted_slice)
  then have "sorted (map eKey (Plan r es now))" by (simp add: sorted_map keyLess_def not_less)
  then show ?thesis
    using set_Plan(1) [OF assms, of r now] strict_sorted_iff [of "map eKey (Plan r es now)"] by (simp add: sorted_wrt_map)
qed

lemma versionOverflow_needed:
  assumes "distinct (map eKey es)" and "0 < MaxVersionCount r" and "e \<in> set (versionOverflow r gk es (parseAges es))"
  shows "gk e \<noteq> [] \<and> MaxVersionCount r \<le> int (length (filter (\<lambda>x. gk x = gk e \<and> x \<noteq> e \<and> \<not> older x e) es))"
proof -
  let ?a = "parseAges es"
  obtain k where k: "k \<noteq> []" "e \<in> set (groupOverflow r ?a (filter (\<lambda>x. gk x = k) es))"
    using assms(3) by (auto simp: versionOverflow_mem)
  have "set (groupOverflow r ?a (filter (\<lambda>x. gk x = k) es)) \<subseteq> {x \<in> set es. gk x = k}"
    by (auto simp: groupOverflow_def evictOverflow_take split: if_splits dest!: in_set_takeD)
  with k have gk: "gk e = k" by blast
  have "MaxVersionCount r \<le> int (length (filter (\<lambda>x. x \<noteq> e \<and> \<not> older x e) (filter (\<lambda>x. gk x = k) es)))"
    using groupOverflow_needed [OF assms(1) _ _ k(2) assms(2)] distinct_entries [OF assms(1)] by simp
  moreover have "filter (\<lambda>x. x \<noteq> e \<and> \<not> older x e) (filter (\<lambda>x. gk x = k) es) = filter (\<lambda>x. gk x = gk e \<and> x \<noteq> e \<and> \<not> older x e) es"
    by (simp add: gk)
  ultimately show ?thesis using k(1) gk by simp
qed

text \<open>
  C25. A plan only ever names entries of the catalog whose age is known, each once and in the order of
  their keys, and each for a reason: the entry is older than the age limit, or the bucket stays over
  its size limit even when everything older is deleted, or its package keeps at least the allowed
  number of versions that are not older.
\<close>

theorem Plan_justified:
  assumes "distinct (map eKey es)" and "\<forall>e \<in> set es. 0 \<le> sint (eSize e)" and "sizeOf es \<le> max64"
  shows "sorted_wrt (\<lambda>a b. eKey a < eKey b) (Plan r es now) \<and>
    (\<forall>e \<in> set (Plan r es now). e \<in> set es \<and> knownAge e \<noteq> None \<and>
       ((\<exists>t. knownAge e = Some t \<and> 0 < sint (MaxAge r) \<and> sint (MaxAge r) < now - t) \<or>
        (0 < sint (MaxTotalSize r) \<and> sint (MaxTotalSize r) < sizeOf (filter (\<lambda>x. \<not> older x e) es)) \<or>
        (\<exists>gk. GroupKey r = Some gk \<and> 0 < MaxVersionCount r \<and> gk e \<noteq> [] \<and>
           MaxVersionCount r \<le> int (length (filter (\<lambda>x. gk x = gk e \<and> x \<noteq> e \<and> \<not> older x e) es)))))"
proof (intro conjI ballI)
  show "sorted_wrt (\<lambda>a b. eKey a < eKey b) (Plan r es now)" by (rule Plan_sorted [OF assms(1)])
  fix e assume e: "e \<in> set (Plan r es now)"
  let ?a = "parseAges es"
  have sub: "x \<in> set es \<and> knownAge x \<noteq> None" if "x \<in> {e \<in> set es. gm_get ?a (eKey e) \<noteq> None}" for x
    using that ages_known [OF assms(1)] by blast
  from e consider (age) "e \<in> set es" "0 < sint (MaxAge r)" "tooOld r now ?a e"
    | (size) "0 < sint (MaxTotalSize r)" "e \<in> set (oldestFirst r es ?a)"
    | (version) gk where "GroupKey r = Some gk" "0 < MaxVersionCount r" "e \<in> set (versionOverflow r gk es ?a)"
    unfolding set_Plan(2) [OF assms(1)] by (auto simp: lt64_def split: if_splits option.splits)
  then have "(e \<in> set es \<and> knownAge e \<noteq> None) \<and>
     ((\<exists>t. knownAge e = Some t \<and> 0 < sint (MaxAge r) \<and> sint (MaxAge r) < now - t) \<or>
        (0 < sint (MaxTotalSize r) \<and> sint (MaxTotalSize r) < sizeOf (filter (\<lambda>x. \<not> older x e) es)) \<or>
        (\<exists>gk. GroupKey r = Some gk \<and> 0 < MaxVersionCount r \<and> gk e \<noteq> [] \<and>
           MaxVersionCount r \<le> int (length (filter (\<lambda>x. gk x = gk e \<and> x \<noteq> e \<and> \<not> older x e) es))))"
  proof cases
    case age
    with tooOld_iff [OF assms(1) age(1,3)] show ?thesis by auto
  next
    case size
    have "e \<in> set es \<and> knownAge e \<noteq> None" using sub rule_sub(1) [of r es ?a] size(2) by blast
    with size oldestFirst_needed [OF assms size(2)] show ?thesis by blast
  next
    case (version gk)
    have "e \<in> set es \<and> knownAge e \<noteq> None" using sub rule_sub(2) [of r gk es ?a] version(3) by blast
    with version(1,2) versionOverflow_needed [OF assms(1) version(2,3)] show ?thesis by auto
  qed
  then show "e \<in> set es" "knownAge e \<noteq> None"
    "(\<exists>t. knownAge e = Some t \<and> 0 < sint (MaxAge r) \<and> sint (MaxAge r) < now - t) \<or>
        (0 < sint (MaxTotalSize r) \<and> sint (MaxTotalSize r) < sizeOf (filter (\<lambda>x. \<not> older x e) es)) \<or>
        (\<exists>gk. GroupKey r = Some gk \<and> 0 < MaxVersionCount r \<and> gk e \<noteq> [] \<and>
           MaxVersionCount r \<le> int (length (filter (\<lambda>x. gk x = gk e \<and> x \<noteq> e \<and> \<not> older x e) es)))"
    by blast+
qed

lemma kept_length:
  assumes "distinct g" and "distinct V" and "set V \<subseteq> set g \<inter> P"
  shows "length (filter (\<lambda>e. e \<notin> P) g) + length V \<le> length g"
proof -
  have "card (set (filter (\<lambda>e. e \<notin> P) g)) + card (set V) = card (set (filter (\<lambda>e. e \<notin> P) g) \<union> set V)"
    using assms(3) by (intro card_Un_disjoint [symmetric]) auto
  also have "\<dots> \<le> card (set g)" using assms(3) by (intro card_mono) auto
  finally show ?thesis using assms(1,2) by (simp add: distinct_card flip: set_filter)
qed

lemma kept_size:
  assumes "distinct (map eKey es)" and "\<forall>e \<in> set es. 0 \<le> sint (eSize e)" and "distinct V" and "set V \<subseteq> set es \<inter> P"
  shows "sizeOf (filter (\<lambda>e. e \<notin> P) es) \<le> sizeOf es - sizeOf V"
proof -
  have "(\<Sum>e \<in> set (filter (\<lambda>e. e \<notin> P) es). sint (eSize e)) + (\<Sum>e \<in> set V. sint (eSize e)) =
      (\<Sum>e \<in> set (filter (\<lambda>e. e \<notin> P) es) \<union> set V. sint (eSize e))"
    using assms(4) by (intro sum.union_disjoint [symmetric]) auto
  also have "\<dots> \<le> (\<Sum>e \<in> set es. sint (eSize e))" using assms(2,4) by (intro sum_mono2) auto
  finally show ?thesis using distinct_entries [OF assms(1)] assms(3) by (simp add: sizeOf_set)
qed

lemma oldestFirst_budget:
  assumes "distinct (map eKey es)" and "\<forall>e \<in> set es. 0 \<le> sint (eSize e)" and "sizeOf es \<le> max64"
  shows "distinct (oldestFirst r es (parseAges es)) \<and>
    (sizeOf es - sizeOf (oldestFirst r es (parseAges es)) \<le> sint (MaxTotalSize r) \<or>
     set (oldestFirst r es (parseAges es)) = {e \<in> set es. knownAge e \<noteq> None})"
proof -
  let ?s = "sort_slice (ageLess (parseAges es)) es" and ?t = "foldl (\<lambda>t e. t + eSize e) 0 es"
  have t: "sint ?t = sizeOf es" using total_size [OF assms(2), of 0] assms(3) by simp
  have s: "sizeOf ?s = sizeOf es" by (rule sizeOf_mset) simp
  have d: "distinct ?s" using distinct_entries [OF assms(1)] by (metis mset_eq_imp_distinct_iff mset_sort_slice)
  have k: "set (filter (\<lambda>e. gm_get (parseAges es) (eKey e) \<noteq> None) ?s) = {e \<in> set es. knownAge e \<noteq> None}"
    using ages_known [OF assms(1)] by auto
  have "distinct (evictOldest (MaxTotalSize r) (parseAges es) ?t ?s)" by (rule evictOldest_distinct [OF d])
  with evictOldest_budget [of ?s ?t "MaxTotalSize r" "parseAges es"] assms(2) t s k show ?thesis
    by (auto simp: oldestFirst_def Let_def le64_def)
qed

lemma groupOverflow_budget:
  assumes "distinct (map eKey es)" and "set g \<subseteq> set es" and "distinct g" and "0 < MaxVersionCount r"
  shows "distinct (groupOverflow r (parseAges es) g) \<and> set (groupOverflow r (parseAges es) g) \<subseteq> set g \<and>
    (int (length g) - int (length (groupOverflow r (parseAges es) g)) \<le> MaxVersionCount r \<or>
     set (groupOverflow r (parseAges es) g) = {e \<in> set g. knownAge e \<noteq> None})"
proof -
  let ?k = "\<lambda>e. gm_get (parseAges es) (eKey e) \<noteq> None" and ?s = "sort_slice (ageLess (parseAges es)) g"
  have d: "distinct ?s" using assms(3) by (metis mset_eq_imp_distinct_iff mset_sort_slice)
  have k: "set (filter ?k ?s) = {e \<in> set g. knownAge e \<noteq> None}" using ages_known [OF assms(1)] assms(2) by auto
  show ?thesis
  proof (cases "int (length g) \<le> MaxVersionCount r")
    case True
    then show ?thesis by (simp add: groupOverflow_def)
  next
    case False
    define n where "n = nat (int (length g) - MaxVersionCount r)"
    have o: "groupOverflow r (parseAges es) g = take n (filter ?k ?s)"
      using False by (simp add: groupOverflow_def evictOverflow_take n_def)
    have "int (length g) - int (length (take n (filter ?k ?s))) \<le> MaxVersionCount r \<or> take n (filter ?k ?s) = filter ?k ?s"
      using False assms(4) by (cases "n \<le> length (filter ?k ?s)") (auto simp: n_def)
    with k d show ?thesis unfolding o by (auto dest: in_set_takeD)
  qed
qed

text \<open>
  C24. The limits are met as far as they can be: every entry older than the age limit is planned, the
  entries that stay are within the size limit unless every entry of known age goes, and of each
  package no more than the allowed number of versions stays unless all of known age go.
\<close>

theorem Plan_meets_limits:
  assumes "distinct (map eKey es)" and "\<forall>e \<in> set es. 0 \<le> sint (eSize e)" and "sizeOf es \<le> max64"
  shows "(\<forall>e t. e \<in> set es \<and> knownAge e = Some t \<and> 0 < sint (MaxAge r) \<and> sint (MaxAge r) < min max64 (now - t) \<longrightarrow>
            e \<in> set (Plan r es now)) \<and>
    (0 < sint (MaxTotalSize r) \<longrightarrow>
       sizeOf (filter (\<lambda>e. e \<notin> set (Plan r es now)) es) \<le> sint (MaxTotalSize r) \<or>
       (\<forall>e \<in> set es. knownAge e \<noteq> None \<longrightarrow> e \<in> set (Plan r es now))) \<and>
    (\<forall>gk k. GroupKey r = Some gk \<and> 0 < MaxVersionCount r \<and> k \<noteq> [] \<longrightarrow>
       int (length (filter (\<lambda>e. gk e = k \<and> e \<notin> set (Plan r es now)) es)) \<le> MaxVersionCount r \<or>
       (\<forall>e \<in> set es. gk e = k \<and> knownAge e \<noteq> None \<longrightarrow> e \<in> set (Plan r es now)))"
proof (intro conjI allI impI)
  let ?a = "parseAges es" and ?P = "set (Plan r es now)"
  note P = set_Plan(2) [OF assms(1), of r now]
  show "e \<in> ?P" if "e \<in> set es \<and> knownAge e = Some t \<and> 0 < sint (MaxAge r) \<and> sint (MaxAge r) < min max64 (now - t)" for e t
    using that unfolding P by (auto simp: tooOld_def parseAges_get [OF assms(1)] lt64_def sint_time_Sub)
  show "sizeOf (filter (\<lambda>e. e \<notin> ?P) es) \<le> sint (MaxTotalSize r) \<or> (\<forall>e \<in> set es. knownAge e \<noteq> None \<longrightarrow> e \<in> ?P)"
    if "0 < sint (MaxTotalSize r)"
  proof -
    have sub: "set (oldestFirst r es ?a) \<subseteq> set es \<inter> ?P" using that rule_sub(1) [of r es ?a] unfolding P by (auto simp: lt64_def)
    with oldestFirst_budget [OF assms, of r] kept_size [OF assms(1,2) _ sub] show ?thesis by force
  qed
  show "int (length (filter (\<lambda>e. gk e = k \<and> e \<notin> ?P) es)) \<le> MaxVersionCount r \<or>
      (\<forall>e \<in> set es. gk e = k \<and> knownAge e \<noteq> None \<longrightarrow> e \<in> ?P)"
    if r: "GroupKey r = Some gk \<and> 0 < MaxVersionCount r \<and> k \<noteq> []" for gk k
  proof -
    let ?g = "filter (\<lambda>e. gk e = k) es" and ?V = "groupOverflow r ?a (filter (\<lambda>e. gk e = k) es)"
    have b: "distinct ?V" "set ?V \<subseteq> set ?g"
      "int (length ?g) - int (length ?V) \<le> MaxVersionCount r \<or> set ?V = {e \<in> set ?g. knownAge e \<noteq> None}"
      using groupOverflow_budget [OF assms(1), of ?g r] r distinct_entries [OF assms(1)] by auto
    have "set ?V \<subseteq> ?P" using r unfolding P by (auto simp: versionOverflow_mem)
    with b kept_length [of ?g ?V ?P] distinct_entries [OF assms(1)]
    have "int (length (filter (\<lambda>e. e \<notin> ?P) ?g)) \<le> MaxVersionCount r \<or> {e \<in> set ?g. knownAge e \<noteq> None} \<subseteq> ?P" by auto
    then show ?thesis by (auto simp: conj_commute)
  qed
qed

section \<open>Execution\<close>

lemma executeAll_errs: "executeAll st vs errs c w = (errs', c', w') \<Longrightarrow> \<exists>es. errs' = errs @ es"
  by (induction st vs errs c w rule: executeAll.induct) (auto split: prod.splits option.splits)

context object_store
begin

lemma executeAll_frame:
  "executeAll st vs errs c w = (errs', c', w') \<Longrightarrow> inv w \<Longrightarrow>
     inv w' \<and> (\<forall>b k. (b, k) \<notin> (\<lambda>v. (eBucket v, eKey v)) ` set vs \<longrightarrow> obj w' b k = obj w b k) \<and>
     (\<forall>k. k \<notin> eKey ` set vs \<longrightarrow> Lookup c' k = Lookup c k)"
proof (induction vs arbitrary: errs c w)
  case (Cons v vs)
  obtain e w1 where d: "sDeleteObject st (eBucket v) (eKey v) w = (e, w1)" by fastforce
  note f = delete_frame [OF Cons.prems(2) d]
  show ?case
  proof (cases e)
    case None
    with Cons.prems(1) d have "executeAll st vs errs (Remove (eKey v) c) w1 = (errs', c', w')" by simp
    from Cons.IH [OF this] f show ?thesis by (auto simp: cat.lookup_remove)
  next
    case (Some err)
    with Cons.prems(1) d obtain errs2 where "executeAll st vs errs2 c w1 = (errs', c', w')" by simp
    from Cons.IH [OF this] f show ?thesis by auto
  qed
qed simp

lemma executeAll_spec:
  "executeAll st vs errs c w = (errs @ es, c', w') \<Longrightarrow> inv w \<Longrightarrow> distinct (map eKey vs) \<Longrightarrow>
     (es = [] \<longrightarrow> (\<forall>v \<in> set vs. obj w' (eBucket v) (eKey v) = None \<and> Lookup c' (eKey v) = None)) \<and>
     (\<forall>v \<in> set vs. Lookup c' (eKey v) = Lookup c (eKey v) \<or> obj w' (eBucket v) (eKey v) = None)"
proof (induction vs arbitrary: errs c w es)
  case (Cons v vs)
  obtain e w1 where d: "sDeleteObject st (eBucket v) (eKey v) w = (e, w1)" by fastforce
  note f = delete_frame [OF Cons.prems(2) d]
  have fresh: "eKey v \<notin> eKey ` set vs" "distinct (map eKey vs)" using Cons.prems(3) by auto
  show ?case
  proof (cases e)
    case None
    with Cons.prems(1) d have x: "executeAll st vs errs (Remove (eKey v) c) w1 = (errs @ es, c', w')" by simp
    have "obj w1 (eBucket v) (eKey v) = None" using delete_ok [OF Cons.prems(2)] d None by simp
    moreover have "(eBucket v, eKey v) \<notin> (\<lambda>v. (eBucket v, eKey v)) ` set vs" using fresh(1) by auto
    ultimately have "obj w' (eBucket v) (eKey v) = None" "Lookup c' (eKey v) = None"
      using executeAll_frame [OF x] f fresh(1) by (auto simp: cat.lookup_remove)
    moreover have "Lookup (Remove (eKey v) c) (eKey u) = Lookup c (eKey u)" if "u \<in> set vs" for u
      using that fresh(1) by (metis cat.lookup_remove image_eqI)
    ultimately show ?thesis using Cons.IH [OF x] f fresh(2) by auto
  next
    case (Some err)
    let ?errs = "errs @ [Errorf ''cleanup: delete %q/%q: %w'' [eBucket v, eKey v] [err]]"
    have x: "executeAll st vs ?errs c w1 = (errs @ es, c', w')" using Cons.prems(1) d Some by simp
    from executeAll_errs [OF x] obtain es' where es: "errs @ es = ?errs @ es'" by blast
    then have "es \<noteq> []" by auto
    moreover have "Lookup c' (eKey v) = Lookup c (eKey v)" using executeAll_frame [OF x] f fresh(1) by auto
    ultimately show ?thesis using Cons.IH [OF x [unfolded es]] f fresh(2) by auto
  qed
qed simp

end

text \<open>
  Execution deletes the victims and nothing else: no other object and no other catalog entry
  changes, a catalog entry goes only when the object it was planned for is gone from the store, and
  when no error is returned every victim is gone from the store and from the catalog.
\<close>

theorem Execute_exact:
  assumes "object_store st ok obj" and "ok w" and "distinct (map eKey vs)" and "Execute st c vs w = (err, c', w')"
  shows "(\<forall>b k. (b, k) \<notin> (\<lambda>v. (eBucket v, eKey v)) ` set vs \<longrightarrow> obj w' b k = obj w b k) \<and>
    (\<forall>k. k \<notin> eKey ` set vs \<longrightarrow> Lookup c' k = Lookup c k) \<and>
    (\<forall>v \<in> set vs. Lookup c' (eKey v) = Lookup c (eKey v) \<or> obj w' (eBucket v) (eKey v) = None) \<and>
    (err = None \<longrightarrow> (\<forall>v \<in> set vs. obj w' (eBucket v) (eKey v) = None \<and> Lookup c' (eKey v) = None))"
proof -
  obtain es where x: "executeAll st vs [] c w = ([] @ es, c', w')" and e: "err = errors_Join es"
    using assms(4) by (auto simp: Execute_def split: prod.splits)
  from object_store.executeAll_frame [OF assms(1) x assms(2)] object_store.executeAll_spec [OF assms(1) x assms(2,3)] e
  show ?thesis by (auto simp: errors_Join_def split: if_splits)
qed

section \<open>Witnesses\<close>

definition witness_entries :: "Entry list" where
  "witness_entries =
     map (\<lambda>(k, s, l). \<lparr>eKey = k, eBucket = ''pub'', eBucketType = ''public'', eRoute = ''/pub/'' @ k, eSize = s, eLastModified = l\<rparr>)
       [(''a-1'', 10, ''2024-01-01T00:00:00Z''), (''a-2'', 20, ''2024-02-01T00:00:00Z''), (''b'', 30, ''never'')]"

definition witness_rule :: Rule where
  "witness_rule = \<lparr>MaxAge = 0, MaxTotalSize = 55, MaxVersionCount = 1, GroupKey = Some (\<lambda>e. take 1 (eKey e))\<rparr>"

lemma witness_entries_ok:
  "distinct (map eKey witness_entries)" "\<forall>e \<in> set witness_entries. 0 \<le> sint (eSize e)" "sizeOf witness_entries \<le> max64"
  by code_simp+

theorem Plan_justified_witness:
  "map eKey (Plan witness_rule witness_entries 0) = [''a-1''] \<and> list_all (\<lambda>e. knownAge e \<noteq> None) (Plan witness_rule witness_entries 0)"
proof -
  have "map eKey (Plan witness_rule witness_entries 0) = [''a-1'']" by code_simp
  with Plan_justified [OF witness_entries_ok, of witness_rule 0] show ?thesis unfolding list_all_iff by blast
qed

theorem Plan_meets_limits_witness:
  "int (length (filter (\<lambda>e. take 1 (eKey e) = ''a'' \<and> e \<notin> set (Plan witness_rule witness_entries 0)) witness_entries)) \<le> 1"
proof -
  have g: "GroupKey witness_rule = Some (\<lambda>e. take 1 (eKey e)) \<and> 0 < MaxVersionCount witness_rule \<and> ''a'' \<noteq> []" "MaxVersionCount witness_rule = 1"
    by (simp_all add: witness_rule_def)
  have n: "\<not> (\<forall>e \<in> set witness_entries. take 1 (eKey e) = ''a'' \<and> knownAge e \<noteq> None \<longrightarrow> e \<in> set (Plan witness_rule witness_entries 0))"
    by code_simp
  note l = Plan_meets_limits [OF witness_entries_ok, of witness_rule 0, THEN conjunct2, THEN conjunct2,
      THEN spec [of _ "\<lambda>e. take 1 (eKey e)"], THEN spec [of _ "''a''"]]
  from l [THEN mp, OF g(1), unfolded g(2)] n show ?thesis by blast
qed

theorem Execute_exact_witness:
  "\<exists>c' w'. Execute fake_Store (catalog_New (\<lambda>b. 0) (\<lambda>b. ''public'')) (take 1 witness_entries)
       [(''pub'', [(''a-1'', \<lparr>foContent = ''x'', foLastModified = []\<rparr>)])] = (None, c', w') \<and> fake_obj w' ''pub'' ''a-1'' = None"
proof -
  let ?w = "[(''pub'', [(''a-1'', \<lparr>foContent = ''x'', foLastModified = []\<rparr>)])]"
  have ok: "fake_inv ?w" by (auto simp: fake_inv_def gm_ok_def split: if_splits)
  have d: "distinct (map eKey (take 1 witness_entries))" by code_simp
  obtain err c' w' where x: "Execute fake_Store (catalog_New (\<lambda>b. 0) (\<lambda>b. ''public'')) (take 1 witness_entries) ?w = (err, c', w')"
    by (metis prod_cases3)
  have "fst (Execute fake_Store (catalog_New (\<lambda>b. 0) (\<lambda>b. ''public'')) (take 1 witness_entries) ?w) = None" by code_simp
  with x have "err = None" by simp
  moreover have "\<exists>v \<in> set (take 1 witness_entries). eBucket v = ''pub'' \<and> eKey v = ''a-1''" by code_simp
  ultimately show ?thesis using Execute_exact [OF fake.object_store_axioms ok d x] x by auto
qed

end
