(* ===== verification/Go_Decode.thy ===== *)
theory Go_Decode
  imports Catalog_Manifests
begin

text \<open>
  Decoding JSON into structs and slices as \<^verbatim>\<open>encoding/json\<close> does, generic in the fields: shared by the
  components that read documents of other services.
\<close>

text \<open>
  A JSON object stored into a struct: one step per member, \<open>None\<close> once a type does not fit. A slice
  is its backing array with its length: an array that is stored into it a second time is decoded on
  top of the elements the array still has.
\<close>

definition decodeObject :: "('a \<Rightarrow> string \<Rightarrow> json \<Rightarrow> 'a option) \<Rightarrow> 'a \<Rightarrow> json \<Rightarrow> 'a option" where
  "decodeObject field old v =
     (case v of
        JObj kvs \<Rightarrow> foldl (\<lambda>r (k, w). case r of None \<Rightarrow> None | Some x \<Rightarrow> field x k w) (Some old) kvs
      | JNull \<Rightarrow> Some old
      | _ \<Rightarrow> None)"

fun decodeElems :: "('a \<Rightarrow> json \<Rightarrow> 'a option) \<Rightarrow> 'a \<Rightarrow> 'a list \<Rightarrow> json list \<Rightarrow> 'a list option" where
  "decodeElems dec zero bk [] = Some bk"
| "decodeElems dec zero bk (v # vs) =
     (case dec (case bk of [] \<Rightarrow> zero | b # _ \<Rightarrow> b) v of
        None \<Rightarrow> None
      | Some x \<Rightarrow> map_option (\<lambda>xs. x # xs) (decodeElems dec zero (tl bk) vs))"

definition decodeSlice :: "('a \<Rightarrow> json \<Rightarrow> 'a option) \<Rightarrow> 'a \<Rightarrow> 'a list \<times> nat \<Rightarrow> json \<Rightarrow> ('a list \<times> nat) option" where
  "decodeSlice dec zero old v =
     (case v of
        JArr [] \<Rightarrow> Some ([], 0)
      | JArr vs \<Rightarrow> map_option (\<lambda>xs. (xs, length vs)) (decodeElems dec zero (fst old) vs)
      | JNull \<Rightarrow> Some ([], 0)
      | _ \<Rightarrow> None)"

text \<open>The error of a text that is not JSON or does not fit the type; its message is not modelled.\<close>

definition err_json :: go_error where
  "err_json = ErrorsNew ''invalid JSON or type''"

lemma decodeObject_Obj [simp]:
  "decodeObject field old (JObj []) = Some old"
  "decodeObject field old (JObj ((k, v) # kvs)) =
     (case field old k v of None \<Rightarrow> None | Some x \<Rightarrow> decodeObject field x (JObj kvs))"
proof -
  have n: "foldl (\<lambda>r (k, w). case r of None \<Rightarrow> None | Some x \<Rightarrow> field x k w) None kvs = None" by (induction kvs) auto
  show "decodeObject field old (JObj []) = Some old"
    "decodeObject field old (JObj ((k, v) # kvs)) = (case field old k v of None \<Rightarrow> None | Some x \<Rightarrow> decodeObject field x (JObj kvs))"
    by (auto simp: decodeObject_def n split: option.split)
qed

text \<open>An array whose elements decode one by one is stored whole into an empty slice.\<close>

lemma decodeSlice_fresh:
  assumes "\<And>x. x \<in> set xs \<Longrightarrow> \<exists>y. dec zero (enc x) = Some y \<and> f y = x"
  shows "\<exists>ys. decodeSlice dec zero ([], 0) (JArr (map enc xs)) = Some (ys, length xs) \<and> map f ys = xs"
proof -
  have "\<exists>ys. decodeElems dec zero [] (map enc xs') = Some ys \<and> map f ys = xs'" if "set xs' \<subseteq> set xs" for xs'
    using that
  proof (induction xs')
    case (Cons x xs')
    then obtain y ys where "dec zero (enc x) = Some y" "f y = x" "decodeElems dec zero [] (map enc xs') = Some ys" "map f ys = xs'"
      using assms [of x] by auto
    then show ?case by (intro exI [of _ "y # ys"]) simp
  qed simp
  from this [of xs] show ?thesis by (cases xs) (auto simp: decodeSlice_def)
qed

lemma decodeInt_small [simp]: "min64 \<le> n \<Longrightarrow> n \<le> max64 \<Longrightarrow> decodeInt m (JNum (FormatInt n)) = Some n"
  using Atoi_FormatInt [of n] by (simp add: decodeInt_def)

text \<open>Catalog entries in documents: a slice of \<^verbatim>\<open>catalog.Entry\<close> reads back what was printed.\<close>

definition decodeEntryInto :: "Entry \<Rightarrow> json \<Rightarrow> Entry option" where
  "decodeEntryInto = decodeObject (\<lambda>e k v. decodeEntryField (Some e) (k, v))"

lemma decodeEntryInto_encode: "decodeEntryInto zeroEntry (encodeEntry e) = Some e"
  by (simp add: decodeEntryInto_def encodeEntry_def decodeEntryField_def decodeString_def zeroEntry_def)

lemma decodeEntries_slice:
  "decodeSlice decodeEntryInto zeroEntry ([], 0) (JArr (map encodeEntry es)) = Some (es, length es)"
  using decodeSlice_fresh [of es decodeEntryInto zeroEntry encodeEntry "\<lambda>x. x"] decodeEntryInto_encode by auto

end
