(* ===== verification/Go_Indent.thy ===== *)
theory Go_Indent
  imports Go_Json
begin

text \<open>
  \<^verbatim>\<open>json.MarshalIndent(v, "", "  ")\<close>: the indented printing of a JSON value, and that the parser reads it
  back. Shared by the components that write documents.
\<close>

definition newline :: "nat \<Rightarrow> string" where
  "newline d = CHR 0x0A # replicate (2 * d) (CHR '' '')"

text \<open>The printers take the depth of the value, of the elements and of the members.\<close>

fun json_Indent :: "nat \<Rightarrow> json \<Rightarrow> string"
  and indentElems :: "nat \<Rightarrow> json list \<Rightarrow> string"
  and indentMembers :: "nat \<Rightarrow> (string \<times> json) list \<Rightarrow> string" where
  "json_Indent d JNull = ''null''"
| "json_Indent d (JBool b) = (if b then ''true'' else ''false'')"
| "json_Indent d (JNum n) = n"
| "json_Indent d (JStr s) = json_String s"
| "json_Indent d (JArr vs) = (if vs = [] then ''[]'' else CHR ''['' # newline (Suc d) @ indentElems (Suc d) vs)"
| "json_Indent d (JObj kvs) = (if kvs = [] then ''{}'' else CHR ''{'' # newline (Suc d) @ indentMembers (Suc d) kvs)"
| "indentElems d [] = '']''"
| "indentElems d [v] = json_Indent d v @ newline (d - 1) @ '']''"
| "indentElems d (v # w # vs) = json_Indent d v @ CHR '','' # newline d @ indentElems d (w # vs)"
| "indentMembers d [] = ''}''"
| "indentMembers d [(k, v)] = json_String k @ '': '' @ json_Indent d v @ newline (d - 1) @ ''}''"
| "indentMembers d ((k, v) # kv # kvs) = json_String k @ '': '' @ json_Indent d v @ CHR '','' # newline d @ indentMembers d (kv # kvs)"

definition MarshalIndent :: "json \<Rightarrow> string" where
  "MarshalIndent v = json_Indent 0 v"

section \<open>Reading it back\<close>

lemma skipWs_newline [simp]: "skipWs (newline d @ s) = skipWs s"
proof -
  have "skipWs (replicate n (CHR '' '') @ s) = skipWs s" for n
    by (induction n) (auto simp: skipWs_def isWs_def)
  moreover have "skipWs (CHR 0x0A # u) = skipWs u" for u by (simp add: skipWs_def isWs_def)
  ultimately show ?thesis by (simp add: newline_def)
qed

lemma delimited_newline [simp]: "delimited (newline d @ s)"
  by (simp add: newline_def)

lemma newline_not_Nil [simp]: "newline d \<noteq> []" "length (newline d) = Suc (2 * d)"
  by (simp_all add: newline_def)

lemma parseValue_skipWs: "skipWs s = skipWs s' \<Longrightarrow> parseValue n s = parseValue n s'"
  by (cases n) simp_all

lemma parse_newline [simp]:
  "parseValue n (newline d @ s) = parseValue n s" "parseElems n (newline d @ s) = parseElems n s" "parseMembers n (newline d @ s) = parseMembers n s"
proof -
  show v: "parseValue m (newline d @ s) = parseValue m s" for m by (rule parseValue_skipWs) simp
  show "parseElems n (newline d @ s) = parseElems n s" "parseMembers n (newline d @ s) = parseMembers n s"
    by (cases n; simp add: v)+
qed

lemma parseValue_space [simp]: "parseValue n (CHR '' '' # s) = parseValue n s"
  by (rule parseValue_skipWs) (simp add: skipWs_def isWs_def)

lemma json_Indent_hd:
  assumes "json_ok v"
  shows "\<exists>c cs. json_Indent d v = c # cs \<and> \<not> isWs c \<and> c \<noteq> CHR '']'' \<and> c \<noteq> CHR ''}''"
proof (cases v)
  case (JNum l)
  with json_Print_hd [OF assms] show ?thesis by simp
qed (use json_Print_hd [OF assms] in \<open>auto simp: isWs_def json_String_def\<close>)

lemma indentElems_open:
  assumes "\<forall>v \<in> set vs. json_ok v" and "vs \<noteq> []" shows "\<not> HasPrefix (skipWs (indentElems d vs @ t)) '']''"
proof (cases vs)
  case (Cons w ws)
  with assms(1) obtain c cs where "json_Indent d w = c # cs" "\<not> isWs c" "c \<noteq> CHR '']''" using json_Indent_hd [of w d] by auto
  then show ?thesis by (cases ws) (simp_all add: Cons skipWs_def)
qed (use assms in simp)

lemma indentMembers_open: "kvs \<noteq> [] \<Longrightarrow> \<not> HasPrefix (skipWs (indentMembers d kvs @ t)) ''}''"
  by (cases "(d, kvs)" rule: indentMembers.cases) (auto simp: json_String_def skipWs_def isWs_def)

lemma indent_roundtrip:
  "json_ok v \<Longrightarrow> delimited t \<Longrightarrow> 2 * length (json_Indent d v) \<le> n \<Longrightarrow>
     parseValue n (json_Indent d v @ t) = Some (v, t)"
  "\<forall>v \<in> set vs. json_ok v \<Longrightarrow> vs \<noteq> [] \<Longrightarrow> 2 * length (indentElems d vs) \<le> n \<Longrightarrow>
     parseElems n (indentElems d vs @ t) = Some (vs, t)"
  "\<forall>kv \<in> set kvs. utf8_ok (fst kv) \<and> json_ok (snd kv) \<Longrightarrow> kvs \<noteq> [] \<Longrightarrow> 2 * length (indentMembers d kvs) \<le> n \<Longrightarrow>
     parseMembers n (indentMembers d kvs @ t) = Some (kvs, t)"
proof (induction d v and d vs and d kvs arbitrary: n t and n t and n t
    rule: json_Indent_indentElems_indentMembers.induct)
  case (3 d l)
  then obtain i where l: "l = FormatInt i" by auto
  moreover obtain c cs where "FormatInt i = c # cs" using FormatInt_hd by blast
  ultimately obtain m where "n = Suc m" using 3 by (cases n) auto
  with 3 l show ?case by (simp add: parseValue_number del: parseValue.simps)
next
  case (4 d s)
  then obtain m where "n = Suc m" by (cases n) (auto simp: json_String_def)
  with 4 show ?case by (simp add: parseValue_string del: parseValue.simps)
next
  case (5 d vs)
  then obtain m where "n = Suc m" by (cases n) (auto split: if_splits)
  with 5 indentElems_open [of vs "Suc d" t] show ?case by (cases "vs = []") auto
next
  case (6 d kvs)
  then obtain m where "n = Suc m" by (cases n) (auto split: if_splits)
  with 6 indentMembers_open [of kvs "Suc d" t] show ?case by (cases "kvs = []") auto
next
  case (11 d k v)
  then obtain m where "n = Suc m" by (cases n) (auto simp: json_String_def)
  with 11 show ?case by (simp add: json_String_def parseStr_escaped)
next
  case (12 d k v kv kvs)
  then obtain m where "n = Suc m" by (cases n) (auto simp: json_String_def)
  with 12 show ?case by (simp add: json_String_def parseStr_escaped)
qed (case_tac n; auto simp: isWs_def split: if_splits)+

theorem json_Parse_MarshalIndent: "json_ok v \<Longrightarrow> json_Parse (MarshalIndent v) = Some v"
  using indent_roundtrip(1) [of v "[]" 0 "2 * length (json_Indent 0 v) + 2"]
  by (simp add: json_Parse_def MarshalIndent_def skipWs_def)

end
