(* ===== verification/Snapshot.thy ===== *)
theory Snapshot
  imports Go_Decode Go_Indent
begin

text \<open>
  Snapshots of the catalog (\<^verbatim>\<open>internal/snapshot/snapshot.go\<close>): capturing the manifests of all buckets in
  one document, printing a document, reading it back and restoring a catalog from it.
\<close>

section \<open>snapshot.go\<close>

definition documentVersion :: int where "documentVersion = 1"

record Document =
  dVersion :: int
  dCapturedAt :: instant
  dBuckets :: "Manifest list"

fun distinctFrom :: "string list \<Rightarrow> Entry list \<Rightarrow> string list" where
  "distinctFrom buckets [] = buckets"
| "distinctFrom buckets (e # es) =
     (if eBucket e \<in> set buckets then distinctFrom buckets es else distinctFrom (buckets @ [eBucket e]) es)"

definition distinctBuckets :: "Entry list \<Rightarrow> string list" where
  "distinctBuckets entries = sort_slice (<) (distinctFrom [] entries)"

definition Capture :: "instant \<Rightarrow> Catalog \<Rightarrow> Document" where
  "Capture now c =
     \<lparr>dVersion = documentVersion, dCapturedAt = now, dBuckets = map (ManifestForBucket c) (distinctBuckets (ListAll c))\<rparr>"

text \<open>The JSON value of a document, with the text of its timestamp.\<close>

definition encodeDocument :: "string \<Rightarrow> Document \<Rightarrow> json" where
  "encodeDocument ts d =
     JObj [(''version'', JNum (FormatInt (dVersion d))), (''captured_at'', JStr ts), (''buckets'', JArr (map encodeManifest (dBuckets d)))]"

text \<open>
  The parameter is \<^verbatim>\<open>Time.MarshalJSON\<close>: the text depends on the time zone of the process, and there is none
  for a year beyond 9999.
\<close>

definition Marshal :: "(instant \<Rightarrow> go_error + string) \<Rightarrow> Document \<Rightarrow> go_error + bytes" where
  "Marshal timeText d =
     (case timeText (dCapturedAt d) of
        Inl err \<Rightarrow> Inl (Errorf ''snapshot: encode document: %w'' [] [err])
      | Inr ts \<Rightarrow> Inr (MarshalIndent (encodeDocument ts d)))"

text \<open>
  \<^verbatim>\<open>json.Unmarshal(data, &doc)\<close>, one step per member. A timestamp is a JSON string in RFC 3339 form,
  written without escapes.
\<close>

type_synonym manifest_fields = "int \<times> string \<times> Entry list \<times> nat"

definition decodeManifest :: "manifest_fields \<Rightarrow> json \<Rightarrow> manifest_fields option" where
  "decodeManifest = decodeObject (\<lambda>(ver, bucket, files) k v.
     if keyIs k ''version'' then map_option (\<lambda>n. (n, bucket, files)) (decodeInt ver v)
     else if keyIs k ''bucket'' then map_option (\<lambda>s. (ver, s, files)) (decodeString bucket v)
     else if keyIs k ''files'' then map_option (\<lambda>fs. (ver, bucket, fs)) (decodeSlice decodeEntryInto zeroEntry files v)
     else Some (ver, bucket, files))"

definition decodeTime :: "instant \<Rightarrow> json \<Rightarrow> instant option" where
  "decodeTime old v = (case v of JStr s \<Rightarrow> time_Parse s | JNull \<Rightarrow> Some old | _ \<Rightarrow> None)"

type_synonym document_fields = "int \<times> instant \<times> manifest_fields list \<times> nat"

definition decodeDocument :: "json \<Rightarrow> document_fields option" where
  "decodeDocument = decodeObject (\<lambda>(ver, captured, buckets) k v.
     if keyIs k ''version'' then map_option (\<lambda>n. (n, captured, buckets)) (decodeInt ver v)
     else if keyIs k ''captured_at'' then map_option (\<lambda>t. (ver, t, buckets)) (decodeTime captured v)
     else if keyIs k ''buckets'' then map_option (\<lambda>bs. (ver, captured, bs)) (decodeSlice decodeManifest (0, [], [], 0) buckets v)
     else Some (ver, captured, buckets)) (0, 0, [], 0)"

definition Unmarshal :: "bytes \<Rightarrow> go_error + Document" where
  "Unmarshal data =
     (case Option.bind (json_Parse data) decodeDocument of
        None \<Rightarrow> Inl (Errorf ''snapshot: decode document: %w'' [] [err_json])
      | Some (ver, captured, buckets, n) \<Rightarrow>
          if ver \<noteq> documentVersion
          then Inl (Errorf ''snapshot: unsupported document version %d, want %d'' [FormatInt ver, FormatInt documentVersion] [])
          else Inr \<lparr>dVersion = ver, dCapturedAt = captured,
            dBuckets = map (\<lambda>(v, b, files, k). \<lparr>mVersion = v, mBucket = b, mFiles = take k files\<rparr>) (take n buckets)\<rparr>)"

fun encodeManifests :: "Manifest list \<Rightarrow> go_error + BucketManifest list" where
  "encodeManifests [] = Inr []"
| "encodeManifests (m # ms) =
     (case marshalManifest m of
        Inl err \<Rightarrow> Inl (Errorf ''snapshot: re-encode manifest for bucket %q: %w'' [mBucket m] [err])
      | Inr content \<Rightarrow>
          (case encodeManifests ms of
             Inl err \<Rightarrow> Inl err
           | Inr bms \<Rightarrow> Inr (\<lparr>bmBucket = mBucket m, bmContent = content\<rparr> # bms)))"

definition Restore :: "Document \<Rightarrow> Catalog \<Rightarrow> go_error option \<times> Catalog" where
  "Restore doc c =
     (case encodeManifests (dBuckets doc) of
        Inl err \<Rightarrow> (Some err, c)
      | Inr manifests \<Rightarrow> (None, LoadManifests manifests c))"

section \<open>Reading a document back\<close>

lemma set_distinctFrom: "set (distinctFrom bs es) = set bs \<union> eBucket ` set es"
  by (induction bs es rule: distinctFrom.induct) auto

lemma set_distinctBuckets [simp]: "set (distinctBuckets es) = eBucket ` set es"
  by (simp add: distinctBuckets_def set_distinctFrom)

lemma encodeManifests_eq:
  "encodeManifests ms = Inr (map (\<lambda>m. \<lparr>bmBucket = mBucket m, bmContent = json_Print (encodeManifest m)\<rparr>) ms)"
  by (induction ms) (simp_all add: marshalManifest_def)

lemma Restore_Capture:
  "Restore (Capture now c) c' = (None, LoadManifests (manifestsOf c (distinctBuckets (ListAll c))) c')"
  by (simp add: Restore_def Capture_def encodeManifests_eq manifestsOf_def marshalManifest_def ManifestForBucket_def comp_def)

lemma document_tags [simp]:
  "keyIs ''version'' ''version''" "\<not> keyIs ''captured_at'' ''version''" "keyIs ''captured_at'' ''captured_at''"
  "\<not> keyIs ''buckets'' ''version''" "\<not> keyIs ''buckets'' ''captured_at''" "keyIs ''buckets'' ''buckets''"
  "\<not> keyIs ''bucket'' ''version''" "\<not> keyIs ''files'' ''version''" "\<not> keyIs ''files'' ''bucket''"
  by code_simp+

lemma decodeManifest_encode:
  assumes "mVersion m = 1"
  shows "\<exists>y. decodeManifest (0, [], [], 0) (encodeManifest m) = Some y \<and> (case y of (v, b, files, k) \<Rightarrow> \<lparr>mVersion = v, mBucket = b, mFiles = take k files\<rparr>) = m"
  using assms by (simp add: decodeEntries_slice decodeManifest_def encodeManifest_def decodeString_def min64_def max64_def)

lemma Unmarshal_encode:
  assumes "json_Parse data = Some (encodeDocument ts d)" and "time_Parse ts = Some (dCapturedAt d)" and "dVersion d = 1"
    and "\<forall>m \<in> set (dBuckets d). mVersion m = 1"
  shows "Unmarshal data = Inr d"
proof -
  obtain ys where y: "decodeSlice decodeManifest (0, [], [], 0) ([], 0) (JArr (map encodeManifest (dBuckets d))) = Some (ys, length (dBuckets d))"
    and m: "map (\<lambda>(v, b, files, k). \<lparr>mVersion = v, mBucket = b, mFiles = take k files\<rparr>) ys = dBuckets d"
    using decodeSlice_fresh [of "dBuckets d" decodeManifest "(0, [], [], 0)" encodeManifest
        "\<lambda>(v, b, files, k). \<lparr>mVersion = v, mBucket = b, mFiles = take k files\<rparr>"] decodeManifest_encode assms(4) by blast
  from m have "length ys = length (dBuckets d)" by (metis length_map)
  with assms(1-3) y m show ?thesis
    by (simp add: Unmarshal_def decodeDocument_def encodeDocument_def decodeTime_def documentVersion_def min64_def max64_def)
qed

lemma Capture_ok:
  assumes "utf8_ok ts" and "\<forall>e \<in> set (ListAll c). entry_utf8 e" shows "json_ok (encodeDocument ts (Capture now c))"
proof -
  have "utf8_ok ''captured_at''" "utf8_ok ''buckets''" by code_simp+
  moreover have "json_ok (encodeManifest (ManifestForBucket c (eBucket e)))" if "e \<in> set (ListAll c)" for e
    using assms(2) that by (auto simp: encodeManifest_def ManifestForBucket_def ListByBucket_def json_ok_encodeEntry entry_utf8_def)
  ultimately show ?thesis using assms(1) by (auto simp: encodeDocument_def Capture_def documentVersion_def)
qed

text \<open>
  C35. A snapshot restores the catalog: the document captured from a reachable catalog is printed, and its
  text, read back and restored into a catalog of the same visibility rules, whatever that held before,
  gives the same lookups and the same listing; a document of another version is refused.
\<close>

theorem snapshot_restores:
  assumes "cat_reachable UNIV c" and "\<forall>e \<in> set (ListAll c). entry_utf8 e \<and> eKey e \<noteq> [] \<and> eBucket e \<noteq> []"
    and "bucketType c' = bucketType c" and "timeText now = Inr ts" and "time_Parse ts = Some now" and "utf8_ok ts"
  shows "(\<exists>data doc restored. Marshal timeText (Capture now c) = Inr data \<and>
      Unmarshal data = Inr doc \<and> Restore doc c' = (None, restored) \<and>
      (\<forall>k. Lookup restored k = Lookup c k) \<and> ListAll restored = ListAll c) \<and>
    (\<forall>other doc. Unmarshal other = Inr doc \<longrightarrow> dVersion doc = 1)"
proof -
  have inv: "cat_inv c" by (rule cat_reachable_inv [OF assms(1)])
  let ?data = "MarshalIndent (encodeDocument ts (Capture now c))"
  have m: "Marshal timeText (Capture now c) = Inr ?data" by (simp add: Marshal_def Capture_def assms(4))
  have "json_Parse ?data = Some (encodeDocument ts (Capture now c))"
    using assms(2,6) by (intro json_Parse_MarshalIndent Capture_ok) auto
  then have u: "Unmarshal ?data = Inr (Capture now c)"
    using assms(5) by (intro Unmarshal_encode) (auto simp: Capture_def documentVersion_def ManifestForBucket_def)
  have st: "catalog_storable c (distinctBuckets (ListAll c))"
    using assms(2) by (auto simp: catalog_storable_def entry_utf8_def)
  have l: "Lookup (LoadManifests (manifestsOf c (distinctBuckets (ListAll c))) c') k = Lookup c k" for k
    by (rule manifests_restore [OF inv st assms(3)])
  then have "ListAll (LoadManifests (manifestsOf c (distinctBuckets (ListAll c))) c') = ListAll c"
    by (auto intro: ListAll_unique inv)
  moreover note Restore_Capture [of now c c']
  ultimately have 1: "\<exists>data doc restored. Marshal timeText (Capture now c) = Inr data \<and>
      Unmarshal data = Inr doc \<and> Restore doc c' = (None, restored) \<and>
      (\<forall>k. Lookup restored k = Lookup c k) \<and> ListAll restored = ListAll c"
    using m u l by fast
  have "Unmarshal other = Inr doc \<Longrightarrow> dVersion doc = 1" for other doc
    by (auto simp: Unmarshal_def documentVersion_def split: option.splits if_splits)
  with 1 show ?thesis by blast
qed

definition witness_time :: "instant \<Rightarrow> go_error + string" where
  "witness_time t = (if t = time_Date 2024 1 1 0 0 0 0 then Inr ''2024-01-01T00:00:00Z''
                     else Inl (ErrorsNew ''Time.MarshalJSON: year outside of range [0,9999]''))"

theorem snapshot_restores_witness:
  "\<exists>data doc restored. Marshal witness_time (Capture (time_Date 2024 1 1 0 0 0 0) witness_catalog) = Inr data \<and>
     Unmarshal data = Inr doc \<and> Restore doc (Clear witness_catalog) = (None, restored) \<and>
     ListAll restored = ListAll witness_catalog"
proof -
  have r: "cat_reachable UNIV witness_catalog" by (rule cat_reachable_mono [OF witness_catalog_reachable]) simp
  have e: "\<forall>e \<in> set (ListAll witness_catalog). entry_utf8 e \<and> eKey e \<noteq> [] \<and> eBucket e \<noteq> []" by code_simp
  have t: "time_Parse ''2024-01-01T00:00:00Z'' = Some (time_Date 2024 1 1 0 0 0 0)" by code_simp
  have u: "utf8_ok ''2024-01-01T00:00:00Z''" by code_simp
  have w: "witness_time (time_Date 2024 1 1 0 0 0 0) = Inr ''2024-01-01T00:00:00Z''" by (simp add: witness_time_def)
  have "bucketType (Clear witness_catalog) = bucketType witness_catalog" by (simp add: Clear_def)
  from snapshot_restores [of witness_catalog "Clear witness_catalog" witness_time "time_Date 2024 1 1 0 0 0 0",
      OF r e this w t u] show ?thesis by fast
qed

end
