(* ===== verification/Scanning.thy ===== *)
theory Scanning
  imports Go_Decode Objectstore Formats
begin

text \<open>
  The vulnerability scan (\<^verbatim>\<open>internal/scan/scan.go\<close>, \<^verbatim>\<open>policy.go\<close>, \<^verbatim>\<open>osv.go\<close>): findings and their severities,
  the severity policy, and the scanner that asks an OSV service. The HTTP client that posts the query
  and the upper case of runes outside ASCII are parameters.
\<close>

section \<open>scan.go\<close>

type_synonym Severity = int

definition SeverityUnknown :: Severity where "SeverityUnknown = 0"
definition SeverityLow :: Severity where "SeverityLow = 1"
definition SeverityMedium :: Severity where "SeverityMedium = 2"
definition SeverityHigh :: Severity where "SeverityHigh = 3"
definition SeverityCritical :: Severity where "SeverityCritical = 4"

lemmas severity_defs = SeverityUnknown_def SeverityLow_def SeverityMedium_def SeverityHigh_def SeverityCritical_def

record Finding =
  fID :: string
  fSummary :: string
  fSeverity :: Severity

record ScanResult =
  Findings :: "Finding list"

definition Vulnerable :: "ScanResult \<Rightarrow> bool" where
  "Vulnerable r \<longleftrightarrow> length (Findings r) > 0"

definition MaxSeverity :: "ScanResult \<Rightarrow> Severity" where
  "MaxSeverity r = foldl (\<lambda>mx f. if fSeverity f > mx then fSeverity f else mx) SeverityUnknown (Findings r)"

section \<open>policy.go\<close>

definition severity_String :: "Severity \<Rightarrow> string" where
  "severity_String s =
     (if s = SeverityLow then ''LOW'' else if s = SeverityMedium then ''MEDIUM''
      else if s = SeverityHigh then ''HIGH'' else if s = SeverityCritical then ''CRITICAL'' else ''UNKNOWN'')"

record ScanPolicy =
  spMaxSeverity :: Severity

record ScanDecision =
  sdAllowed :: bool
  sdReason :: string

text \<open>The common beginning of the reasons: \<^verbatim>\<open>%d finding(s), worst severity %s\<close>.\<close>

definition findingsText :: "ScanResult \<Rightarrow> string" where
  "findingsText r = FormatInt (int (length (Findings r))) @ '' finding(s), worst severity '' @ severity_String (MaxSeverity r)"

definition scan_Evaluate :: "ScanPolicy \<Rightarrow> ScanResult \<Rightarrow> ScanDecision" where
  "scan_Evaluate p result =
     (if \<not> Vulnerable result then \<lparr>sdAllowed = True, sdReason = ''no known vulnerabilities found''\<rparr>
      else if MaxSeverity result > spMaxSeverity p
      then \<lparr>sdAllowed = False, sdReason = findingsText result @ '' exceeds policy max '' @ severity_String (spMaxSeverity p)\<rparr>
      else \<lparr>sdAllowed = True, sdReason = findingsText result @ '' is within policy max '' @ severity_String (spMaxSeverity p)\<rparr>)"

section \<open>osv.go\<close>

definition defaultOSVEndpoint :: string where "defaultOSVEndpoint = ''https://api.osv.dev/v1/query''"

definition maxResponseBytes :: int64 where "maxResponseBytes = push_bit 20 8"

text \<open>The HTTP client: whether a POST request can be built for a URL, and the answer to its body.\<close>

record 'w http_poster =
  NewPost :: "string \<Rightarrow> go_error option"
  DoPost :: "string \<Rightarrow> bytes \<Rightarrow> 'w \<Rightarrow> (go_error + http_response) \<times> 'w"

record 'w OSVScanner =
  osvEndpoint :: string
  osvClient :: "'w http_poster"

definition NewOSVScanner :: "'w http_poster \<Rightarrow> 'w OSVScanner" where
  "NewOSVScanner client = \<lparr>osvEndpoint = defaultOSVEndpoint, osvClient = client\<rparr>"

definition NewOSVScannerWithEndpoint :: "'w http_poster \<Rightarrow> string \<Rightarrow> 'w http_poster option \<Rightarrow> 'w OSVScanner" where
  "NewOSVScannerWithEndpoint dflt endpoint client =
     \<lparr>osvEndpoint = endpoint, osvClient = (case client of None \<Rightarrow> dflt | Some c \<Rightarrow> c)\<rparr>"

text \<open>\<^verbatim>\<open>json.Marshal(osvQuery{...})\<close>; an empty version is left out.\<close>

definition osvQuery :: "string \<Rightarrow> string \<Rightarrow> string \<Rightarrow> json" where
  "osvQuery ecosystem name version =
     JObj ((if version = [] then [] else [(''version'', JStr version)]) @
           [(''package'', JObj [(''name'', JStr name), (''ecosystem'', JStr ecosystem)])])"

record osvSeverity =
  osType :: string
  osScore :: string

record osvVuln =
  ovID :: string
  ovSummary :: string
  ovDatabaseSeverity :: string
  ovSeverityScores :: "osvSeverity list \<times> nat"

definition decodeOsvSeverity :: "osvSeverity \<Rightarrow> json \<Rightarrow> osvSeverity option" where
  "decodeOsvSeverity = decodeObject (\<lambda>s k v.
     if keyIs k ''type'' then map_option (\<lambda>t. s\<lparr>osType := t\<rparr>) (decodeString (osType s) v)
     else if keyIs k ''score'' then map_option (\<lambda>t. s\<lparr>osScore := t\<rparr>) (decodeString (osScore s) v)
     else Some s)"

definition decodeDBSpecific :: "string \<Rightarrow> json \<Rightarrow> string option" where
  "decodeDBSpecific = decodeObject (\<lambda>s k v. if keyIs k ''severity'' then decodeString s v else Some s)"

definition zeroVuln :: osvVuln where
  "zeroVuln = \<lparr>ovID = [], ovSummary = [], ovDatabaseSeverity = [], ovSeverityScores = ([], 0)\<rparr>"

definition decodeVuln :: "osvVuln \<Rightarrow> json \<Rightarrow> osvVuln option" where
  "decodeVuln = decodeObject (\<lambda>r k v.
     if keyIs k ''id'' then map_option (\<lambda>t. r\<lparr>ovID := t\<rparr>) (decodeString (ovID r) v)
     else if keyIs k ''summary'' then map_option (\<lambda>t. r\<lparr>ovSummary := t\<rparr>) (decodeString (ovSummary r) v)
     else if keyIs k ''database_specific''
     then map_option (\<lambda>t. r\<lparr>ovDatabaseSeverity := t\<rparr>) (decodeDBSpecific (ovDatabaseSeverity r) v)
     else if keyIs k ''severity''
     then map_option (\<lambda>t. r\<lparr>ovSeverityScores := t\<rparr>) (decodeSlice decodeOsvSeverity \<lparr>osType = [], osScore = []\<rparr> (ovSeverityScores r) v)
     else Some r)"

text \<open>\<^verbatim>\<open>json.Unmarshal(respBody, &parsed)\<close>: the \<^verbatim>\<open>vulns\<close> of the answer.\<close>

definition decodeResponse :: "bytes \<Rightarrow> osvVuln list option" where
  "decodeResponse body =
     (case json_Parse body of
        None \<Rightarrow> None
      | Some v \<Rightarrow>
          map_option (\<lambda>(xs, n). take n xs)
            (decodeObject (\<lambda>vulns k w. if keyIs k ''vulns'' then decodeSlice decodeVuln zeroVuln vulns w else Some vulns) ([], 0) v))"

text \<open>\<^verbatim>\<open>strings.ToUpper\<close>, with the upper case of runes outside ASCII as the parameter \<open>uu\<close>.\<close>

definition upperByte :: "char \<Rightarrow> char" where
  "upperByte c = (if 97 \<le> code c \<and> code c \<le> 122 then char_of (code c - 32) else c)"

definition ToUpper :: "(int \<Rightarrow> int) \<Rightarrow> string \<Rightarrow> string" where
  "ToUpper uu s =
     (if list_all (\<lambda>c. code c < 128) s then map upperByte s
      else concat (map (\<lambda>(r, bs). EncodeRune (if r < 128 then (if 97 \<le> r \<and> r \<le> 122 then r - 32 else r) else uu r)) (Runes s)))"

definition parseOSVSeverity :: "(int \<Rightarrow> int) \<Rightarrow> string \<Rightarrow> Severity" where
  "parseOSVSeverity uu raw =
     (let s = ToUpper uu raw
      in if s = ''LOW'' then SeverityLow
         else if s = ''MODERATE'' \<or> s = ''MEDIUM'' then SeverityMedium
         else if s = ''HIGH'' then SeverityHigh
         else if s = ''CRITICAL'' then SeverityCritical
         else SeverityUnknown)"

definition osvFinding :: "(int \<Rightarrow> int) \<Rightarrow> osvVuln \<Rightarrow> Finding" where
  "osvFinding uu v = \<lparr>fID = ovID v, fSummary = ovSummary v, fSeverity = parseOSVSeverity uu (ovDatabaseSeverity v)\<rparr>"

definition Scan :: "(int \<Rightarrow> int) \<Rightarrow> 'w OSVScanner \<Rightarrow> string \<Rightarrow> string \<Rightarrow> string \<Rightarrow> 'w \<Rightarrow> (go_error + ScanResult) \<times> 'w" where
  "Scan uu s ecosystem name version w =
     (let body = json_Print (osvQuery ecosystem name version)
      in case NewPost (osvClient s) (osvEndpoint s) of
           Some err \<Rightarrow> (Inl (Errorf ''scan: osv: build request: %w'' [] [err]), w)
         | None \<Rightarrow>
             (case DoPost (osvClient s) (osvEndpoint s) body w of
                (Inl err, w') \<Rightarrow> (Inl (Errorf ''scan: osv: query %s/%s@%s: %w'' [ecosystem, name, version] [err]), w')
              | (Inr resp, w') \<Rightarrow>
                  (if hrStatus resp \<noteq> 200
                   then Inl (Errorf ''scan: osv: query %s/%s@%s: unexpected status %d''
                          [ecosystem, name, version, FormatInt (hrStatus resp)] [])
                   else (case readLimited (maxResponseBytes + 1) resp of
                          Inl err \<Rightarrow> Inl (Errorf ''scan: osv: read response: %w'' [] [err])
                        | Inr respBody \<Rightarrow>
                            if lt64 maxResponseBytes (len64 respBody)
                            then Inl (Errorf ''scan: osv: response for %s/%s@%s exceeds %d byte limit''
                                   [ecosystem, name, version, FormatInt (sint maxResponseBytes)] [])
                            else (case decodeResponse respBody of
                                    None \<Rightarrow> Inl (Errorf ''scan: osv: decode response: %w'' [] [err_json])
                                  | Some vulns \<Rightarrow> Inr \<lparr>Findings = map (osvFinding uu) vulns\<rparr>)), w')))"

section \<open>What the policy denies\<close>

lemma MaxSeverity_gt:
  "MaxSeverity r > m \<longleftrightarrow> SeverityUnknown > m \<or> (\<exists>f \<in> set (Findings r). fSeverity f > m)"
proof -
  have "foldl (\<lambda>mx f. if fSeverity f > mx then fSeverity f else mx) s fs > m \<longleftrightarrow> s > m \<or> (\<exists>f \<in> set fs. fSeverity f > m)" for s and fs :: "Finding list"
    by (induction fs arbitrary: s) auto
  then show ?thesis by (simp add: MaxSeverity_def)
qed

lemma MaxSeverity_in:
  "MaxSeverity r = SeverityUnknown \<or> (\<exists>f \<in> set (Findings r). MaxSeverity r = fSeverity f)"
proof -
  have "let x = foldl (\<lambda>mx f. if fSeverity f > mx then fSeverity f else mx) s fs in x = s \<or> (\<exists>f \<in> set fs. x = fSeverity f)" for s and fs :: "Finding list"
    by (induction fs arbitrary: s) (auto simp: Let_def split: if_splits)
  then show ?thesis by (simp add: MaxSeverity_def Let_def)
qed

lemma scan_Evaluate_denies:
  "\<not> sdAllowed (scan_Evaluate p r) \<longleftrightarrow>
     Findings r \<noteq> [] \<and> (SeverityUnknown > spMaxSeverity p \<or> (\<exists>f \<in> set (Findings r). fSeverity f > spMaxSeverity p))"
  by (simp add: scan_Evaluate_def Vulnerable_def MaxSeverity_gt)

section \<open>Reading an answer\<close>

lemma readLimited_whole_iff:
  assumes "0 < sint m" and "sint m < max64"
  shows "(readLimited (m + 1) resp = Inr body \<and> \<not> lt64 m (len64 body)) \<longleftrightarrow>
     body = hrBody resp \<and> hrBodyErr resp = None \<and> int (length (hrBody resp)) \<le> sint m"
proof
  assume "readLimited (m + 1) resp = Inr body \<and> \<not> lt64 m (len64 body)"
  with readLimited_succ [OF assms] show "body = hrBody resp \<and> hrBodyErr resp = None \<and> int (length (hrBody resp)) \<le> sint m"
    by blast
next
  assume r: "body = hrBody resp \<and> hrBodyErr resp = None \<and> int (length (hrBody resp)) \<le> sint m"
  then have "sint (len64 body) = int (length body)" using assms(2) by (intro sint_len64) simp
  with r assms show "readLimited (m + 1) resp = Inr body \<and> \<not> lt64 m (len64 body)"
    by (simp add: readLimited_def sint_succ lt64_def)
qed

lemma Scan_answer:
  assumes "NewPost (osvClient s) (osvEndpoint s) = None"
    and "DoPost (osvClient s) (osvEndpoint s) (json_Print (osvQuery ecosystem name version)) w = (Inr resp, w')"
  shows "fst (Scan uu s ecosystem name version w) = Inr r \<longleftrightarrow>
     hrStatus resp = 200 \<and> hrBodyErr resp = None \<and> int (length (hrBody resp)) \<le> sint maxResponseBytes \<and>
     (\<exists>vulns. decodeResponse (hrBody resp) = Some vulns \<and> r = \<lparr>Findings = map (osvFinding uu) vulns\<rparr>)"
proof -
  have m: "0 < sint maxResponseBytes" "sint maxResponseBytes < max64" by code_simp+
  have "fst (Scan uu s ecosystem name version w) = Inr r \<longleftrightarrow> hrStatus resp = 200 \<and>
      (\<exists>body vulns. (readLimited (maxResponseBytes + 1) resp = Inr body \<and> \<not> lt64 maxResponseBytes (len64 body)) \<and>
         decodeResponse body = Some vulns \<and> r = \<lparr>Findings = map (osvFinding uu) vulns\<rparr>)"
    using assms by (auto simp: Scan_def Let_def split: sum.splits option.splits if_splits)
  then show ?thesis unfolding readLimited_whole_iff [OF m] by blast
qed

text \<open>An answer of an OSV service: advisories with an identifier, a summary and a severity.\<close>

definition encodeVuln :: "string \<times> string \<times> string \<Rightarrow> json" where
  "encodeVuln v = (case v of (i, sm, sv) \<Rightarrow>
     JObj [(''id'', JStr i), (''summary'', JStr sm), (''database_specific'', JObj [(''severity'', JStr sv)])])"

definition osvAnswer :: "(string \<times> string \<times> string) list \<Rightarrow> bytes" where
  "osvAnswer vs = json_Print (JObj [(''vulns'', JArr (map encodeVuln vs))])"

lemma osv_tags [simp]:
  "keyIs ''id'' ''id''" "\<not> keyIs ''summary'' ''id''" "\<not> keyIs ''database_specific'' ''id''" "keyIs ''summary'' ''summary''"
  "\<not> keyIs ''database_specific'' ''summary''" "keyIs ''database_specific'' ''database_specific''" "keyIs ''severity'' ''severity''"
  "keyIs ''vulns'' ''vulns''" "utf8_ok ''id''" "utf8_ok ''summary''" "utf8_ok ''database_specific''" "utf8_ok ''severity''" "utf8_ok ''vulns''"
  by code_simp+

lemma decodeVuln_encode:
  "decodeVuln zeroVuln (encodeVuln (i, sm, sv)) = Some (zeroVuln\<lparr>ovID := i, ovSummary := sm, ovDatabaseSeverity := sv\<rparr>)"
  by (simp add: decodeVuln_def encodeVuln_def decodeObject_def decodeDBSpecific_def decodeString_def zeroVuln_def)

lemma decodeElems_encode:
  "decodeElems decodeVuln zeroVuln [] (map encodeVuln vs) =
     Some (map (\<lambda>(i, sm, sv). zeroVuln\<lparr>ovID := i, ovSummary := sm, ovDatabaseSeverity := sv\<rparr>) vs)"
  by (induction vs) (auto simp: decodeVuln_encode)

lemma decodeResponse_answer:
  assumes "\<forall>(i, sm, sv) \<in> set vs. utf8_ok i \<and> utf8_ok sm \<and> utf8_ok sv"
  shows "decodeResponse (osvAnswer vs) =
    Some (map (\<lambda>(i, sm, sv). zeroVuln\<lparr>ovID := i, ovSummary := sm, ovDatabaseSeverity := sv\<rparr>) vs)"
proof -
  have "json_ok (JObj [(''vulns'', JArr (map encodeVuln vs))])" using assms by (auto simp: encodeVuln_def)
  then have p: "json_Parse (osvAnswer vs) = Some (JObj [(''vulns'', JArr (map encodeVuln vs))])"
    unfolding osvAnswer_def by (rule json_Parse_Print)
  have "decodeSlice decodeVuln zeroVuln ([], 0) (JArr (map encodeVuln vs)) =
      Some (map (\<lambda>(i, sm, sv). zeroVuln\<lparr>ovID := i, ovSummary := sm, ovDatabaseSeverity := sv\<rparr>) vs, length vs)"
    using decodeElems_encode [of vs] by (cases vs) (simp_all add: decodeSlice_def del: decodeElems.simps)
  with p show ?thesis by (simp add: decodeResponse_def decodeObject_def)
qed


definition witness_osv :: "unit OSVScanner" where
  "witness_osv = NewOSVScanner \<lparr>NewPost = (\<lambda>u. None),
     DoPost = (\<lambda>u body w. (Inr \<lparr>hrStatus = 200, hrBody = osvAnswer [(''GHSA-1'', ''bad'', ''high'')], hrBodyErr = None, hrContentType = []\<rparr>, w))\<rparr>"


end
