(* ===== verification/Licensing.thy ===== *)
theory Licensing
  imports Scanning Formats_Correct
begin

text \<open>
  License detection (\<^verbatim>\<open>internal/license\<close>): the table of SPDX aliases and its normalisation
  (\<^verbatim>\<open>normalize.go\<close>), the result of a detection (\<^verbatim>\<open>license.go\<close>) and the adapters for npm (\<^verbatim>\<open>npm.go\<close>) and
  Python metadata (\<^verbatim>\<open>python.go\<close>); the one for Maven is in \<open>Licensing_Maven\<close>. The parameter \<open>ul\<close> is the lower case of the runes outside ASCII.
\<close>

section \<open>normalize.go\<close>

text \<open>\<^verbatim>\<open>strings.Fields\<close>: the maximal runs of bytes between white space.\<close>

definition pushField :: "string \<Rightarrow> string list \<Rightarrow> string list" where
  "pushField f fs = (if f = [] then fs else f # fs)"

fun fieldsFrom :: "string \<Rightarrow> (int \<times> string) list \<Rightarrow> string list" where
  "fieldsFrom cur [] = pushField cur []"
| "fieldsFrom cur ((r, bs) # rs) =
     (if IsSpace r then pushField cur (fieldsFrom [] rs) else fieldsFrom (cur @ bs) rs)"

definition Fields :: "string \<Rightarrow> string list" where
  "Fields s = fieldsFrom [] (Runes s)"

definition spdxAliases :: "(string, string) gomap" where
  "spdxAliases =
     [(''mit'', ''MIT''), (''mit license'', ''MIT''), (''the mit license'', ''MIT''),
      (''apache 2.0'', ''Apache-2.0''), (''apache-2.0'', ''Apache-2.0''), (''apache license 2.0'', ''Apache-2.0''),
      (''apache license, version 2.0'', ''Apache-2.0''), (''apache software license'', ''Apache-2.0''),
      (''bsd-2-clause'', ''BSD-2-Clause''), (''bsd-3-clause'', ''BSD-3-Clause''),
      (''isc'', ''ISC''), (''isc license'', ''ISC''),
      (''gpl-3.0'', ''GPL-3.0-only''), (''gpl-3.0-only'', ''GPL-3.0-only''), (''gpl-3.0-or-later'', ''GPL-3.0-or-later''),
      (''gplv3'', ''GPL-3.0-only''), (''gnu general public license v3.0'', ''GPL-3.0-only''),
      (''gpl-2.0'', ''GPL-2.0-only''), (''gpl-2.0-only'', ''GPL-2.0-only''), (''gpl-2.0-or-later'', ''GPL-2.0-or-later''),
      (''gplv2'', ''GPL-2.0-only''), (''gnu general public license v2.0'', ''GPL-2.0-only''),
      (''lgpl-3.0'', ''LGPL-3.0-only''), (''lgpl-3.0-only'', ''LGPL-3.0-only''), (''lgpl-3.0-or-later'', ''LGPL-3.0-or-later''),
      (''lgpl-2.1'', ''LGPL-2.1-only''), (''lgpl-2.1-only'', ''LGPL-2.1-only''), (''lgpl-2.1-or-later'', ''LGPL-2.1-or-later''),
      (''gnu lesser general public license v3'', ''LGPL-3.0-only''),
      (''mpl-2.0'', ''MPL-2.0''), (''mozilla public license 2.0'', ''MPL-2.0''),
      (''unlicense'', ''Unlicense''), (''cc0-1.0'', ''CC0-1.0''), (''cc0'', ''CC0-1.0'')]"

definition NormalizeSPDX :: "(int \<Rightarrow> int) \<Rightarrow> string \<Rightarrow> string" where
  "NormalizeSPDX ul raw =
     (case gm_get spdxAliases (Join (Fields (ToLower ul raw)) '' '') of Some spdx \<Rightarrow> spdx | None \<Rightarrow> [])"

section \<open>license.go\<close>

record LicenseResult =
  lRaw :: string
  lSPDXID :: string

definition noLicense :: LicenseResult where
  "noLicense = \<lparr>lRaw = [], lSPDXID = []\<rparr>"

definition Detected :: "LicenseResult \<Rightarrow> bool" where
  "Detected r \<longleftrightarrow> lRaw r \<noteq> []"

definition Normalized :: "LicenseResult \<Rightarrow> bool" where
  "Normalized r \<longleftrightarrow> lSPDXID r \<noteq> []"

definition newResult :: "(int \<Rightarrow> int) \<Rightarrow> string \<Rightarrow> LicenseResult" where
  "newResult ul raw =
     (let raw = TrimSpace raw
      in if raw = [] then noLicense else \<lparr>lRaw = raw, lSPDXID = NormalizeSPDX ul raw\<rparr>)"

section \<open>npm.go\<close>

record npmPackageJSON =
  pLicense :: "json option"
  pLicenses :: "string list \<times> nat"

text \<open>\<^verbatim>\<open>npmLicenseObject\<close>, which has one field, is its \<^verbatim>\<open>Type\<close>.\<close>

definition decodeLicenseObject :: "string \<Rightarrow> json \<Rightarrow> string option" where
  "decodeLicenseObject = decodeObject (\<lambda>t k v. if keyIs k ''type'' then decodeString t v else Some t)"

definition decodePackageJSON :: "json \<Rightarrow> npmPackageJSON option" where
  "decodePackageJSON = decodeObject (\<lambda>p k v.
     if keyIs k ''license'' then Some (p\<lparr>pLicense := Some v\<rparr>)
     else if keyIs k ''licenses''
     then map_option (\<lambda>ls. p\<lparr>pLicenses := ls\<rparr>) (decodeSlice decodeLicenseObject [] (pLicenses p) v)
     else Some p) \<lparr>pLicense = None, pLicenses = ([], 0)\<rparr>"

text \<open>The text of the \<^verbatim>\<open>license\<close> member: a string, or the type of an object.\<close>

definition npmLicenseText :: "npmPackageJSON \<Rightarrow> string" where
  "npmLicenseText p =
     (let fromArray = (case pLicenses p of (ls, n) \<Rightarrow> if n > 0 then hd ls else [])
      in case pLicense p of
           None \<Rightarrow> fromArray
         | Some v \<Rightarrow>
             (case decodeString [] v of
                Some (c # cs) \<Rightarrow> c # cs
              | _ \<Rightarrow> (case decodeLicenseObject [] v of
                         Some (c # cs) \<Rightarrow> c # cs
                       | _ \<Rightarrow> fromArray)))"

definition ParseNPMPackageJSON :: "(int \<Rightarrow> int) \<Rightarrow> bytes \<Rightarrow> go_error + LicenseResult" where
  "ParseNPMPackageJSON ul data =
     (case Option.bind (json_Parse data) decodePackageJSON of
        None \<Rightarrow> Inl (Errorf ''license: parse package.json: %w'' [] [err_json])
      | Some pkg \<Rightarrow> (case npmLicenseText pkg of [] \<Rightarrow> Inr noLicense | t \<Rightarrow> Inr (newResult ul t)))"

section \<open>python.go\<close>

definition classifierLicensePrefix :: string where
  "classifierLicensePrefix = ''Classifier: License :: OSI Approved''"

text \<open>
  The lines a \<^verbatim>\<open>bufio.Scanner\<close> with its default buffer delivers: without the line feed and one carriage
  return, nothing after the last line feed if that is empty. A line that does not fit into 64 KiB
  stops the scan with an error; it is \<open>None\<close> here.
\<close>

definition maxScanTokenSize :: nat where "maxScanTokenSize = 65536"

definition scanLines :: "bytes \<Rightarrow> string option list" where
  "scanLines data =
     (let ls = Split data (CHR 0x0A);
          ls' = (if last ls = [] then butlast ls else ls)
      in map (\<lambda>l. if length l \<ge> maxScanTokenSize then None else Some (TrimSuffix l [CHR 0x0D])) ls')"

definition classifierName :: "string \<Rightarrow> string" where
  "classifierName line = TrimSpace (TrimPrefix (TrimSpace (TrimPrefix line classifierLicensePrefix)) '':: '')"

fun pythonHeaders :: "string option list \<Rightarrow> string \<Rightarrow> string \<Rightarrow> (string \<times> string) option" where
  "pythonHeaders [] licenseHeader classifierLicense = Some (licenseHeader, classifierLicense)"
| "pythonHeaders (None # ls) licenseHeader classifierLicense = None"
| "pythonHeaders (Some line # ls) licenseHeader classifierLicense =
     (if line = [] then Some (licenseHeader, classifierLicense)
      else if HasPrefix line ''License:''
      then pythonHeaders ls (TrimSpace (TrimPrefix line ''License:'')) classifierLicense
      else if classifierLicense = [] \<and> HasPrefix line classifierLicensePrefix
      then pythonHeaders ls licenseHeader (classifierName line)
      else pythonHeaders ls licenseHeader classifierLicense)"

definition ParsePythonMetadata :: "(int \<Rightarrow> int) \<Rightarrow> bytes \<Rightarrow> go_error + LicenseResult" where
  "ParsePythonMetadata ul data =
     (case pythonHeaders (scanLines data) [] [] of
        None \<Rightarrow> Inl (Errorf ''license: parse Python metadata: %w'' [] [ErrorsNew ''bufio.Scanner: token too long''])
      | Some (licenseHeader, classifierLicense) \<Rightarrow>
          if licenseHeader \<noteq> [] \<and> \<not> keyIs licenseHeader ''UNKNOWN'' then Inr (newResult ul licenseHeader)
          else if classifierLicense \<noteq> [] then Inr (newResult ul classifierLicense)
          else Inr noLicense)"

section \<open>Normalisation\<close>

lemma fieldsFrom_ascii:
  assumes "list_all (\<lambda>c. code c < 128) s" and "list_all (\<lambda>c. code c < 128) cur"
  shows "fieldsFrom (map lowerByte cur) (Runes (map lowerByte s)) = map (map lowerByte) (fieldsFrom cur (Runes s))"
proof -
  have sp: "IsSpace (code (lowerByte c)) \<longleftrightarrow> IsSpace (code c)" if "code c < 128" for c
    using that code_range [of c] by (auto simp: lowerByte_def code_char_of IsSpace_def)
  have "Runes (map lowerByte s) = map (\<lambda>c. (code c, [c])) (map lowerByte s)"
    using assms(1) lowerByte_range by (intro Runes_ascii) (auto simp: list_all_iff)
  moreover have "Runes s = map (\<lambda>c. (code c, [c])) s"
    using assms(1) by (intro Runes_ascii) (auto simp: list_all_iff)
  moreover have "fieldsFrom (map lowerByte cur) (map (\<lambda>c. (code c, [c])) (map lowerByte s)) =
      map (map lowerByte) (fieldsFrom cur (map (\<lambda>c. (code c, [c])) s))" for cur
    using assms(1)
  proof (induction s arbitrary: cur)
    case (Cons c s)
    then show ?case using Cons.IH [of "cur @ [c]"] Cons.IH [of "[]"] by (simp add: sp pushField_def)
  qed (simp add: pushField_def)
  ultimately show ?thesis by simp
qed

lemma Fields_lower:
  "list_all (\<lambda>c. code c < 128) s \<Longrightarrow> Fields (ToLower ul s) = map (map lowerByte) (Fields s)"
  using fieldsFrom_ascii [of s "[]"] by (simp add: Fields_def ToLower_ascii)

lemma spdx_in_table: "NormalizeSPDX ul raw \<noteq> [] \<Longrightarrow> NormalizeSPDX ul raw \<in> set (map snd spdxAliases)"
  by (auto simp: NormalizeSPDX_def gm_get_def dest: map_of_SomeD split: option.splits intro: rev_image_eqI)

lemma spdx_table_fixed:
  assumes "spdx \<in> set (map snd spdxAliases)" shows "NormalizeSPDX ul spdx = spdx"
proof -
  have a: "list_all (\<lambda>s. list_all (\<lambda>c. code c < 128) s \<and>
      gm_get spdxAliases (Join (map (map lowerByte) (Fields s)) '' '') = Some s) (map snd spdxAliases)"
    by code_simp
  with assms have "list_all (\<lambda>c. code c < 128) spdx" and
    "gm_get spdxAliases (Join (map (map lowerByte) (Fields spdx)) '' '') = Some spdx"
    unfolding list_all_iff [of _ "map snd spdxAliases"] by blast+
  then show ?thesis by (simp add: NormalizeSPDX_def Fields_lower)
qed

text \<open>
  The normalisation of license names: what it gives is unknown or one of the table's SPDX
  identifiers, and every identifier it gives normalises to itself; an ASCII name is judged by its words
  alone, whatever their case and the white space between them; npm's \<^verbatim>\<open>UNLICENSED\<close> is never taken for
  the \<^verbatim>\<open>Unlicense\<close>.
\<close>

theorem NormalizeSPDX_canonical:
  "NormalizeSPDX ul raw \<in> {[]} \<union> set (map snd spdxAliases) \<and>
   NormalizeSPDX ul (NormalizeSPDX ul raw) = NormalizeSPDX ul raw \<and>
   (\<forall>a b. list_all (\<lambda>c. code c < 128) (a @ b) \<and> map (map lowerByte) (Fields a) = map (map lowerByte) (Fields b) \<longrightarrow>
      NormalizeSPDX ul a = NormalizeSPDX ul b) \<and>
   NormalizeSPDX ul ''UNLICENSED'' = [] \<and> NormalizeSPDX ul ''UnLicense'' = ''Unlicense''"
proof -
  have "NormalizeSPDX ul [] = []" "NormalizeSPDX ul ''UNLICENSED'' = []" "NormalizeSPDX ul ''UnLicense'' = ''Unlicense''"
    by code_simp+
  with spdx_in_table [of ul raw] spdx_table_fixed show ?thesis
    by (cases "NormalizeSPDX ul raw = []") (auto simp: NormalizeSPDX_def Fields_lower simp del: set_map)
qed

theorem NormalizeSPDX_canonical_witness:
  "NormalizeSPDX (\<lambda>r. r) ''  the  MIT License'' = NormalizeSPDX (\<lambda>r. r) ''The mit license''"
proof -
  have "list_all (\<lambda>c. code c < 128) (''  the  MIT License'' @ ''The mit license'')"
    and "map (map lowerByte) (Fields ''  the  MIT License'') = map (map lowerByte) (Fields ''The mit license'')"
    by code_simp+
  with NormalizeSPDX_canonical [of "\<lambda>r. r"] show ?thesis by blast
qed

section \<open>The adapters\<close>

lemma npm_tags [simp]:
  "keyIs ''license'' ''license''" "\<not> keyIs ''licenses'' ''license''" "keyIs ''licenses'' ''licenses''" "keyIs ''type'' ''type''"
  "utf8_ok ''license''" "utf8_ok ''licenses''" "utf8_ok ''type''"
  by code_simp+

lemma ParseNPM_print:
  assumes "json_ok v"
  shows "ParseNPMPackageJSON ul (json_Print v) =
    (case decodePackageJSON v of
       None \<Rightarrow> Inl (Errorf ''license: parse package.json: %w'' [] [err_json])
     | Some pkg \<Rightarrow> (case npmLicenseText pkg of [] \<Rightarrow> Inr noLicense | t \<Rightarrow> Inr (newResult ul t)))"
  using assms by (simp add: ParseNPMPackageJSON_def json_Parse_Print)

lemma npm_forms:
  assumes "utf8_ok (c # cs)"
  shows "ParseNPMPackageJSON ul (json_Print (JObj [(''license'', JStr (c # cs))])) = Inr (newResult ul (c # cs))"
    and "ParseNPMPackageJSON ul (json_Print (JObj [(''license'', JObj [(''type'', JStr (c # cs))])])) = Inr (newResult ul (c # cs))"
    and "ParseNPMPackageJSON ul (json_Print (JObj [(''licenses'', JArr [JObj [(''type'', JStr (c # cs))]])])) = Inr (newResult ul (c # cs))"
  using assms by (subst ParseNPM_print;
    simp add: decodePackageJSON_def decodeObject_def decodeSlice_def decodeLicenseObject_def decodeString_def npmLicenseText_def del: json_Print.simps)+

lemma TrimSpace_lead: "TrimSpace (CHR '' '' # s) = TrimSpace s"
proof -
  have "code (CHR '' '') = 32" by code_simp
  then show ?thesis by (simp add: TrimSpace_def rune_at_ascii IsSpace_def)
qed

lemma python_header:
  assumes "CHR 0x0A \<notin> set s" and "CHR 0x0D \<notin> set s" and "length s < 65526" and "TrimSpace s = s" and "s \<noteq> []" and "\<not> keyIs s ''UNKNOWN''"
  shows "ParsePythonMetadata ul (''License: '' @ s @ CHR 0x0A # CHR 0x0A # description) = Inr (newResult ul s)"
proof -
  let ?l = "''License: '' @ s"
  have nl: "CHR 0x0A \<notin> set ?l" using assms(1) by simp
  have "scanLines (?l @ CHR 0x0A # CHR 0x0A # description) =
      (let t = Split description (CHR 0x0A); t' = (if last t = [] then butlast t else t)
       in Some ?l # Some [] # map (\<lambda>l. if length l \<ge> maxScanTokenSize then None else Some (TrimSuffix l [CHR 0x0D])) t')"
    using assms(2,3) Split_append_sep [OF nl, of "CHR 0x0A # description"]
    by (cases "s" rule: rev_cases) (auto simp: scanLines_def Let_def maxScanTokenSize_def TrimSuffix_def HasSuffix_def)
  then have "pythonHeaders (scanLines (?l @ CHR 0x0A # CHR 0x0A # description)) [] [] = Some (s, [])"
    using assms(4) TrimSpace_lead [of s] by (simp add: Let_def TrimPrefix_def HasPrefix_def)
  then show ?thesis using assms(5,6) by (simp add: ParsePythonMetadata_def)
qed

text \<open>
  However a package declares its license, the same text gives the same result: as the string, the
  legacy object or the legacy array of an npm \<^verbatim>\<open>package.json\<close>, and as the \<^verbatim>\<open>License\<close> header of Python
  metadata in front of any description, where it has to fit on a line and must not be the placeholder
  \<^verbatim>\<open>UNKNOWN\<close>.
\<close>

theorem license_forms_agree:
  assumes "utf8_ok s" and "s \<noteq> []" and "TrimSpace s = s" and "CHR 0x0A \<notin> set s" and "CHR 0x0D \<notin> set s"
    and "length s < 65526" and "\<not> keyIs s ''UNKNOWN''"
  shows "ParseNPMPackageJSON ul (json_Print (JObj [(''license'', JStr s)])) = Inr \<lparr>lRaw = s, lSPDXID = NormalizeSPDX ul s\<rparr> \<and>
    ParseNPMPackageJSON ul (json_Print (JObj [(''license'', JObj [(''type'', JStr s)])])) = Inr \<lparr>lRaw = s, lSPDXID = NormalizeSPDX ul s\<rparr> \<and>
    ParseNPMPackageJSON ul (json_Print (JObj [(''licenses'', JArr [JObj [(''type'', JStr s)]])])) = Inr \<lparr>lRaw = s, lSPDXID = NormalizeSPDX ul s\<rparr> \<and>
    ParsePythonMetadata ul (''License: '' @ s @ CHR 0x0A # CHR 0x0A # description) = Inr \<lparr>lRaw = s, lSPDXID = NormalizeSPDX ul s\<rparr>"
proof -
  from assms(2) obtain c cs where s: "s = c # cs" by (cases s) auto
  have "newResult ul s = \<lparr>lRaw = s, lSPDXID = NormalizeSPDX ul s\<rparr>" using assms(2,3) by (simp add: newResult_def)
  with npm_forms [of c cs, folded s, OF assms(1)] python_header [OF assms(4,5,6,3,2,7)] show ?thesis by metis
qed

theorem license_forms_agree_witness:
  "ParsePythonMetadata (\<lambda>r. r) (''License: Apache 2.0'' @ CHR 0x0A # CHR 0x0A # ''text'') = Inr \<lparr>lRaw = ''Apache 2.0'', lSPDXID = ''Apache-2.0''\<rparr>"
proof -
  have h: "utf8_ok ''Apache 2.0''" "TrimSpace ''Apache 2.0'' = ''Apache 2.0''" "\<not> keyIs ''Apache 2.0'' ''UNKNOWN''"
    "NormalizeSPDX (\<lambda>r. r) ''Apache 2.0'' = ''Apache-2.0''" by code_simp+
  from license_forms_agree [of "''Apache 2.0''" "\<lambda>r. r" "''text''"] h show ?thesis by simp
qed

end
