(* ===== verification/Policy_Engine.thy ===== *)
theory Policy_Engine
  imports Licensing
begin

text \<open>
  The policy engine (\<^verbatim>\<open>internal/policy\<close>): the rules for licenses, vulnerabilities and package age and the
  verdict they merge into (\<^verbatim>\<open>policy.go\<close>), waivers (\<^verbatim>\<open>waiver.go\<close>), the audit log (\<^verbatim>\<open>audit.go\<close>) and the engine
  that applies rules, waivers and log to an artifact (\<^verbatim>\<open>engine.go\<close>).
\<close>

section \<open>policy.go\<close>

datatype Decision = DecisionAllow | DecisionQuarantine | DecisionDeny

text \<open>Decisions are ordered as their constants: allow, quarantine, deny.\<close>

definition decisionRank :: "Decision \<Rightarrow> nat" where
  "decisionRank d = (case d of DecisionAllow \<Rightarrow> 0 | DecisionQuarantine \<Rightarrow> 1 | DecisionDeny \<Rightarrow> 2)"

instantiation Decision :: linorder
begin

definition less_eq_Decision :: "Decision \<Rightarrow> Decision \<Rightarrow> bool" where
  "less_eq_Decision a b \<longleftrightarrow> decisionRank a \<le> decisionRank b"

definition less_Decision :: "Decision \<Rightarrow> Decision \<Rightarrow> bool" where
  "less_Decision a b \<longleftrightarrow> decisionRank a < decisionRank b"

instance
  by standard (auto simp: less_eq_Decision_def less_Decision_def decisionRank_def split: Decision.splits)

end

definition decision_String :: "Decision \<Rightarrow> string" where
  "decision_String d = (case d of DecisionQuarantine \<Rightarrow> ''QUARANTINE'' | DecisionDeny \<Rightarrow> ''DENY'' | _ \<Rightarrow> ''ALLOW'')"

definition worse :: "Decision \<Rightarrow> Decision \<Rightarrow> bool" where
  "worse d other \<longleftrightarrow> d > other"

record Artifact =
  aEcosystem :: string
  aName :: string
  aVersion :: string
  aPublishedAt :: instant
  aScan :: ScanResult
  aLicense :: LicenseResult

record Verdict =
  vDecision :: Decision
  vReasons :: "string list"

definition verdict_merge :: "Verdict \<Rightarrow> Decision \<Rightarrow> string \<Rightarrow> Verdict" where
  "verdict_merge v d reason =
     \<lparr>vDecision = (if worse d (vDecision v) then d else vDecision v), vReasons = vReasons v @ [reason]\<rparr>"

record Ruleset =
  rsMaxSeverity :: Severity
  rsQuarantineSeverity :: Severity
  rsDeniedLicenses :: "string list"
  rsMinPackageAge :: duration

text \<open>
  \<^verbatim>\<open>time.Duration.String\<close>: hours, minutes and seconds with a fraction, and smaller units below a second.
  \<open>fmtFrac v prec\<close> is the text of the last \<open>prec\<close> digits of \<open>v\<close> as a fraction without trailing zeros.
\<close>

definition fmtFrac :: "int \<Rightarrow> nat \<Rightarrow> string" where
  "fmtFrac v prec =
     (let ds = map (\<lambda>i. char_of (48 + v div 10 ^ (prec - 1 - i) mod 10)) [0..<prec];
          kept = rev (dropWhile (\<lambda>c. c = CHR ''0'') (rev ds))
      in if kept = [] then [] else CHR ''.'' # kept)"

definition duration_String :: "duration \<Rightarrow> string" where
  "duration_String d =
     (let u = \<bar>sint d\<bar>;
          unit = (\<lambda>prec suffix. FormatInt (u div 10 ^ prec) @ fmtFrac u prec @ suffix);
          s = u div 1000000000; m = s div 60; h = m div 60;
          secs = FormatInt (s mod 60) @ fmtFrac u 9 @ ''s'';
          txt = (if u = 0 then ''0s''
                 else if u < 1000 then unit 0 ''ns''
                 else if u < 1000000 then unit 3 [CHR 0xC2, CHR 0xB5, CHR ''s'']
                 else if u < 1000000000 then unit 6 ''ms''
                 else (if h > 0 then FormatInt h @ ''h'' else []) @ (if m > 0 then FormatInt (m mod 60) @ ''m'' else []) @ secs)
      in if sint d < 0 then CHR ''-'' # txt else txt)"

definition evaluateLicense :: "Ruleset \<Rightarrow> Artifact \<Rightarrow> (Decision \<times> string) option" where
  "evaluateLicense r a =
     (if \<not> Normalized (aLicense a) then None
      else if lSPDXID (aLicense a) \<in> set (rsDeniedLicenses r)
      then Some (DecisionDeny, ''license '' @ lSPDXID (aLicense a) @ '' is denied by policy'')
      else Some (DecisionAllow, ''license '' @ lSPDXID (aLicense a) @ '' is not denied by policy''))"

definition evaluateVulnerabilities :: "Ruleset \<Rightarrow> Artifact \<Rightarrow> Decision \<times> string" where
  "evaluateVulnerabilities r a =
     (if \<not> Vulnerable (aScan a) then (DecisionAllow, ''no known vulnerabilities found'')
      else let worst = MaxSeverity (aScan a)
           in if worst > rsMaxSeverity r
              then (DecisionDeny, findingsText (aScan a) @ '' exceeds policy max '' @ severity_String (rsMaxSeverity r))
              else if worst > rsQuarantineSeverity r
              then (DecisionQuarantine, findingsText (aScan a) @ '' exceeds quarantine threshold '' @ severity_String (rsQuarantineSeverity r))
              else (DecisionAllow, findingsText (aScan a) @ '' is within policy thresholds''))"

definition evaluateAge :: "Ruleset \<Rightarrow> Artifact \<Rightarrow> instant \<Rightarrow> (Decision \<times> string) option" where
  "evaluateAge r a now =
     (if IsZero (aPublishedAt a) \<or> le64 (rsMinPackageAge r) 0 then None
      else let age = time_Sub now (aPublishedAt a)
           in if lt64 age (rsMinPackageAge r)
              then Some (DecisionQuarantine,
                ''published '' @ duration_String age @ '' ago, younger than policy minimum '' @ duration_String (rsMinPackageAge r))
              else Some (DecisionAllow,
                ''published '' @ duration_String age @ '' ago, at or past policy minimum '' @ duration_String (rsMinPackageAge r)))"

definition rules_Evaluate :: "Ruleset \<Rightarrow> Artifact \<Rightarrow> instant \<Rightarrow> Verdict" where
  "rules_Evaluate r a now =
     (let v0 = \<lparr>vDecision = DecisionAllow, vReasons = []\<rparr>;
          v1 = (case evaluateLicense r a of Some (d, reason) \<Rightarrow> verdict_merge v0 d reason | None \<Rightarrow> v0);
          v2 = (case evaluateVulnerabilities r a of (d, reason) \<Rightarrow> verdict_merge v1 d reason)
      in case evaluateAge r a now of Some (d, reason) \<Rightarrow> verdict_merge v2 d reason | None \<Rightarrow> v2)"

section \<open>waiver.go\<close>

record Waiver =
  wEcosystem :: string
  wName :: string
  wVersion :: string
  wReason :: string
  wApprovedBy :: string
  wExpiresAt :: instant

definition waiver_matches :: "Waiver \<Rightarrow> Artifact \<Rightarrow> instant \<Rightarrow> bool" where
  "waiver_matches w a now \<longleftrightarrow>
     (if wEcosystem w \<noteq> aEcosystem a \<or> wName w \<noteq> aName a then False
      else if wVersion w \<noteq> [] \<and> wVersion w \<noteq> aVersion a then False
      else if \<not> IsZero (wExpiresAt w) \<and> now > wExpiresAt w then False
      else True)"

fun findWaiver :: "Waiver list \<Rightarrow> Artifact \<Rightarrow> instant \<Rightarrow> Waiver option" where
  "findWaiver [] a now = None"
| "findWaiver (w # ws) a now = (if waiver_matches w a now then Some w else findWaiver ws a now)"

section \<open>audit.go\<close>

record AuditEntry =
  auTime :: instant
  auEcosystem :: string
  auName :: string
  auVersion :: string
  auDecision :: Decision
  auReasons :: "string list"
  auWaived :: bool

record AuditLog =
  alEntries :: "AuditEntry list"

definition NewAuditLog :: AuditLog where
  "NewAuditLog = \<lparr>alEntries = []\<rparr>"

definition Record :: "AuditEntry \<Rightarrow> AuditLog \<Rightarrow> AuditLog" where
  "Record entry l = l\<lparr>alEntries := alEntries l @ [entry]\<rparr>"

definition Entries :: "AuditLog \<Rightarrow> AuditEntry list" where
  "Entries l = alEntries l"

section \<open>engine.go\<close>

record Engine =
  enRules :: Ruleset
  enWaivers :: "Waiver list"
  enAudit :: "AuditLog option"

text \<open>\<^verbatim>\<open>Evaluate\<close> at the time its clock gives.\<close>

definition engine_Evaluate :: "instant \<Rightarrow> Artifact \<Rightarrow> Engine \<Rightarrow> Verdict \<times> Engine" where
  "engine_Evaluate now a e =
     (let verdict = rules_Evaluate (enRules e) a now;
          (verdict', waived) =
            (if vDecision verdict \<noteq> DecisionAllow
             then case findWaiver (enWaivers e) a now of
                    Some w \<Rightarrow> (\<lparr>vDecision = DecisionAllow,
                       vReasons = vReasons verdict @ [''waived by '' @ wApprovedBy w @ '': '' @ wReason w]\<rparr>, True)
                  | None \<Rightarrow> (verdict, False)
             else (verdict, False));
          entry = \<lparr>auTime = now, auEcosystem = aEcosystem a, auName = aName a, auVersion = aVersion a,
            auDecision = vDecision verdict', auReasons = vReasons verdict', auWaived = waived\<rparr>
      in (verdict', e\<lparr>enAudit := map_option (Record entry) (enAudit e)\<rparr>))"

section \<open>What the rules decide\<close>

lemma young_iff:
  assumes "0 < sint m" shows "lt64 (time_Sub now t) m \<longleftrightarrow> now - t < sint m"
proof -
  have "sint (time_Sub now t) = max min64 (min max64 (now - t))"
    unfolding time_Sub_def by (rule sint_of_int_range) (auto simp: min64_def max64_def)
  then show ?thesis using assms sint_lt [of m] by (auto simp: lt64_def min64_def max64_def)
qed

lemma merge_decision: "vDecision (verdict_merge v d reason) = max (vDecision v) d"
  by (auto simp: verdict_merge_def worse_def)

lemma decision_bounds [simp]: "max DecisionAllow d = d" "max d DecisionAllow = d" "max DecisionDeny d = DecisionDeny" "max d DecisionDeny = DecisionDeny"
  by (cases d; simp add: max_def less_eq_Decision_def decisionRank_def)+

lemma rules_decision:
  "vDecision (rules_Evaluate r a now) =
     max (max (case evaluateLicense r a of Some (d, _) \<Rightarrow> d | None \<Rightarrow> DecisionAllow) (fst (evaluateVulnerabilities r a)))
         (case evaluateAge r a now of Some (d, _) \<Rightarrow> d | None \<Rightarrow> DecisionAllow)"
  by (auto simp: rules_Evaluate_def Let_def merge_decision split: option.split prod.split)

lemma strictest_decision:
  "max (max (if l then DecisionDeny else DecisionAllow)
        (if n then DecisionAllow else if d then DecisionDeny else if q then DecisionQuarantine else DecisionAllow))
     (if y then DecisionQuarantine else DecisionAllow) =
   (if l \<or> (\<not> n \<and> d) then DecisionDeny else if (\<not> n \<and> q) \<or> y then DecisionQuarantine else DecisionAllow)"
  by (cases l; cases n; cases d; cases q; cases y; simp)

text \<open>
  C32. The verdict on an artifact is the strictest any rule asks for: deny for a denied license or a
  finding above the maximal severity, otherwise quarantine for a finding above the quarantine threshold
  or a package younger than the minimum, otherwise allow; an artifact without a known publication date or
  license is not held back for it. There is always a reason.
\<close>

theorem policy_verdict:
  "vDecision (rules_Evaluate r a now) =
     (if (lSPDXID (aLicense a) \<noteq> [] \<and> lSPDXID (aLicense a) \<in> set (rsDeniedLicenses r)) \<or>
         (Findings (aScan a) \<noteq> [] \<and>
            (rsMaxSeverity r < SeverityUnknown \<or> (\<exists>f \<in> set (Findings (aScan a)). rsMaxSeverity r < fSeverity f)))
      then DecisionDeny
      else if (Findings (aScan a) \<noteq> [] \<and>
            (rsQuarantineSeverity r < SeverityUnknown \<or> (\<exists>f \<in> set (Findings (aScan a)). rsQuarantineSeverity r < fSeverity f))) \<or>
         (aPublishedAt a \<noteq> 0 \<and> 0 < sint (rsMinPackageAge r) \<and> now - aPublishedAt a < sint (rsMinPackageAge r))
      then DecisionQuarantine else DecisionAllow) \<and>
   vReasons (rules_Evaluate r a now) \<noteq> []"
proof -
  have l: "(case evaluateLicense r a of Some (d, _) \<Rightarrow> d | None \<Rightarrow> DecisionAllow) =
      (if lSPDXID (aLicense a) \<noteq> [] \<and> lSPDXID (aLicense a) \<in> set (rsDeniedLicenses r) then DecisionDeny else DecisionAllow)"
    by (simp add: evaluateLicense_def Normalized_def)
  have v: "fst (evaluateVulnerabilities r a) =
      (if Findings (aScan a) = [] then DecisionAllow
       else if rsMaxSeverity r < SeverityUnknown \<or> (\<exists>f \<in> set (Findings (aScan a)). rsMaxSeverity r < fSeverity f) then DecisionDeny
       else if rsQuarantineSeverity r < SeverityUnknown \<or> (\<exists>f \<in> set (Findings (aScan a)). rsQuarantineSeverity r < fSeverity f)
       then DecisionQuarantine else DecisionAllow)"
    by (simp add: evaluateVulnerabilities_def Let_def Vulnerable_def MaxSeverity_gt)
  have g: "(case evaluateAge r a now of Some (d, _) \<Rightarrow> d | None \<Rightarrow> DecisionAllow) =
      (if aPublishedAt a \<noteq> 0 \<and> 0 < sint (rsMinPackageAge r) \<and> now - aPublishedAt a < sint (rsMinPackageAge r)
       then DecisionQuarantine else DecisionAllow)"
    by (cases "0 < sint (rsMinPackageAge r)") (simp_all add: evaluateAge_def Let_def IsZero_def le64_def young_iff)
  have "vReasons (rules_Evaluate r a now) \<noteq> []"
    by (auto simp: rules_Evaluate_def Let_def verdict_merge_def split: option.split prod.split)
  then show ?thesis unfolding rules_decision l v g strictest_decision by (intro conjI refl)
qed

section \<open>What the engine records\<close>

fun engine_run :: "(instant \<times> Artifact) list \<Rightarrow> Engine \<Rightarrow> Verdict list \<times> Engine" where
  "engine_run [] e = ([], e)"
| "engine_run ((now, a) # calls) e =
     (case engine_Evaluate now a e of (v, e') \<Rightarrow> case engine_run calls e' of (vs, e'') \<Rightarrow> (v # vs, e''))"

lemma findWaiver_Some:
  "(\<exists>w. findWaiver ws a now = Some w) \<longleftrightarrow> (\<exists>w \<in> set ws. waiver_matches w a now)"
  by (induction ws) auto

text \<open>The entry of one call and the verdict it goes with.\<close>

definition faithful_entry :: "Engine \<Rightarrow> instant \<Rightarrow> Artifact \<Rightarrow> Verdict \<Rightarrow> AuditEntry \<Rightarrow> bool" where
  "faithful_entry e now a v x \<longleftrightarrow>
     (let rv = rules_Evaluate (enRules e) a now
      in (auTime x, auEcosystem x, auName x, auVersion x) = (now, aEcosystem a, aName a, aVersion a) \<and>
         auDecision x = vDecision v \<and> auReasons x = vReasons v \<and>
         (auWaived x \<longleftrightarrow> vDecision rv \<noteq> DecisionAllow \<and> (\<exists>w \<in> set (enWaivers e). waiver_matches w a now)) \<and>
         vDecision v = (if auWaived x then DecisionAllow else vDecision rv) \<and>
         (\<exists>more. vReasons v = vReasons rv @ more))"

lemma engine_Evaluate_entry:
  assumes "engine_Evaluate now a e = (v, e')" and "enAudit e = Some log"
  shows "enRules e' = enRules e \<and> enWaivers e' = enWaivers e \<and>
    (\<exists>x. enAudit e' = Some (Record x log) \<and> faithful_entry e now a v x)"
proof -
  let ?waived = "vDecision (rules_Evaluate (enRules e) a now) \<noteq> DecisionAllow \<and> findWaiver (enWaivers e) a now \<noteq> None"
  let ?x = "\<lparr>auTime = now, auEcosystem = aEcosystem a, auName = aName a, auVersion = aVersion a,
    auDecision = vDecision v, auReasons = vReasons v, auWaived = ?waived\<rparr>"
  from assms have "e' = e\<lparr>enAudit := Some (Record ?x log)\<rparr>" and
    "vDecision v = (if ?waived then DecisionAllow else vDecision (rules_Evaluate (enRules e) a now))" and
    "\<exists>more. vReasons v = vReasons (rules_Evaluate (enRules e) a now) @ more"
    by (auto simp: engine_Evaluate_def Let_def split: if_splits option.splits)
  then show ?thesis using findWaiver_Some [of "enWaivers e" a now]
    by (intro conjI exI [of _ ?x]) (simp_all add: faithful_entry_def Let_def)
qed

lemma engine_run_log:
  assumes "engine_run calls e = (vs, e')" and "enAudit e = Some log"
  shows "length vs = length calls \<and> (\<exists>new. enAudit e' = Some \<lparr>alEntries = alEntries log @ new\<rparr> \<and> length new = length calls \<and>
    (\<forall>i < length calls. faithful_entry e (fst (calls ! i)) (snd (calls ! i)) (vs ! i) (new ! i)))"
  using assms
proof (induction calls arbitrary: e vs log)
  case Nil
  then show ?case by auto
next
  case (Cons c calls)
  obtain now a where c: "c = (now, a)" by (cases c)
  from Cons.prems(1) obtain v e1 ws where ev: "engine_Evaluate now a e = (v, e1)" and run: "engine_run calls e1 = (ws, e')" and vs: "vs = v # ws"
    by (auto simp: c split: prod.splits)
  from engine_Evaluate_entry [OF ev Cons.prems(2)] obtain x where same: "enRules e1 = enRules e" "enWaivers e1 = enWaivers e"
    and x: "enAudit e1 = Some (Record x log)" "faithful_entry e now a v x" by blast
  from same have f: "faithful_entry e1 = faithful_entry e" by (intro ext) (simp add: faithful_entry_def)
  from Cons.IH [OF run x(1)] obtain new where "length ws = length calls" "length new = length calls"
    and "enAudit e' = Some \<lparr>alEntries = alEntries (Record x log) @ new\<rparr>"
    and "\<forall>i < length calls. faithful_entry e (fst (calls ! i)) (snd (calls ! i)) (ws ! i) (new ! i)"
    unfolding f by blast
  with x(2) show ?case
    by (intro conjI exI [of _ "x # new"]) (auto simp: vs c Record_def nth_Cons split: nat.split)
qed

text \<open>
  C31. The audit log is complete and truthful: after any sequence of evaluations it holds, after what it
  held before, one entry per call in order, with the decision and the reasons the caller got. A call
  is marked waived exactly when the rules did not allow the artifact and an unexpired waiver for the package
  and version exists; only then is the rules' decision overridden, and their reasons stay.
\<close>

theorem engine_audit_complete:
  assumes "engine_run calls e = (vs, e')" and "enAudit e = Some log"
  shows "\<exists>log' new. enAudit e' = Some log' \<and> Entries log' = Entries log @ new \<and>
    length new = length calls \<and> length vs = length calls \<and>
    (\<forall>i < length calls. case calls ! i of (now, a) \<Rightarrow>
       let rv = rules_Evaluate (enRules e) a now; v = vs ! i; x = new ! i
       in (auTime x, auEcosystem x, auName x, auVersion x) = (now, aEcosystem a, aName a, aVersion a) \<and>
          auDecision x = vDecision v \<and> auReasons x = vReasons v \<and>
          (auWaived x \<longleftrightarrow> vDecision rv \<noteq> DecisionAllow \<and>
             (\<exists>w \<in> set (enWaivers e). wEcosystem w = aEcosystem a \<and> wName w = aName a \<and> wVersion w \<in> {[], aVersion a} \<and>
                (wExpiresAt w = 0 \<or> now \<le> wExpiresAt w))) \<and>
          vDecision v = (if auWaived x then DecisionAllow else vDecision rv) \<and>
          (\<exists>more. vReasons v = vReasons rv @ more))"
proof -
  have w: "waiver_matches w a now \<longleftrightarrow> wEcosystem w = aEcosystem a \<and> wName w = aName a \<and> wVersion w \<in> {[], aVersion a} \<and>
      (wExpiresAt w = 0 \<or> now \<le> wExpiresAt w)" for w a now
    by (auto simp: waiver_matches_def IsZero_def)
  from engine_run_log [OF assms] obtain new where l: "length vs = length calls" "length new = length calls"
    and a: "enAudit e' = Some \<lparr>alEntries = alEntries log @ new\<rparr>"
    and i: "\<forall>i < length calls. faithful_entry e (fst (calls ! i)) (snd (calls ! i)) (vs ! i) (new ! i)" by blast
  show ?thesis
    by (intro exI [of _ "\<lparr>alEntries = alEntries log @ new\<rparr>"] exI [of _ new] conjI a l)
       (use i in \<open>simp_all add: faithful_entry_def w Entries_def Let_def case_prod_beta\<close>)
qed

definition witness_artifact :: Artifact where
  "witness_artifact = \<lparr>aEcosystem = ''npm'', aName = ''left-pad'', aVersion = ''1.3.0'', aPublishedAt = 5,
     aScan = \<lparr>Findings = [\<lparr>fID = ''GHSA-1'', fSummary = [], fSeverity = SeverityHigh\<rparr>]\<rparr>, aLicense = noLicense\<rparr>"

definition witness_engine :: Engine where
  "witness_engine = \<lparr>enRules = \<lparr>rsMaxSeverity = SeverityMedium, rsQuarantineSeverity = SeverityLow, rsDeniedLicenses = [], rsMinPackageAge = 0\<rparr>,
     enWaivers = [\<lparr>wEcosystem = ''npm'', wName = ''left-pad'', wVersion = [], wReason = ''reviewed'', wApprovedBy = ''me'', wExpiresAt = 100\<rparr>],
     enAudit = Some NewAuditLog\<rparr>"

theorem engine_audit_complete_witness:
  "\<exists>log' x y. enAudit (snd (engine_run [(50, witness_artifact), (101, witness_artifact)] witness_engine)) = Some log' \<and> Entries log' = [x, y] \<and>
     auDecision x = DecisionAllow \<and> auWaived x \<and> auDecision y = DecisionDeny \<and> \<not> auWaived y"
proof -
  let ?c = "[(50, witness_artifact), (101, witness_artifact)]"
  have r: "engine_run ?c witness_engine = (fst (engine_run ?c witness_engine), snd (engine_run ?c witness_engine))" by simp
  have a: "enAudit witness_engine = Some NewAuditLog" by (simp add: witness_engine_def)
  have d: "vDecision (rules_Evaluate (enRules witness_engine) witness_artifact 50) = DecisionDeny"
    "vDecision (rules_Evaluate (enRules witness_engine) witness_artifact 101) = DecisionDeny"
    by (simp_all add: rules_decision evaluateVulnerabilities_def Vulnerable_def MaxSeverity_gt severity_defs witness_artifact_def witness_engine_def)
  obtain log' new where l: "enAudit (snd (engine_run ?c witness_engine)) = Some log'" "Entries log' = Entries NewAuditLog @ new" "length new = 2"
    and e: "\<forall>i < 2. case ?c ! i of (now, a) \<Rightarrow>
       let rv = rules_Evaluate (enRules witness_engine) a now; v = fst (engine_run ?c witness_engine) ! i; x = new ! i
       in (auTime x, auEcosystem x, auName x, auVersion x) = (now, aEcosystem a, aName a, aVersion a) \<and>
          auDecision x = vDecision v \<and> auReasons x = vReasons v \<and>
          (auWaived x \<longleftrightarrow> vDecision rv \<noteq> DecisionAllow \<and>
             (\<exists>w \<in> set (enWaivers witness_engine). wEcosystem w = aEcosystem a \<and> wName w = aName a \<and> wVersion w \<in> {[], aVersion a} \<and>
                (wExpiresAt w = 0 \<or> now \<le> wExpiresAt w))) \<and>
          vDecision v = (if auWaived x then DecisionAllow else vDecision rv) \<and>
          (\<exists>more. vReasons v = vReasons rv @ more)"
    using engine_audit_complete [OF r a] by auto
  have w: "aEcosystem witness_artifact = ''npm''" "aName witness_artifact = ''left-pad''" "aVersion witness_artifact = ''1.3.0''"
    "enWaivers witness_engine = [\<lparr>wEcosystem = ''npm'', wName = ''left-pad'', wVersion = [], wReason = ''reviewed'', wApprovedBy = ''me'', wExpiresAt = 100\<rparr>]"
    by (simp_all add: witness_artifact_def witness_engine_def)
  from l(3) obtain x y where n: "new = [x, y]" by (auto simp: numeral_2_eq_2 length_Suc_conv)
  from e [rule_format, of 0] e [rule_format, of 1] have "auDecision x = DecisionAllow \<and> auWaived x" "auDecision y = DecisionDeny \<and> \<not> auWaived y"
    by (simp_all add: n d w Let_def del: engine_run.simps)
  with l n show ?thesis by (auto simp: NewAuditLog_def Entries_def)
qed

end
