(* ===== verification/Replication.thy ===== *)
theory Replication
  imports Go_Decode Objectstore
begin

text \<open>
  Replication from another instance (\<^verbatim>\<open>internal/replication\<close>): the client that reads the remote catalog and
  its objects over HTTP (\<^verbatim>\<open>client.go\<close>) and the puller that stores and registers them (\<^verbatim>\<open>puller.go\<close>).
  The HTTP transport is a parameter; the way \<^verbatim>\<open>http.Client\<close> follows redirects on top of it is modelled.
\<close>

section \<open>HTTP\<close>

record redirect_response = http_response +
  rdLocation :: string

text \<open>
  A transport: whether a request can be built for a URL, the answer to a GET of a URL with the given
  \<^verbatim>\<open>X-API-Key\<close> header (empty if absent), and the URL a \<^verbatim>\<open>Location\<close> names relative to another.
\<close>

record 'w transport =
  tNewRequest :: "string \<Rightarrow> go_error option"
  tRoundTrip :: "string \<Rightarrow> string \<Rightarrow> 'w \<Rightarrow> (go_error + redirect_response) \<times> 'w"
  tResolve :: "string \<Rightarrow> string \<Rightarrow> go_error + string"

definition isRedirect :: "int \<Rightarrow> bool" where
  "isRedirect status \<longleftrightarrow> status \<in> {301, 302, 303, 307, 308}"

text \<open>
  \<^verbatim>\<open>http.Client.Do\<close> with its default policy: a redirect with a \<^verbatim>\<open>Location\<close> is followed with the headers of
  the first request, of which only credentials of HTTP itself are dropped for another host; after \<open>n\<close>
  more redirects it gives up.
\<close>

fun client_Do :: "'w transport \<Rightarrow> nat \<Rightarrow> string \<Rightarrow> string \<Rightarrow> 'w \<Rightarrow> (go_error + redirect_response) \<times> 'w" where
  "client_Do t n url key w =
     (case tRoundTrip t url key w of
        (Inl err, w') \<Rightarrow> (Inl err, w')
      | (Inr resp, w') \<Rightarrow>
          if isRedirect (hrStatus resp) \<and> rdLocation resp \<noteq> []
          then (case tResolve t url (rdLocation resp) of
                  Inl err \<Rightarrow> (Inl err, w')
                | Inr url' \<Rightarrow>
                    (case n of
                       0 \<Rightarrow> (Inl (ErrorsNew ''stopped after 10 redirects''), w')
                     | Suc m \<Rightarrow> client_Do t m url' key w'))
          else (Inr resp, w'))"

definition defaultRedirects :: nat where "defaultRedirects = 9"

section \<open>client.go\<close>

record 'w HTTPClient =
  hcBaseURL :: string
  hcAPIKey :: string
  hcClient :: "'w transport"
  hcMaxBodyBytes :: int64

definition maxBodyBytes :: "'w HTTPClient \<Rightarrow> int64" where
  "maxBodyBytes c = (if lt64 0 (hcMaxBodyBytes c) then hcMaxBodyBytes c else defaultMaxBodyBytes)"

definition readBody :: "redirect_response \<Rightarrow> int64 \<Rightarrow> go_error + bytes" where
  "readBody resp maxBytes =
     (case readLimited (maxBytes + 1) (http_response.truncate resp) of
        Inl err \<Rightarrow> Inl err
      | Inr body \<Rightarrow> if lt64 maxBytes (len64 body) then Inl (ErrorsNew ''response exceeds byte limit'') else Inr body)"

definition decodeListResponse :: "bytes \<Rightarrow> Entry list option" where
  "decodeListResponse body =
     map_option (\<lambda>(files, n). take n files)
       (Option.bind (json_Parse body)
          (decodeObject (\<lambda>files k v. if keyIs k ''files'' then decodeSlice decodeEntryInto zeroEntry files v else Some files) ([], 0)))"

definition FetchManifest :: "'w HTTPClient \<Rightarrow> 'w \<Rightarrow> (go_error + Entry list) \<times> 'w" where
  "FetchManifest c w =
     (let manifestURL = TrimRight (hcBaseURL c) (CHR ''/'') @ ''/list''
      in case tNewRequest (hcClient c) manifestURL of
           Some err \<Rightarrow> (Inl (Errorf ''replication: build manifest request for %q: %w'' [manifestURL] [err]), w)
         | None \<Rightarrow>
             (case client_Do (hcClient c) defaultRedirects manifestURL (hcAPIKey c) w of
                (Inl err, w') \<Rightarrow> (Inl (Errorf ''replication: fetch manifest from %q: %w'' [manifestURL] [err]), w')
              | (Inr resp, w') \<Rightarrow>
                  (if hrStatus resp \<noteq> 200
                   then Inl (Errorf ''replication: fetch manifest from %q: unexpected status %d'' [manifestURL, FormatInt (hrStatus resp)] [])
                   else (case readBody resp (maxBodyBytes c) of
                           Inl err \<Rightarrow> Inl (Errorf ''replication: read manifest from %q: %w'' [manifestURL] [err])
                         | Inr body \<Rightarrow>
                             (case decodeListResponse body of
                                None \<Rightarrow> Inl (Errorf ''replication: decode manifest from %q: %w'' [manifestURL] [err_json])
                              | Some files \<Rightarrow> Inr files)), w')))"

definition fetchRedirectTarget :: "'w HTTPClient \<Rightarrow> string \<Rightarrow> 'w \<Rightarrow> (go_error + bytes) \<times> 'w" where
  "fetchRedirectTarget c location w =
     (case tNewRequest (hcClient c) location of
        Some err \<Rightarrow> (Inl (Errorf ''replication: build redirect-target request for %q: %w'' [location] [err]), w)
      | None \<Rightarrow>
          (case client_Do (hcClient c) defaultRedirects location [] w of
             (Inl err, w') \<Rightarrow> (Inl (Errorf ''replication: fetch redirect target %q: %w'' [location] [err]), w')
           | (Inr resp, w') \<Rightarrow>
               (if hrStatus resp \<noteq> 200
                then Inl (Errorf ''replication: fetch redirect target %q: unexpected status %d'' [location, FormatInt (hrStatus resp)] [])
                else readBody resp (maxBodyBytes c), w')))"

text \<open>The first request of \<^verbatim>\<open>FetchObject\<close> does not follow redirects.\<close>

definition FetchObject :: "'w HTTPClient \<Rightarrow> Entry \<Rightarrow> 'w \<Rightarrow> (go_error + bytes) \<times> 'w" where
  "FetchObject c entry w =
     (let initialURL = TrimRight (hcBaseURL c) (CHR ''/'') @ eRoute entry
      in case tNewRequest (hcClient c) initialURL of
           Some err \<Rightarrow> (Inl (Errorf ''replication: build object request for %q: %w'' [initialURL] [err]), w)
         | None \<Rightarrow>
             (case tRoundTrip (hcClient c) initialURL (hcAPIKey c) w of
                (Inl err, w') \<Rightarrow> (Inl (Errorf ''replication: fetch object %q: %w'' [initialURL] [err]), w')
              | (Inr resp, w') \<Rightarrow>
                  if isRedirect (hrStatus resp)
                  then (if rdLocation resp = []
                        then (Inl (Errorf ''replication: fetch object %q: redirect status %d with no Location header''
                                [initialURL, FormatInt (hrStatus resp)] []), w')
                        else fetchRedirectTarget c (rdLocation resp) w')
                  else if hrStatus resp = 200 then (readBody resp (maxBodyBytes c), w')
                  else (Inl (Errorf ''replication: fetch object %q: unexpected status %d'' [initialURL, FormatInt (hrStatus resp)] []), w')))"

section \<open>puller.go\<close>

record 'w Client =
  clFetchManifest :: "'w \<Rightarrow> (go_error + Entry list) \<times> 'w"
  clFetchObject :: "Entry \<Rightarrow> 'w \<Rightarrow> (go_error + bytes) \<times> 'w"

definition http_Client :: "'w HTTPClient \<Rightarrow> 'w Client" where
  "http_Client c = \<lparr>clFetchManifest = FetchManifest c, clFetchObject = FetchObject c\<rparr>"

record 'w Puller =
  plRemote :: "'w Client"
  plLocalStore :: "'w Store"
  plTargetBucket :: string

record PullResult =
  prPulled :: "string list"
  prSkipped :: "string list"
  prFailed :: "string list"
  prErrors :: "go_error list"

definition zeroPull :: PullResult where
  "zeroPull = \<lparr>prPulled = [], prSkipped = [], prFailed = [], prErrors = []\<rparr>"

definition alreadyUpToDate :: "'w Puller \<Rightarrow> Catalog \<Rightarrow> Entry \<Rightarrow> bool" where
  "alreadyUpToDate p cat remote \<longleftrightarrow>
     (if eLastModified remote = [] then False
      else (case Lookup cat (eKey remote) of
              None \<Rightarrow> False
            | Some loc \<Rightarrow> eBucket loc = plTargetBucket p \<and> eLastModified loc \<ge> eLastModified remote))"

definition pullFailed :: "string \<Rightarrow> Entry \<Rightarrow> go_error \<Rightarrow> PullResult \<Rightarrow> PullResult" where
  "pullFailed what e err res =
     res\<lparr>prFailed := prFailed res @ [eKey e], prErrors := prErrors res @ [Errorf what [eKey e] [err]]\<rparr>"

text \<open>One turn of the loop over the remote entries, and the loop.\<close>

definition pullOne :: "'w Puller \<Rightarrow> Entry \<Rightarrow> PullResult \<Rightarrow> Catalog \<Rightarrow> 'w \<Rightarrow> PullResult \<times> Catalog \<times> 'w" where
  "pullOne p e res cat w =
     (if alreadyUpToDate p cat e then (res\<lparr>prSkipped := prSkipped res @ [eKey e]\<rparr>, cat, w)
      else (case clFetchObject (plRemote p) e w of
              (Inl err, w') \<Rightarrow> (pullFailed ''replication: fetch %q: %w'' e err res, cat, w')
            | (Inr body, w') \<Rightarrow>
                (case sPutObject (plLocalStore p) (plTargetBucket p) (eKey e) body [] w' of
                   (Some err, w'') \<Rightarrow> (pullFailed ''replication: store %q: %w'' e err res, cat, w'')
                 | (None, w'') \<Rightarrow>
                     (res\<lparr>prPulled := prPulled res @ [eKey e]\<rparr>,
                      Register (eKey e) (plTargetBucket p) (len64 body) (eLastModified e) cat, w''))))"

fun pullAll :: "'w Puller \<Rightarrow> Entry list \<Rightarrow> PullResult \<Rightarrow> Catalog \<Rightarrow> 'w \<Rightarrow> PullResult \<times> Catalog \<times> 'w" where
  "pullAll p [] res cat w = (res, cat, w)"
| "pullAll p (e # es) res cat w = (case pullOne p e res cat w of (res', cat', w') \<Rightarrow> pullAll p es res' cat' w')"

definition Pull :: "'w Puller \<Rightarrow> Catalog \<Rightarrow> 'w \<Rightarrow> (go_error + PullResult) \<times> Catalog \<times> 'w" where
  "Pull p cat w =
     (case clFetchManifest (plRemote p) w of
        (Inl err, w') \<Rightarrow> (Inl (Errorf ''replication: fetch remote manifest: %w'' [] [err]), cat, w')
      | (Inr remoteEntries, w') \<Rightarrow>
          (case pullAll p remoteEntries zeroPull cat w' of (res, cat', w'') \<Rightarrow> (Inr res, cat', w'')))"

declare client_Do.simps [simp del]

section \<open>Pulling\<close>

lemma pullOne_cases:
  assumes "pullOne p e res cat w = (res', cat', w')"
  obtains (skip) "alreadyUpToDate p cat e" "res' = res\<lparr>prSkipped := prSkipped res @ [eKey e]\<rparr>" "cat' = cat" "w' = w"
    | (fail) what err where "\<not> alreadyUpToDate p cat e" "res' = pullFailed what e err res" "cat' = cat"
    | (ok) body w1 where "\<not> alreadyUpToDate p cat e" "res' = res\<lparr>prPulled := prPulled res @ [eKey e]\<rparr>"
        "clFetchObject (plRemote p) e w = (Inr body, w1)"
        "sPutObject (plLocalStore p) (plTargetBucket p) (eKey e) body [] w1 = (None, w')"
        "cat' = Register (eKey e) (plTargetBucket p) (len64 body) (eLastModified e) cat"
  using assms by (auto simp: pullOne_def split: if_splits prod.splits sum.splits option.splits)

lemma pullAll_counts:
  assumes "pullAll p es res cat w = (res', cat', w')"
  shows "mset (prPulled res' @ prSkipped res' @ prFailed res') = mset (prPulled res @ prSkipped res @ prFailed res) + mset (map eKey es) \<and>
    length (prErrors res') + length (prFailed res) = length (prErrors res) + length (prFailed res')"
  using assms
proof (induction es arbitrary: res cat w)
  case (Cons e es)
  then obtain r c v where one: "pullOne p e res cat w = (r, c, v)" and "pullAll p es r c v = (res', cat', w')"
    by (auto split: prod.splits)
  from Cons.IH [OF this(2)] one show ?case by (elim pullOne_cases) (auto simp: pullFailed_def)
qed simp

text \<open>What pulling does to the catalog: ownership only improves, and only for the pulled keys.\<close>

definition pulls :: "string \<Rightarrow> string list \<Rightarrow> Catalog \<Rightarrow> Catalog \<Rightarrow> bool" where
  "pulls target keys cat cat' \<longleftrightarrow>
     priority cat' = priority cat \<and>
     (\<forall>k. k \<notin> set keys \<longrightarrow> Lookup cat' k = Lookup cat k) \<and>
     (\<forall>k e. Lookup cat k = Some e \<and> priority cat (eBucket e) < priority cat target \<longrightarrow> Lookup cat' k = Some e) \<and>
     (\<forall>k \<in> set keys. \<exists>e'. Lookup cat' k = Some e' \<and> priority cat (eBucket e') \<le> priority cat target)"

lemma pulls_refl [simp]: "pulls target [] cat cat"
  by (auto simp: pulls_def)

lemma pulls_trans:
  assumes "pulls t ks a b" and "pulls t ls b c" shows "pulls t (ks @ ls) a c"
proof -
  have "\<exists>e'. Lookup c k = Some e' \<and> priority a (eBucket e') \<le> priority a t" if "k \<in> set ks \<union> set ls" for k
    using that assms by (cases "k \<in> set ls") (simp_all add: pulls_def)
  with assms show ?thesis by (simp add: pulls_def)
qed

lemma pulls_Register: "pulls target [k] cat (Register k target n l cat)"
  by (auto simp: pulls_def not_le cat.lookup_register)

lemma pullAll_pulls:
  assumes "pullAll p es res cat w = (res', cat', w')"
  shows "\<exists>new. prPulled res' = prPulled res @ new \<and> set new \<subseteq> eKey ` set es \<and> pulls (plTargetBucket p) new cat cat'"
  using assms
proof (induction es arbitrary: res cat w)
  case (Cons e es)
  then obtain r c v where one: "pullOne p e res cat w = (r, c, v)" and rest: "pullAll p es r c v = (res', cat', w')"
    by (auto split: prod.splits)
  from one obtain n1 where "prPulled r = prPulled res @ n1" "set n1 \<subseteq> {eKey e}" "pulls (plTargetBucket p) n1 cat c"
    by (elim pullOne_cases) (auto simp: pullFailed_def pulls_Register)
  moreover from Cons.IH [OF rest] obtain n2 where "prPulled res' = prPulled r @ n2" "set n2 \<subseteq> eKey ` set es" "pulls (plTargetBucket p) n2 c cat'"
    by blast
  ultimately show ?case by (intro exI [of _ "n1 @ n2"]) (auto intro: pulls_trans)
qed simp

text \<open>
  C27. A pull accounts for every remote entry: pulled, skipped and failed keys are together exactly the keys
  of the remote manifest, each failure with its error. It changes the catalog for pulled keys only,
  gives each of them an owner that ranks no worse than the target bucket, and never takes a key from
  a bucket that ranks better.
\<close>

theorem Pull_accounts:
  assumes "Pull p cat w = (Inr res, cat', w')" and "clFetchManifest (plRemote p) w = (Inr es, w1)"
  shows "mset (prPulled res @ prSkipped res @ prFailed res) = mset (map eKey es) \<and> length (prErrors res) = length (prFailed res) \<and>
    (\<forall>k. k \<notin> set (prPulled res) \<longrightarrow> Lookup cat' k = Lookup cat k) \<and>
    (\<forall>k \<in> set (prPulled res). \<exists>e. Lookup cat' k = Some e \<and> priority cat (eBucket e) \<le> priority cat (plTargetBucket p)) \<and>
    (\<forall>k e. Lookup cat k = Some e \<and> priority cat (eBucket e) < priority cat (plTargetBucket p) \<longrightarrow> Lookup cat' k = Some e)"
proof -
  from assms have run: "pullAll p es zeroPull cat w1 = (res, cat', w')" by (auto simp: Pull_def split: prod.splits)
  from pullAll_counts [OF run] have "mset (prPulled res @ prSkipped res @ prFailed res) = mset (map eKey es)"
    and "length (prErrors res) = length (prFailed res)" by (simp_all add: zeroPull_def)
  moreover from pullAll_pulls [OF run] have "pulls (plTargetBucket p) (prPulled res) cat cat'" by (simp add: zeroPull_def)
  ultimately show ?thesis unfolding pulls_def by (intro conjI; blast)
qed

lemma pullAll_failed_mono:
  "pullAll p es res cat w = (res', cat', w') \<Longrightarrow> \<exists>more. prFailed res' = prFailed res @ more"
proof (induction es arbitrary: res cat w)
  case (Cons e es)
  then obtain r c v where one: "pullOne p e res cat w = (r, c, v)" and "pullAll p es r c v = (res', cat', w')"
    by (auto split: prod.splits)
  from Cons.IH [OF this(2)] one show ?case by (elim pullOne_cases) (auto simp: pullFailed_def)
qed simp

lemma pullAll_up_to_date:
  assumes "pullAll p es res cat w = (res', cat', w')" and "prFailed res' = prFailed res" and "distinct (map eKey es)"
    and "\<forall>e \<in> set es. eLastModified e \<noteq> []"
    and "\<forall>e \<in> set es. \<forall>x. Lookup cat (eKey e) = Some x \<longrightarrow> priority cat (plTargetBucket p) \<le> priority cat (eBucket x)"
  shows "\<forall>e \<in> set es. alreadyUpToDate p cat' e"
  using assms
proof (induction es arbitrary: res cat w)
  case (Cons e es)
  let ?t = "plTargetBucket p"
  from Cons.prems(1) obtain r c v where one: "pullOne p e res cat w = (r, c, v)" and rest: "pullAll p es r c v = (res', cat', w')"
    by (auto split: prod.splits)
  from pullAll_pulls [OF rest] obtain new where new: "set new \<subseteq> eKey ` set es" "pulls ?t new c cat'" by blast
  from pullAll_failed_mono [OF rest] Cons.prems(2) have len: "length (prFailed r) \<le> length (prFailed res)" by auto
  with one have f: "prFailed r = prFailed res" by (cases rule: pullOne_cases) (simp_all add: pullFailed_def)
  have up: "alreadyUpToDate p c e" using one
  proof (cases rule: pullOne_cases)
    case skip
    then show ?thesis by simp
  next
    case fail
    with len show ?thesis by (simp add: pullFailed_def)
  next
    case ok
    with Cons.prems(4,5) show ?thesis by (auto simp: alreadyUpToDate_def cat.lookup_register)
  qed
  have other: "Lookup c (eKey x) = Lookup cat (eKey x)" if "x \<in> set es" for x
  proof -
    from Cons.prems(3) have "eKey e \<notin> eKey ` set es" by simp
    with that have "eKey x \<noteq> eKey e" by (metis imageI)
    with one show ?thesis by (cases rule: pullOne_cases) (auto simp: cat.lookup_register)
  qed
  have "priority c = priority cat" using one by (cases rule: pullOne_cases) simp_all
  with other Cons.prems Cons.IH [OF rest] f have "\<forall>x \<in> set es. alreadyUpToDate p cat' x" by simp
  moreover have "eKey e \<notin> set new" using new(1) Cons.prems(3) by auto
  with new(2) have "Lookup cat' (eKey e) = Lookup c (eKey e)" by (simp add: pulls_def)
  with up have "alreadyUpToDate p cat' e" by (simp only: alreadyUpToDate_def)
  ultimately show ?case by simp
qed simp

lemma pullAll_all_skipped:
  "\<forall>e \<in> set es. alreadyUpToDate p cat e \<Longrightarrow> pullAll p es res cat w = (res\<lparr>prSkipped := prSkipped res @ map eKey es\<rparr>, cat, w)"
  by (induction es arbitrary: res) (simp_all add: pullOne_def)


section \<open>The API key\<close>

text \<open>A transport that also records every request: its URL and the key sent with it.\<close>

definition recording :: "'w transport \<Rightarrow> ((string \<times> string) list \<times> 'w) transport" where
  "recording t = \<lparr>tNewRequest = tNewRequest t,
     tRoundTrip = (\<lambda>url key (log, w). case tRoundTrip t url key w of (r, w') \<Rightarrow> (r, (log @ [(url, key)], w'))),
     tResolve = tResolve t\<rparr>"

lemma client_Do_recording:
  "client_Do (recording t) n url key (log, w) = (r, (log', w')) \<Longrightarrow> \<exists>urls. log' = log @ map (\<lambda>u. (u, key)) urls"
proof (induction n arbitrary: url log w)
  case 0
  then show ?case
    by (auto simp: client_Do.simps [of _ 0] recording_def split: prod.splits sum.splits if_splits intro: exI [of _ "[_]"])
next
  case (Suc n)
  obtain x v where rt: "tRoundTrip t url key w = (x, v)" by fastforce
  consider "(r, (log', w')) = (r, (log @ [(url, key)], v))"
    | url' where "client_Do (recording t) n url' key (log @ [(url, key)], v) = (r, (log', w'))"
    using Suc.prems rt by (auto simp: client_Do.simps [of _ "Suc n"] recording_def split: sum.splits if_splits)
  then show ?case
  proof cases
    case 1
    then show ?thesis by (auto intro: exI [of _ "[url]"])
  next
    case 2
    from Suc.IH [OF this] obtain urls where "log' = (log @ [(url, key)]) @ map (\<lambda>u. (u, key)) urls" by blast
    then show ?thesis by (auto intro: exI [of _ "url # urls"])
  qed
qed

text \<open>
  C30. Downloading an object sends the API key to the remote instance only: the first request of
  \<^verbatim>\<open>FetchObject\<close> carries it to the object's route below the configured base URL, and no request after a
  redirect, to whatever host it leads, carries a key.
\<close>

theorem FetchObject_key_private:
  assumes "hcClient c = recording t" and "FetchObject c entry (log, w) = (r, (log', w'))"
  shows "\<exists>urls. log' = log @ map (\<lambda>u. (u, [])) urls \<or>
    log' = log @ (TrimRight (hcBaseURL c) (CHR ''/'') @ eRoute entry, hcAPIKey c) # map (\<lambda>u. (u, [])) urls"
proof -
  let ?u = "TrimRight (hcBaseURL c) (CHR ''/'') @ eRoute entry"
  have target: "\<exists>urls. l' = l @ map (\<lambda>u. (u, [])) urls" if "fetchRedirectTarget c loc (l, v) = (x, (l', v'))" for loc l v x l' v'
    using that client_Do_recording [of t defaultRedirects loc "[]" l v _ l' v'] assms(1)
    by (auto simp: fetchRedirectTarget_def split: option.splits prod.splits sum.splits intro: exI [of _ "[]"])
  obtain x v where rt: "tRoundTrip t ?u (hcAPIKey c) w = (x, v)" by fastforce
  consider "log' = log" | "log' = log @ [(?u, hcAPIKey c)]"
    | loc where "fetchRedirectTarget c loc (log @ [(?u, hcAPIKey c)], v) = (r, (log', w'))"
    using assms rt by (auto simp: FetchObject_def Let_def recording_def split: option.splits sum.splits if_splits)
  then show ?thesis
  proof cases
    case 1
    then show ?thesis by (intro exI [of _ "[]"]) simp
  next
    case 2
    then show ?thesis by (intro exI [of _ "[]"]) simp
  next
    case 3
    from target [OF this] obtain urls where "log' = (log @ [(?u, hcAPIKey c)]) @ map (\<lambda>u. (u, [])) urls" by blast
    then show ?thesis by (intro exI [of _ urls]) simp
  qed
qed

text \<open>
  Reading the manifest follows redirects with the key: when the remote instance redirects \<^verbatim>\<open>/list\<close> to
  another host, that host receives it.
\<close>

definition redirecting :: "unit transport" where
  "redirecting = \<lparr>tNewRequest = (\<lambda>u. None),
     tRoundTrip = (\<lambda>u k w. (Inr \<lparr>hrStatus = (if u = ''http://peer/list'' then 302 else 200), hrBody = ''{}'', hrBodyErr = None,
        hrContentType = [], rdLocation = (if u = ''http://peer/list'' then ''http://evil/'' else [])\<rparr>, w)),
     tResolve = (\<lambda>base loc. Inr loc)\<rparr>"

text \<open>
  The key of a replication client does leave the remote instance when the manifest is read:
  \<^verbatim>\<open>FetchManifest\<close> follows a redirect of \<^verbatim>\<open>/list\<close> with the \<^verbatim>\<open>X-API-Key\<close> header, so a peer that redirects to another
  host hands it the key.
\<close>

theorem manifest_redirect_sends_key:
  "FetchManifest \<lparr>hcBaseURL = ''http://peer/'', hcAPIKey = ''secret'', hcClient = recording redirecting, hcMaxBodyBytes = 0\<rparr> ([], ()) =
     (Inr [], ([(''http://peer/list'', ''secret''), (''http://evil/'', ''secret'')], ()))"
  by code_simp

section \<open>Witnesses\<close>

definition witness_remote :: "fakeStore Client" where
  "witness_remote = \<lparr>clFetchManifest = (\<lambda>w. (Inr [\<lparr>eKey = ''a'', eBucket = ''pub'', eBucketType = ''public'', eRoute = ''/pub/a'', eSize = 1, eLastModified = ''2024''\<rparr>,
       \<lparr>eKey = ''b'', eBucket = ''pub'', eBucketType = ''public'', eRoute = ''/pub/b'', eSize = 1, eLastModified = ''2023''\<rparr>], w)),
     clFetchObject = (\<lambda>e w. (Inr (eKey e), w))\<rparr>"

definition witness_puller :: "fakeStore Puller" where
  "witness_puller = \<lparr>plRemote = witness_remote, plLocalStore = fake_Store, plTargetBucket = ''mirror''\<rparr>"

definition witness_mirror :: Catalog where
  "witness_mirror = Register ''b'' ''own'' 1 [] (catalog_New (\<lambda>b. if b = ''own'' then 0 else 1) (\<lambda>b. ''private''))"

theorem Pull_accounts_witness:
  "\<exists>res cat' w'. Pull witness_puller witness_mirror [] = (Inr res, cat', w') \<and> mset (prPulled res @ prSkipped res @ prFailed res) = {#''a'', ''b''#} \<and>
     Lookup cat' ''b'' = Lookup witness_mirror ''b''"
proof -
  let ?es = "fst (clFetchManifest witness_remote [])"
  obtain x cat' w' where pull: "Pull witness_puller witness_mirror [] = (x, cat', w')" by (metis prod_cases3)
  obtain es where es: "clFetchManifest (plRemote witness_puller) [] = (Inr es, [])" and k: "map eKey es = [''a'', ''b'']"
    by (simp add: witness_puller_def witness_remote_def)
  from pull es obtain res where x: "x = Inr res" by (auto simp: Pull_def split: prod.splits)
  have b: "map_option (\<lambda>e. priority witness_mirror (eBucket e) < priority witness_mirror (plTargetBucket witness_puller)) (Lookup witness_mirror ''b'') = Some True"
    by code_simp
  from Pull_accounts [OF pull [unfolded x] es] b pull x k show ?thesis by auto
qed


theorem FetchObject_key_private_witness:
  "\<exists>log'. snd (FetchObject \<lparr>hcBaseURL = ''http://peer'', hcAPIKey = ''secret'', hcClient = recording redirecting, hcMaxBodyBytes = 0\<rparr>
       (zeroEntry\<lparr>eRoute := ''/list''\<rparr>) ([], ())) = (log', ()) \<and> (''http://evil/'', ''secret'') \<notin> set log'"
proof -
  let ?c = "\<lparr>hcBaseURL = ''http://peer'', hcAPIKey = ''secret'', hcClient = recording redirecting, hcMaxBodyBytes = 0\<rparr>"
  let ?e = "zeroEntry\<lparr>eRoute := ''/list''\<rparr>"
  obtain r log' where f: "FetchObject ?c ?e ([], ()) = (r, (log', ()))"
    by (cases "FetchObject ?c ?e ([], ())") auto
  have "TrimRight ''http://peer'' (CHR ''/'') @ ''/list'' = ''http://peer/list''" by code_simp
  with FetchObject_key_private [OF _ f, of redirecting] have "(''http://evil/'', ''secret'') \<notin> set log'" by auto
  with f show ?thesis by (intro exI [of _ log'] conjI) simp_all
qed

end
