(* ===== verification/Replica.thy ===== *)
theory Replica
  imports Replication
begin

text \<open>
  What a pull (\<^verbatim>\<open>internal/replication/puller.go\<close>) leaves in the local store: the interface between the puller, its
  client and its store as a locale, the lemmas under it, and its interpretation for the HTTP client and
  the in-memory store.
\<close>

section \<open>The interface\<close>

text \<open>
  A store that keeps its contract, and a client whose calls leave it alone and that never hands on
  anything but the content of the remote object, however often it fails.
\<close>

locale replica = object_store st inv obj
  for st :: "'w Store" and inv :: "'w \<Rightarrow> bool" and obj :: "'w \<Rightarrow> string \<Rightarrow> string \<Rightarrow> (bytes \<times> string) option" +
  fixes cl :: "'w Client"
    and content :: "Entry \<Rightarrow> bytes"
  assumes manifest_frame: "inv w \<Longrightarrow> clFetchManifest cl w = (m, w') \<Longrightarrow> obj w' = obj w \<and> inv w'"
    and fetch_frame: "inv w \<Longrightarrow> clFetchObject cl e w = (x, w') \<Longrightarrow> obj w' = obj w \<and> inv w'"
    and fetch_ok: "inv w \<Longrightarrow> clFetchObject cl e w = (Inr b, w') \<Longrightarrow> b = content e"
begin

lemma pullOne_stored:
  assumes "pullOne p e res cat w = (res', cat', w')" and "plRemote p = cl" and "plLocalStore p = st" and "inv w"
  shows "inv w' \<and> (\<forall>b k. b \<noteq> plTargetBucket p \<or> k \<noteq> eKey e \<longrightarrow> obj w' b k = obj w b k) \<and>
    (prPulled res' = prPulled res @ [eKey e] \<and> prSkipped res' = prSkipped res \<and>
       (\<exists>l. obj w' (plTargetBucket p) (eKey e) = Some (content e, l)) \<and>
       cat' = Register (eKey e) (plTargetBucket p) (len64 (content e)) (eLastModified e) cat \<or>
     prPulled res' = prPulled res \<and> prSkipped res' = prSkipped res @ [eKey e] \<and> w' = w \<and> cat' = cat \<or>
     prPulled res' = prPulled res \<and> prSkipped res' = prSkipped res \<and> cat' = cat)"
proof (cases "alreadyUpToDate p cat e")
  case True
  with assms show ?thesis by (auto simp: pullOne_def)
next
  case False
  obtain x w1 where x: "clFetchObject cl e w = (x, w1)" by fastforce
  have f: "obj w1 = obj w" "inv w1" using fetch_frame [OF assms(4) x] by auto
  show ?thesis
  proof (cases x)
    case (Inl err)
    with assms x f False show ?thesis by (auto simp: pullOne_def pullFailed_def)
  next
    case (Inr body)
    with fetch_ok [OF assms(4)] x have b: "body = content e" by simp
    obtain y w2 where y: "sPutObject st (plTargetBucket p) (eKey e) body [] w1 = (y, w2)" by fastforce
    from put_frame [OF f(2) y] f have g: "inv w2" "\<forall>b' k'. b' \<noteq> plTargetBucket p \<or> k' \<noteq> eKey e \<longrightarrow> obj w2 b' k' = obj w b' k'" by auto
    show ?thesis
    proof (cases y)
      case None
      with assms x Inr y g b False put_ok [OF f(2), of "plTargetBucket p" "eKey e" body "[]" w2] show ?thesis
        by (auto simp: pullOne_def)
    qed (use assms x Inr y g False in \<open>auto simp: pullOne_def pullFailed_def\<close>)
  qed
qed

text \<open>
  The keys \<open>new\<close> are stored with the content of their remote object and registered with its size, unless
  an owner ranks better; the keys \<open>same\<close> are left alone, like everything outside the manifest.
\<close>

definition stored_by_pull :: "string \<Rightarrow> Entry list \<Rightarrow> string list \<Rightarrow> string list \<Rightarrow> Catalog \<Rightarrow> 'w \<Rightarrow> Catalog \<Rightarrow> 'w \<Rightarrow> bool" where
  "stored_by_pull t es new same cat w cat' w' \<longleftrightarrow>
     (\<forall>b k. b \<noteq> t \<or> k \<notin> eKey ` set es \<longrightarrow> obj w' b k = obj w b k) \<and>
     (\<forall>e \<in> set es. eKey e \<in> set same \<longrightarrow> obj w' t (eKey e) = obj w t (eKey e)) \<and>
     (\<forall>e \<in> set es. eKey e \<in> set new \<longrightarrow>
        (\<exists>l. obj w' t (eKey e) = Some (content e, l)) \<and>
        ((\<forall>x. Lookup cat (eKey e) = Some x \<longrightarrow> priority cat t \<le> priority cat (eBucket x)) \<longrightarrow>
           Lookup cat' (eKey e) = Some (entryOf cat (eKey e) t (len64 (content e)) (eLastModified e))))"

lemma pullAll_stored:
  assumes "pullAll p es res cat w = (res', cat', w')" and "plRemote p = cl" and "plLocalStore p = st" and "inv w" and "distinct (map eKey es)"
  shows "inv w' \<and> (\<exists>new same. prPulled res' = prPulled res @ new \<and> prSkipped res' = prSkipped res @ same \<and>
    set new \<subseteq> eKey ` set es \<and> set same \<subseteq> eKey ` set es \<and> stored_by_pull (plTargetBucket p) es new same cat w cat' w')"
  using assms
proof (induction es arbitrary: res cat w)
  case Nil
  then show ?case by (simp add: stored_by_pull_def)
next
  case (Cons e es)
  let ?t = "plTargetBucket p"
  from Cons.prems(1) obtain r c v where one: "pullOne p e res cat w = (r, c, v)" and rest: "pullAll p es r c v = (res', cat', w')"
    by (auto split: prod.splits)
  note o = pullOne_stored [OF one Cons.prems(2-4)]
  from Cons.IH [OF rest Cons.prems(2,3)] o Cons.prems(5) obtain new same where ih: "inv w'" "prPulled res' = prPulled r @ new"
      "prSkipped res' = prSkipped r @ same" "set new \<subseteq> eKey ` set es" "set same \<subseteq> eKey ` set es" "stored_by_pull ?t es new same c v cat' w'"
    by auto
  from pullAll_pulls [OF rest] ih(2) have "pulls ?t new c cat'" by auto
  then have keep: "Lookup cat' k = Lookup c k" if "k \<notin> set new" for k using that by (simp add: pulls_def)
  have e: "eKey e \<notin> eKey ` set es" "eKey e \<notin> set new" "eKey e \<notin> set same" using Cons.prems(5) ih(4,5) by auto
  have w': "obj w' ?t (eKey e) = obj v ?t (eKey e)" "\<forall>b k. b \<noteq> ?t \<or> k \<notin> eKey ` set (e # es) \<longrightarrow> obj w' b k = obj w b k"
    using ih(6) o e(1) by (auto simp: stored_by_pull_def)
  have ne: "eKey x \<noteq> eKey e" if "x \<in> set es" for x using that e(1) by (metis imageI)
  then have v: "obj v ?t (eKey x) = obj w ?t (eKey x)" "Lookup c (eKey x) = Lookup cat (eKey x)" if "x \<in> set es" for x
    using o that by (auto simp: cat.lookup_register)
  have pr: "priority c = priority cat" "bucketType c = bucketType cat" using o by auto
  then have en: "entryOf c = entryOf cat" by (simp add: entryOf_def fun_eq_iff)
  define n1 where "n1 = (if prPulled r = prPulled res then [] else [eKey e])"
  define s1 where "s1 = (if prSkipped r = prSkipped res then [] else [eKey e])"
  have "prPulled res' = prPulled res @ n1 @ new" "prSkipped res' = prSkipped res @ s1 @ same"
    using o ih(2,3) by (auto simp: n1_def s1_def)
  moreover have "stored_by_pull ?t (e # es) (n1 @ new) (s1 @ same) cat w cat' w'"
    using ih(6) o w' e ne v keep [OF e(2)] by (auto simp: stored_by_pull_def n1_def s1_def pr en cat.lookup_register)
  moreover have "set (n1 @ new) \<subseteq> eKey ` set (e # es)" "set (s1 @ same) \<subseteq> eKey ` set (e # es)"
    using ih(4,5) by (auto simp: n1_def s1_def)
  ultimately show ?case using ih(1) by blast
qed

lemma Pull_stored:
  assumes "Pull p cat w = (Inr res, cat', w')" and "plRemote p = cl" and "plLocalStore p = st" and "inv w"
    and "clFetchManifest cl w = (Inr es, w1)" and "distinct (map eKey es)"
  shows "inv w' \<and> stored_by_pull (plTargetBucket p) es (prPulled res) (prSkipped res) cat w cat' w'"
proof -
  have f: "obj w1 = obj w" "inv w1" using manifest_frame [OF assms(4,5)] by auto
  have "pullAll p es zeroPull cat w1 = (res, cat', w')" using assms(1,2,5) by (auto simp: Pull_def split: prod.splits)
  from pullAll_stored [OF this assms(2,3) f(2) assms(6)] f(1) show ?thesis by (auto simp: zeroPull_def stored_by_pull_def)
qed

end

section \<open>The HTTP client and the in-memory store\<close>

text \<open>A remote instance that does not change during a pull: its answer depends on the URL and the key.\<close>

definition steady :: "(string \<Rightarrow> string \<Rightarrow> go_error + redirect_response) \<Rightarrow> 'w transport" where
  "steady answer = \<lparr>tNewRequest = (\<lambda>u. None), tRoundTrip = (\<lambda>u key w. (answer u key, w)), tResolve = (\<lambda>base loc. Inr loc)\<rparr>"

definition remoteContent :: "'w HTTPClient \<Rightarrow> 'w \<Rightarrow> Entry \<Rightarrow> bytes" where
  "remoteContent c w e = (case fst (FetchObject c e w) of Inr body \<Rightarrow> body | Inl _ \<Rightarrow> [])"

lemma client_Do_steady: "client_Do (steady answer) n u key w = (fst (client_Do (steady answer) n u key w0), w)"
proof (induction n arbitrary: u)
  case 0
  show ?case by (simp add: client_Do.simps [of _ 0] steady_def split: sum.split)
next
  case (Suc n)
  have "client_Do (steady answer) n x key w = (fst (client_Do (steady answer) n x key w0), w)" for x by (rule Suc.IH)
  then show ?case by (simp add: client_Do.simps [of _ "Suc n"] steady_def split: sum.split)
qed

lemma FetchManifest_steady:
  assumes "hcClient c = steady answer" and "FetchManifest c w = (m, w')" shows "w' = w"
proof -
  let ?u = "TrimRight (hcBaseURL c) (CHR ''/'') @ ''/list''"
  have "client_Do (hcClient c) defaultRedirects ?u (hcAPIKey c) w = (fst (client_Do (hcClient c) defaultRedirects ?u (hcAPIKey c) w), w)"
    unfolding assms(1) by (rule client_Do_steady)
  then obtain x where "client_Do (hcClient c) defaultRedirects ?u (hcAPIKey c) w = (x, w)" by blast
  with assms(2) show ?thesis by (auto simp: FetchManifest_def Let_def split: option.splits sum.splits)
qed

lemma FetchObject_steady:
  assumes "hcClient c = steady answer" shows "FetchObject c e w = (fst (FetchObject c e w0), w)"
proof -
  have "fetchRedirectTarget c loc w = (fst (fetchRedirectTarget c loc w0), w)" for loc
    using client_Do_steady [of answer defaultRedirects loc "[]" w w0] assms
    by (simp add: fetchRedirectTarget_def split: option.split prod.split sum.split)
  with assms show ?thesis
    by (simp add: FetchObject_def Let_def split: option.split) (simp add: steady_def split: sum.split)
qed

interpretation http: replica fake_Store fake_inv fake_obj "http_Client (c\<lparr>hcClient := steady answer\<rparr>)"
  "remoteContent (c\<lparr>hcClient := steady answer\<rparr>) []" for c answer
proof unfold_locales
  let ?c = "c\<lparr>hcClient := steady answer\<rparr>"
  have s: "hcClient ?c = steady answer" by simp
  show "fake_obj w' = fake_obj w \<and> fake_inv w'" if "fake_inv w" "clFetchManifest (http_Client ?c) w = (m, w')" for w m w'
    using that FetchManifest_steady [OF s, of w m w'] by (simp add: http_Client_def)
  show "fake_obj w' = fake_obj w \<and> fake_inv w'" if "fake_inv w" "clFetchObject (http_Client ?c) e w = (x, w')" for w e x w'
    using that FetchObject_steady [OF s, of e w w] by (simp add: http_Client_def)
  show "b = remoteContent ?c [] e" if "fake_inv w" "clFetchObject (http_Client ?c) e w = (Inr b, w')" for w e b w'
    using that FetchObject_steady [OF s, of e w "[]"] by (simp add: http_Client_def remoteContent_def)
qed

text \<open>
  C28. What a pull stores: on a store that keeps its contract and with a client that hands on nothing but
  remote content, every pulled key holds the content of its remote object in the target bucket and,
  unless an owner ranks better, the catalog has it there with the size of that content and the remote
  timestamp; a skipped key keeps its object, and so does every key outside the manifest and every
  other bucket.
\<close>

theorem Pull_stores:
  assumes "replica st ok obj cl content" and "ok w"
    and "Pull \<lparr>plRemote = cl, plLocalStore = st, plTargetBucket = t\<rparr> cat w = (Inr res, cat', w')"
    and "clFetchManifest cl w = (Inr es, w1)" and "distinct (map eKey es)"
  shows "(\<forall>e \<in> set es. eKey e \<in> set (prPulled res) \<longrightarrow>
       (\<exists>l. obj w' t (eKey e) = Some (content e, l)) \<and>
       ((\<forall>x. Lookup cat (eKey e) = Some x \<longrightarrow> priority cat t \<le> priority cat (eBucket x)) \<longrightarrow>
          (\<exists>x. Lookup cat' (eKey e) = Some x \<and> eBucket x = t \<and> eSize x = len64 (content e) \<and> eLastModified x = eLastModified e))) \<and>
    (\<forall>e \<in> set es. eKey e \<in> set (prSkipped res) \<longrightarrow> obj w' t (eKey e) = obj w t (eKey e)) \<and>
    (\<forall>b k. b \<noteq> t \<or> k \<notin> eKey ` set es \<longrightarrow> obj w' b k = obj w b k)"
proof -
  from replica.Pull_stored [OF assms(1,3) _ _ assms(2,4,5)]
  have "replica.stored_by_pull obj content t es (prPulled res) (prSkipped res) cat w cat' w'" by simp
  then show ?thesis unfolding replica.stored_by_pull_def [OF assms(1)] by (auto simp: entryOf_def)
qed

text \<open>A remote instance with one object.\<close>

definition witness_peer :: "fakeStore HTTPClient" where
  "witness_peer = \<lparr>hcBaseURL = ''http://peer/'', hcAPIKey = ''key'', hcClient = steady (\<lambda>u key.
     Inr \<lparr>hrStatus = 200,
          hrBody = (if u = ''http://peer/list''
                    then json_Print (JObj [(''files'', JArr [encodeEntry \<lparr>eKey = ''a'', eBucket = ''pub'', eBucketType = ''public'',
                           eRoute = ''/pub/a'', eSize = 5, eLastModified = ''2024''\<rparr>])])
                    else ''hello''),
          hrBodyErr = None, hrContentType = [], rdLocation = []\<rparr>), hcMaxBodyBytes = 0\<rparr>"

theorem Pull_stores_witness:
  "\<exists>res cat' w'. Pull \<lparr>plRemote = http_Client witness_peer, plLocalStore = fake_Store, plTargetBucket = ''mirror''\<rparr> witness_mirror [] = (Inr res, cat', w') \<and>
     prPulled res = [''a''] \<and> map_option fst (fake_obj w' ''mirror'' ''a'') = Some ''hello''"
proof -
  let ?p = "\<lparr>plRemote = http_Client witness_peer, plLocalStore = fake_Store, plTargetBucket = ''mirror''\<rparr>"
  have r: "replica fake_Store fake_inv fake_obj (http_Client witness_peer) (remoteContent witness_peer [])"
    using http.replica_axioms [where c = witness_peer] unfolding witness_peer_def by simp
  have i: "fake_inv []" by (simp add: fake_inv_def)
  let ?e = "\<lparr>eKey = ''a'', eBucket = ''pub'', eBucketType = ''public'', eRoute = ''/pub/a'', eSize = 5, eLastModified = ''2024''\<rparr>"
  have m: "clFetchManifest (http_Client witness_peer) [] = (Inr [?e], [])" by code_simp
  obtain x cat' w' where pull: "Pull ?p witness_mirror [] = (x, cat', w')" by (metis prod_cases3)
  have "map_prod (\<lambda>x. case x of Inr res \<Rightarrow> prPulled res | Inl _ \<Rightarrow> []) (\<lambda>_. ()) (Pull ?p witness_mirror []) = ([''a''], ())" by code_simp
  with pull obtain res where x: "x = Inr res" "prPulled res = [''a'']" by (cases x) auto
  have c: "remoteContent witness_peer [] ?e = ''hello''" by code_simp
  from Pull_stores [OF r i pull [unfolded x(1)] m] x(2) c pull x(1) show ?thesis by auto
qed

end
