(* ===== verification/Webhook.thy ===== *)
theory Webhook
  imports Go_Json
begin

text \<open>
  Webhooks: the registry of subscribers (\<^verbatim>\<open>internal/webhook/webhook.go\<close>) and the dispatcher that delivers an
  event to them with retries (\<^verbatim>\<open>dispatcher.go\<close>). Each delivery runs in its own goroutine; a step relation
  interleaves them at the turns of their retry loops. The HTTP client, the clock, the context, sleeping,
  HMAC-SHA256 and the text of a timestamp are parameters.
\<close>

section \<open>webhook.go\<close>

type_synonym EventType = string

definition EventUpload :: EventType where "EventUpload = ''upload''"
definition EventRelocate :: EventType where "EventRelocate = ''relocate''"
definition EventPolicyDecision :: EventType where "EventPolicyDecision = ''policy_decision''"
definition EventScanComplete :: EventType where "EventScanComplete = ''scan_complete''"

text \<open>The payload may be absent; the inner \<open>Inl\<close> is a value \<^verbatim>\<open>encoding/json\<close> cannot encode.\<close>

record Event =
  evType :: EventType
  evTimestamp :: instant
  evBucket :: string
  evKey :: string
  evPayload :: "(go_error + json) option"

record Subscriber =
  suURL :: string
  suEvents :: "EventType list"
  suSecret :: string

fun wantsAny :: "EventType list \<Rightarrow> EventType \<Rightarrow> bool" where
  "wantsAny [] eventType = False"
| "wantsAny (e # es) eventType = (if e = eventType then True else wantsAny es eventType)"

definition wants :: "Subscriber \<Rightarrow> EventType \<Rightarrow> bool" where
  "wants s eventType = (if length (suEvents s) = 0 then True else wantsAny (suEvents s) eventType)"

record SubscriberRegistry =
  rgSubscribers :: "Subscriber list"

definition webhook_NewRegistry :: SubscriberRegistry where
  "webhook_NewRegistry = \<lparr>rgSubscribers = []\<rparr>"

definition webhook_Register :: "Subscriber \<Rightarrow> SubscriberRegistry \<Rightarrow> SubscriberRegistry" where
  "webhook_Register sub r = r\<lparr>rgSubscribers := rgSubscribers r @ [sub]\<rparr>"

definition Subscribers :: "SubscriberRegistry \<Rightarrow> EventType \<Rightarrow> Subscriber list" where
  "Subscribers r eventType = filter (\<lambda>sub. wants sub eventType) (rgSubscribers r)"

section \<open>dispatcher.go\<close>

definition defaultMaxAttempts :: int where "defaultMaxAttempts = 3"
definition defaultBackoffBase :: duration where "defaultBackoffBase = 1000000000"

record DeliveryStatus =
  dsSubscriberURL :: string
  dsAttempt :: int
  dsStatusCode :: int
  dsErr :: "go_error option"
  dsDelivered :: bool
  dsTimestamp :: instant

text \<open>
  What the dispatcher calls: building a POST request, sending a body with an optional signature, the
  clock, whether the context is done, sleeping, HMAC-SHA256 in hexadecimal and \<^verbatim>\<open>time.Time\<close> as JSON.
\<close>

record 'w webhook_env =
  weNewPost :: "string \<Rightarrow> go_error option"
  weDo :: "string \<Rightarrow> string option \<Rightarrow> bytes \<Rightarrow> 'w \<Rightarrow> (go_error + int) \<times> 'w"
  weNow :: "'w \<Rightarrow> instant"
  weDone :: "'w \<Rightarrow> bool"
  weSleep :: "duration \<Rightarrow> 'w \<Rightarrow> 'w"
  weHMAC :: "string \<Rightarrow> bytes \<Rightarrow> string"
  weTimeJSON :: "instant \<Rightarrow> go_error + json"

record Dispatcher =
  diMaxAttempts :: int
  diBackoffBase :: duration

definition maxAttempts :: "Dispatcher \<Rightarrow> int" where
  "maxAttempts d = (if diMaxAttempts d > 0 then diMaxAttempts d else defaultMaxAttempts)"

definition backoffBase :: "Dispatcher \<Rightarrow> duration" where
  "backoffBase d = (if lt64 0 (diBackoffBase d) then diBackoffBase d else defaultBackoffBase)"

definition signature :: "'w webhook_env \<Rightarrow> Subscriber \<Rightarrow> bytes \<Rightarrow> string option" where
  "signature env sub body = (if suSecret sub \<noteq> [] then Some (weHMAC env (suSecret sub) body) else None)"

definition attempt :: "'w webhook_env \<Rightarrow> Subscriber \<Rightarrow> bytes \<Rightarrow> int \<Rightarrow> 'w \<Rightarrow> DeliveryStatus \<times> 'w" where
  "attempt env sub body attemptNum w =
     (let st = \<lparr>dsSubscriberURL = suURL sub, dsAttempt = attemptNum, dsStatusCode = 0, dsErr = None, dsDelivered = False, dsTimestamp = weNow env w\<rparr>
      in case weNewPost env (suURL sub) of
           Some err \<Rightarrow> (st\<lparr>dsErr := Some (Errorf ''webhook: build request: %w'' [] [err])\<rparr>, w)
         | None \<Rightarrow>
             (case weDo env (suURL sub) (signature env sub body) body w of
                (Inl err, w') \<Rightarrow> (st\<lparr>dsErr := Some (Errorf ''webhook: deliver: %w'' [] [err])\<rparr>, w')
              | (Inr statusCode, w') \<Rightarrow>
                  let delivered = (statusCode \<ge> 200 \<and> statusCode < 300)
                  in (st\<lparr>dsStatusCode := statusCode, dsDelivered := delivered,
                        dsErr := (if delivered then None else Some (Errorf ''webhook: deliver: unexpected status %d'' [FormatInt statusCode] []))\<rparr>, w')))"

text \<open>A running \<^verbatim>\<open>deliver\<close>: the locals of its loop before a turn; a turn ends it or goes on.\<close>

record delivery =
  dySub :: Subscriber
  dyAttempt :: int
  dyBackoff :: duration
  dyStatuses :: "DeliveryStatus list"

definition startDelivery :: "Dispatcher \<Rightarrow> Subscriber \<Rightarrow> delivery" where
  "startDelivery d sub = \<lparr>dySub = sub, dyAttempt = 1, dyBackoff = backoffBase d, dyStatuses = []\<rparr>"

definition deliverTurn :: "'w webhook_env \<Rightarrow> Dispatcher \<Rightarrow> bytes \<Rightarrow> delivery \<Rightarrow> 'w \<Rightarrow> (DeliveryStatus list + delivery) \<times> 'w" where
  "deliverTurn env d body dy w =
     (case attempt env (dySub dy) body (dyAttempt dy) w of (status, w1) \<Rightarrow>
        let statuses = dyStatuses dy @ [status]
        in if dsDelivered status then (Inl statuses, w1)
           else if dyAttempt dy = maxAttempts d then (Inl statuses, w1)
           else if weDone env w1 then (Inl statuses, w1)
           else (Inr (dy\<lparr>dyAttempt := dyAttempt dy + 1, dyBackoff := dyBackoff dy * 2, dyStatuses := statuses\<rparr>),
                 weSleep env (dyBackoff dy) w1))"

text \<open>\<^verbatim>\<open>deliver\<close> alone; its loop has at most \<^verbatim>\<open>maxAttempts\<close> turns.\<close>

fun deliverLoop :: "nat \<Rightarrow> 'w webhook_env \<Rightarrow> Dispatcher \<Rightarrow> bytes \<Rightarrow> delivery \<Rightarrow> 'w \<Rightarrow> DeliveryStatus list \<times> 'w" where
  "deliverLoop 0 env d body dy w = (dyStatuses dy, w)"
| "deliverLoop (Suc n) env d body dy w =
     (case deliverTurn env d body dy w of
        (Inl statuses, w') \<Rightarrow> (statuses, w')
      | (Inr dy', w') \<Rightarrow> deliverLoop n env d body dy' w')"

definition deliver :: "'w webhook_env \<Rightarrow> Dispatcher \<Rightarrow> Subscriber \<Rightarrow> bytes \<Rightarrow> 'w \<Rightarrow> DeliveryStatus list \<times> 'w" where
  "deliver env d sub body w = deliverLoop (nat (maxAttempts d)) env d body (startDelivery d sub) w"

text \<open>\<^verbatim>\<open>json.Marshal(event)\<close>.\<close>

definition marshalEvent :: "'w webhook_env \<Rightarrow> Event \<Rightarrow> go_error + bytes" where
  "marshalEvent env ev =
     (case weTimeJSON env (evTimestamp ev) of
        Inl err \<Rightarrow> Inl err
      | Inr ts \<Rightarrow>
          (let pre = [(''type'', JStr (evType ev)), (''timestamp'', ts)] @
                 (if evBucket ev = [] then [] else [(''bucket'', JStr (evBucket ev))]) @
                 (if evKey ev = [] then [] else [(''key'', JStr (evKey ev))])
           in case evPayload ev of
                None \<Rightarrow> Inr (json_Print (JObj pre))
              | Some (Inl err) \<Rightarrow> Inl err
              | Some (Inr v) \<Rightarrow> Inr (json_Print (JObj (pre @ [(''payload'', v)])))))"

text \<open>
  The goroutines of \<^verbatim>\<open>Fire\<close>: those still running, what the finished ones sent on the channel, and the
  world they share. A step is one turn of any of them.
\<close>

type_synonym 'w firing = "delivery list \<times> DeliveryStatus list list \<times> 'w"

inductive fire_step :: "'w webhook_env \<Rightarrow> Dispatcher \<Rightarrow> bytes \<Rightarrow> 'w firing \<Rightarrow> 'w firing \<Rightarrow> bool" for env d body where
  go_on: "deliverTurn env d body dy w = (Inr dy', w') \<Longrightarrow> fire_step env d body (xs @ dy # ys, results, w) (xs @ dy' # ys, results, w')"
| finish: "deliverTurn env d body dy w = (Inl statuses, w') \<Longrightarrow> fire_step env d body (xs @ dy # ys, results, w) (xs @ ys, results @ [statuses], w')"

inductive_cases fire_step_elim: "fire_step env d body (ds, results, w) s"

text \<open>The outcomes of \<^verbatim>\<open>Fire\<close>: every status list it may return, with the world it leaves.\<close>

definition Fire :: "'w webhook_env \<Rightarrow> Dispatcher \<Rightarrow> SubscriberRegistry \<Rightarrow> Event \<Rightarrow> 'w \<Rightarrow> DeliveryStatus list \<Rightarrow> 'w \<Rightarrow> bool" where
  "Fire env d registry event w all w' \<longleftrightarrow>
     (let subs = Subscribers registry (evType event)
      in if length subs = 0 then all = [] \<and> w' = w
         else (case marshalEvent env event of
                 Inl err \<Rightarrow>
                   all = map (\<lambda>sub. \<lparr>dsSubscriberURL = suURL sub, dsAttempt = 1, dsStatusCode = 0,
                     dsErr = Some (Errorf ''webhook: encode event: %w'' [] [err]), dsDelivered = False, dsTimestamp = weNow env w\<rparr>) subs \<and> w' = w
               | Inr body \<Rightarrow>
                   \<exists>results. (fire_step env d body)\<^sup>*\<^sup>* (map (startDelivery d) subs, [], w) ([], results, w') \<and> all = concat results))"

section \<open>Delivery histories\<close>

text \<open>The attempts so far, and those of a finished delivery.\<close>

definition attempts_ok :: "Subscriber \<Rightarrow> DeliveryStatus list \<Rightarrow> bool" where
  "attempts_ok sub sts \<longleftrightarrow> (\<forall>i < length sts. dsSubscriberURL (sts ! i) = suURL sub \<and> dsAttempt (sts ! i) = int i + 1)"

definition running_ok :: "Dispatcher \<Rightarrow> delivery \<Rightarrow> bool" where
  "running_ok d dy \<longleftrightarrow> attempts_ok (dySub dy) (dyStatuses dy) \<and> (\<forall>s \<in> set (dyStatuses dy). \<not> dsDelivered s) \<and>
     dyAttempt dy = int (length (dyStatuses dy)) + 1 \<and> dyAttempt dy \<le> maxAttempts d"

definition history_ok :: "'w webhook_env \<Rightarrow> Dispatcher \<Rightarrow> Subscriber \<Rightarrow> DeliveryStatus list \<Rightarrow> bool" where
  "history_ok env d sub sts \<longleftrightarrow> attempts_ok sub sts \<and> sts \<noteq> [] \<and> int (length sts) \<le> maxAttempts d \<and>
     (\<forall>s \<in> set (butlast sts). \<not> dsDelivered s) \<and>
     (dsDelivered (last sts) \<or> int (length sts) = maxAttempts d \<or> (\<exists>v. weDone env v))"

lemma maxAttempts_pos: "1 \<le> maxAttempts d"
  by (simp add: maxAttempts_def defaultMaxAttempts_def)

lemma attempt_fields:
  "attempt env sub body n w = (s, w') \<Longrightarrow> dsSubscriberURL s = suURL sub \<and> dsAttempt s = n"
  by (auto simp: attempt_def Let_def split: option.splits prod.splits sum.splits)

lemma running_start: "running_ok d (startDelivery d sub)"
  using maxAttempts_pos [of d] by (simp add: running_ok_def startDelivery_def attempts_ok_def)

lemma attempts_snoc:
  "attempts_ok sub sts \<Longrightarrow> dsSubscriberURL s = suURL sub \<Longrightarrow> dsAttempt s = int (length sts) + 1 \<Longrightarrow> attempts_ok sub (sts @ [s])"
  by (auto simp: attempts_ok_def nth_append less_Suc_eq)

lemma turn_ok:
  assumes "running_ok d dy" and "deliverTurn env d body dy w = (r, w')"
  shows "case r of Inl sts \<Rightarrow> history_ok env d (dySub dy) sts
    | Inr dy' \<Rightarrow> running_ok d dy' \<and> dySub dy' = dySub dy \<and> dyAttempt dy' = dyAttempt dy + 1"
proof -
  obtain s w1 where a: "attempt env (dySub dy) body (dyAttempt dy) w = (s, w1)" by fastforce
  note f = attempt_fields [OF a]
  have "attempts_ok (dySub dy) (dyStatuses dy @ [s])"
    using assms(1) f by (intro attempts_snoc) (simp_all add: running_ok_def)
  moreover have t: "deliverTurn env d body dy w =
      (if dsDelivered s \<or> dyAttempt dy = maxAttempts d \<or> weDone env w1 then (Inl (dyStatuses dy @ [s]), w1)
       else (Inr (dy\<lparr>dyAttempt := dyAttempt dy + 1, dyBackoff := dyBackoff dy * 2, dyStatuses := dyStatuses dy @ [s]\<rparr>),
             weSleep env (dyBackoff dy) w1))"
    by (simp add: deliverTurn_def a Let_def)
  ultimately show ?thesis
  proof (cases "dsDelivered s \<or> dyAttempt dy = maxAttempts d \<or> weDone env w1")
    case True
    with t assms(2) have "r = Inl (dyStatuses dy @ [s])" by simp
    with True assms(1) \<open>attempts_ok _ _\<close> show ?thesis by (auto simp: running_ok_def history_ok_def)
  next
    case False
    with t assms(2) have "r = Inr (dy\<lparr>dyAttempt := dyAttempt dy + 1, dyBackoff := dyBackoff dy * 2, dyStatuses := dyStatuses dy @ [s]\<rparr>)" by simp
    with False assms(1) \<open>attempts_ok _ _\<close> show ?thesis by (auto simp: running_ok_def)
  qed
qed

section \<open>All schedules\<close>

definition firing_ok :: "'w webhook_env \<Rightarrow> Dispatcher \<Rightarrow> Subscriber list \<Rightarrow> 'w firing \<Rightarrow> bool" where
  "firing_ok env d subs s \<longleftrightarrow> (case s of (ds, results, w) \<Rightarrow>
     (\<forall>dy \<in> set ds. running_ok d dy) \<and>
     (\<exists>ps. map snd ps = results \<and> mset subs = mset (map dySub ds) + mset (map fst ps) \<and>
        (\<forall>(sub, sts) \<in> set ps. history_ok env d sub sts)))"

definition turnsLeft :: "Dispatcher \<Rightarrow> delivery list \<Rightarrow> nat" where
  "turnsLeft d ds = sum_list (map (\<lambda>dy. nat (maxAttempts d - dyAttempt dy + 1)) ds)"

lemma fire_step_ok:
  assumes "fire_step env d body s t" and "firing_ok env d subs s"
  shows "firing_ok env d subs t \<and> turnsLeft d (fst t) < turnsLeft d (fst s)"
  using assms
proof (induction rule: fire_step.induct)
  case (go_on dy w dy' w' xs ys results)
  then have dy: "running_ok d dy" by (simp add: firing_ok_def)
  from turn_ok [OF this go_on(1)] have "running_ok d dy'" "dySub dy' = dySub dy" "dyAttempt dy' = dyAttempt dy + 1" by simp_all
  moreover from this(3) dy have "nat (maxAttempts d - dyAttempt dy' + 1) < nat (maxAttempts d - dyAttempt dy + 1)"
    by (simp add: running_ok_def)
  ultimately show ?case using go_on(2) by (simp add: firing_ok_def turnsLeft_def)
next
  case (finish dy w statuses w' xs ys results)
  then have dy: "running_ok d dy" by (simp add: firing_ok_def)
  from turn_ok [OF this finish(1)] have h: "history_ok env d (dySub dy) statuses" by simp
  from finish(2) obtain ps where "map snd ps = results" "mset subs = mset (map dySub (xs @ dy # ys)) + mset (map fst ps)"
    "\<forall>(sub, sts) \<in> set ps. history_ok env d sub sts" by (auto simp: firing_ok_def)
  with h have "\<exists>ps. map snd ps = results @ [statuses] \<and> mset subs = mset (map dySub (xs @ ys)) + mset (map fst ps) \<and>
      (\<forall>(sub, sts) \<in> set ps. history_ok env d sub sts)"
    by (intro exI [of _ "ps @ [(dySub dy, statuses)]"]) auto
  moreover from dy have "0 < nat (maxAttempts d - dyAttempt dy + 1)" by (simp add: running_ok_def)
  ultimately show ?case using finish(2) by (simp add: firing_ok_def turnsLeft_def)
qed

lemma firing_start: "firing_ok env d subs (map (startDelivery d) subs, [], w)"
proof -
  have "map dySub (map (startDelivery d) subs) = subs" by (simp add: comp_def startDelivery_def)
  then have "mset subs = mset (map dySub (map (startDelivery d) subs)) + mset (map fst [])" by (simp del: map_map mset_map)
  moreover have "\<forall>dy \<in> set (map (startDelivery d) subs). running_ok d dy" by (simp add: running_start)
  ultimately show ?thesis unfolding firing_ok_def prod.case by (intro conjI exI [of _ "[]"]) simp_all
qed

lemma fire_steps_ok:
  "(fire_step env d body)\<^sup>*\<^sup>* s t \<Longrightarrow> firing_ok env d subs s \<Longrightarrow> firing_ok env d subs t"
  by (induction rule: rtranclp_induct) (auto dest: fire_step_ok)

lemma fire_steps_bound:
  "(fire_step env d body ^^ n) s t \<Longrightarrow> firing_ok env d subs s \<Longrightarrow> firing_ok env d subs t \<and> n + turnsLeft d (fst t) \<le> turnsLeft d (fst s)"
  by (induction n arbitrary: t) (fastforce dest: fire_step_ok)+

lemma fire_progress: "ds \<noteq> [] \<Longrightarrow> \<exists>t. fire_step env d body (ds, results, w) t"
proof -
  assume "ds \<noteq> []"
  then obtain dy ys where ds: "ds = [] @ dy # ys" by (cases ds) auto
  obtain r w' where "deliverTurn env d body dy w = (r, w')" by fastforce
  then show ?thesis unfolding ds by (cases r) (blast intro: fire_step.intros)+
qed

lemma fire_completes:
  "firing_ok env d subs s \<Longrightarrow> \<exists>results w'. (fire_step env d body)\<^sup>*\<^sup>* s ([], results, w')"
proof (induction "turnsLeft d (fst s)" arbitrary: s rule: less_induct)
  case less
  obtain ds results w where s: "s = (ds, results, w)" by (cases s)
  show ?case
  proof (cases "ds = []")
    case False
    from fire_progress [OF this, of env d body results w] obtain t where t: "fire_step env d body s t" unfolding s by (elim exE)
    from fire_step_ok [OF t less.prems] have "turnsLeft d (fst t) < turnsLeft d (fst s)" "firing_ok env d subs t" by simp_all
    from less.hyps [OF this] obtain r w' where "(fire_step env d body)\<^sup>*\<^sup>* t ([], r, w')" by (elim exE)
    with t have "(fire_step env d body)\<^sup>*\<^sup>* s ([], r, w')" by (rule converse_rtranclp_into_rtranclp)
    then show ?thesis by (intro exI)
  qed (use s in auto)
qed

lemma wantsAny_iff: "wantsAny es ev \<longleftrightarrow> ev \<in> set es"
  by (induction es) auto

lemma set_Subscribers:
  "sub \<in> set (Subscribers r ev) \<longleftrightarrow> sub \<in> set (rgSubscribers r) \<and> (suEvents sub = [] \<or> ev \<in> set (suEvents sub))"
  by (simp add: Subscribers_def wants_def wantsAny_iff)

text \<open>A delivery on its own is one schedule: the loop has enough turns to end with a history.\<close>

lemma deliverLoop_history:
  "running_ok d dy \<Longrightarrow> n = nat (maxAttempts d - dyAttempt dy + 1) \<Longrightarrow> deliverLoop n env d body dy w = (sts, w') \<Longrightarrow>
     history_ok env d (dySub dy) sts"
proof (induction n arbitrary: dy w)
  case 0
  then show ?case by (simp add: running_ok_def)
next
  case (Suc n)
  obtain r w1 where r: "deliverTurn env d body dy w = (r, w1)" by fastforce
  note ok = turn_ok [OF Suc.prems(1) r]
  show ?case
  proof (cases r)
    case (Inl x)
    with Suc.prems(3) r ok show ?thesis by simp
  next
    case (Inr dy')
    with Suc.prems(3) r have run: "deliverLoop n env d body dy' w1 = (sts, w')" by simp
    from Inr ok have k: "running_ok d dy'" "dySub dy' = dySub dy" "dyAttempt dy' = dyAttempt dy + 1" by simp_all
    from k Suc.prems(1,2) have "n = nat (maxAttempts d - dyAttempt dy' + 1)" by (simp add: running_ok_def)
    from Suc.IH [OF k(1) this run] k(2) show ?thesis by simp
  qed
qed

lemma deliver_history: "deliver env d sub body w = (sts, w') \<Longrightarrow> history_ok env d sub sts"
  using deliverLoop_history [OF running_start, of _ d sub env body w sts w']
  by (simp add: deliver_def startDelivery_def)

text \<open>
  C33. Whatever the schedule of the goroutines, \<^verbatim>\<open>Fire\<close> returns the complete history of every delivery and
  nothing else: the statuses fall into one block per subscriber that wants the event; a block has
  between one and \<^verbatim>\<open>MaxAttempts\<close> attempts, numbered from 1 and addressed to that subscriber, all but the
  last failed, and it ends before the limit only with a delivery or once the context is done.
\<close>

theorem Fire_history:
  assumes "Fire env d registry event w all w'" and "marshalEvent env event = Inr body"
  shows "\<exists>blocks. all = concat (map snd blocks) \<and>
    mset (map fst blocks) = mset (filter (\<lambda>sub. suEvents sub = [] \<or> evType event \<in> set (suEvents sub)) (rgSubscribers registry)) \<and>
    (\<forall>(sub, sts) \<in> set blocks. sts \<noteq> [] \<and> int (length sts) \<le> maxAttempts d \<and>
       (\<forall>i < length sts. dsSubscriberURL (sts ! i) = suURL sub \<and> dsAttempt (sts ! i) = int i + 1) \<and>
       (\<forall>s \<in> set (butlast sts). \<not> dsDelivered s) \<and>
       (dsDelivered (last sts) \<or> int (length sts) = maxAttempts d \<or> (\<exists>v. weDone env v)))"
proof -
  let ?subs = "Subscribers registry (evType event)"
  have f: "?subs = filter (\<lambda>sub. suEvents sub = [] \<or> evType event \<in> set (suEvents sub)) (rgSubscribers registry)"
    by (auto simp: Subscribers_def wants_def wantsAny_iff intro!: filter_cong)
  have "\<exists>blocks. all = concat (map snd blocks) \<and> mset (map fst blocks) = mset ?subs \<and> (\<forall>(sub, sts) \<in> set blocks. history_ok env d sub sts)"
  proof (cases "?subs = []")
    case True
    with assms(1) show ?thesis by (intro exI [of _ "[]"]) (simp add: Fire_def)
  next
    case False
    with assms obtain results where "(fire_step env d body)\<^sup>*\<^sup>* (map (startDelivery d) ?subs, [], w) ([], results, w')" and a: "all = concat results"
      by (auto simp: Fire_def Let_def)
    from fire_steps_ok [OF this(1) firing_start] obtain ps where "map snd ps = results" "mset ?subs = mset (map fst ps)"
      "\<forall>(sub, sts) \<in> set ps. history_ok env d sub sts" by (auto simp: firing_ok_def)
    with a show ?thesis by (intro exI [of _ ps]) simp
  qed
  then show ?thesis unfolding f history_ok_def attempts_ok_def by (elim ex_forward) blast
qed

text \<open>
  C34. \<^verbatim>\<open>Fire\<close> always returns: no schedule of the deliveries takes more turns than \<^verbatim>\<open>MaxAttempts\<close> per
  subscriber, as long as one is running some goroutine can take a turn, and so there is an outcome for
  every registry and event.
\<close>

theorem Fire_terminates:
  "(\<forall>n s. (fire_step env d body ^^ n) (map (startDelivery d) subs, [], w) s \<longrightarrow> n \<le> length subs * nat (maxAttempts d)) \<and>
   (\<forall>ds results v. (fire_step env d body)\<^sup>*\<^sup>* (map (startDelivery d) subs, [], w) (ds, results, v) \<and> ds \<noteq> [] \<longrightarrow>
      (\<exists>t. fire_step env d body (ds, results, v) t)) \<and>
   (\<exists>all w'. Fire env d registry event w all w')"
proof -
  have "turnsLeft d (map (startDelivery d) subs) = length subs * nat (maxAttempts d)"
    by (simp add: turnsLeft_def startDelivery_def comp_def sum_list_triv)
  then have "n \<le> length subs * nat (maxAttempts d)" if "(fire_step env d body ^^ n) (map (startDelivery d) subs, [], w) s" for n s
    using fire_steps_bound [OF that firing_start] by simp
  moreover have "\<exists>all w'. Fire env d registry event w all w'"
  proof (cases "marshalEvent env event")
    case (Inr b)
    obtain r v where "(fire_step env d b)\<^sup>*\<^sup>* (map (startDelivery d) (Subscribers registry (evType event)), [], w) ([], r, v)"
      using fire_completes [OF firing_start [of env d "Subscribers registry (evType event)" w], where body = b] by blast
    with Inr show ?thesis by (auto simp: Fire_def Let_def)
  qed (auto simp: Fire_def Let_def)
  ultimately show ?thesis by (intro conjI allI impI; (elim conjE)?) (blast, erule fire_progress, blast)
qed

section \<open>Witnesses\<close>

definition witness_hooks :: "nat webhook_env" where
  "witness_hooks = \<lparr>weNewPost = (\<lambda>u. None), weDo = (\<lambda>u sig body w. (Inr (if w = 0 then 500 else 204), w + 1)), weNow = int, weDone = (\<lambda>w. False),
     weSleep = (\<lambda>d w. w), weHMAC = (\<lambda>k m. k), weTimeJSON = (\<lambda>t. Inr (JStr ''2024-01-01T00:00:00Z''))\<rparr>"

definition witness_event :: Event where
  "witness_event = \<lparr>evType = EventRelocate, evTimestamp = 0, evBucket = ''pub'', evKey = ''a'', evPayload = None\<rparr>"

definition witness_registry :: SubscriberRegistry where
  "witness_registry = webhook_Register \<lparr>suURL = ''http://hook/'', suEvents = [], suSecret = ''k''\<rparr> webhook_NewRegistry"

theorem Fire_history_witness:
  "\<exists>all w'. Fire witness_hooks \<lparr>diMaxAttempts = 0, diBackoffBase = 0\<rparr> witness_registry witness_event 0 all w' \<and> map dsAttempt all = [1, 2] \<and>
     (\<exists>blocks :: (Subscriber \<times> DeliveryStatus list) list. all = concat (map snd blocks) \<and> length blocks = 1)"
proof -
  let ?d = "\<lparr>diMaxAttempts = 0, diBackoffBase = 0\<rparr>"
  let ?sub = "\<lparr>suURL = ''http://hook/'', suEvents = [], suSecret = ''k''\<rparr>"
  obtain body where b: "marshalEvent witness_hooks witness_event = Inr body"
    by (simp add: marshalEvent_def witness_hooks_def witness_event_def)
  let ?s1 = "\<lparr>dsSubscriberURL = ''http://hook/'', dsAttempt = 1, dsStatusCode = 500,
    dsErr = Some (Errorf ''webhook: deliver: unexpected status %d'' [FormatInt 500] []), dsDelivered = False, dsTimestamp = 0\<rparr>"
  let ?s2 = "\<lparr>dsSubscriberURL = ''http://hook/'', dsAttempt = 2, dsStatusCode = 204, dsErr = None, dsDelivered = True, dsTimestamp = 1\<rparr>"
  let ?y = "(startDelivery ?d ?sub)\<lparr>dyAttempt := 2, dyBackoff := backoffBase ?d * 2, dyStatuses := [?s1]\<rparr>"
  have t1: "deliverTurn witness_hooks ?d body (startDelivery ?d ?sub) 0 = (Inr ?y, 1)"
    by (simp add: deliverTurn_def attempt_def witness_hooks_def startDelivery_def maxAttempts_def defaultMaxAttempts_def Let_def)
  have t2: "deliverTurn witness_hooks ?d body ?y 1 = (Inl [?s1, ?s2], 2)"
    by (simp add: deliverTurn_def attempt_def witness_hooks_def startDelivery_def Let_def)
  from fire_step.go_on [OF t1, of "[]" "[]" "[]"] fire_step.finish [OF t2, of "[]" "[]" "[]"]
  have "(fire_step witness_hooks ?d body)\<^sup>*\<^sup>* ([startDelivery ?d ?sub], [], 0) ([], [[?s1, ?s2]], 2)"
    by (simp add: converse_rtranclp_into_rtranclp)
  then have f: "Fire witness_hooks ?d witness_registry witness_event 0 [?s1, ?s2] 2"
    using b by (auto simp: Fire_def Let_def Subscribers_def witness_registry_def webhook_Register_def webhook_NewRegistry_def wants_def)
  have r: "rgSubscribers witness_registry = [?sub]" by (simp add: witness_registry_def webhook_Register_def webhook_NewRegistry_def)
  have "\<exists>blocks. [?s1, ?s2] = concat (map snd blocks) \<and> mset (map fst blocks) = mset [?sub]"
    using Fire_history [OF f b] unfolding r by (elim ex_forward) auto
  then obtain blocks where a: "[?s1, ?s2] = concat (map snd blocks)" and m: "mset (map fst blocks) = mset [?sub]" by blast
  from mset_eq_length [OF m] have l: "length blocks = 1" by simp
  have n: "map dsAttempt [?s1, ?s2] = [1, 2]" by simp
  show ?thesis by (intro exI [of _ "[?s1, ?s2]"] exI [of _ 2] exI [of _ blocks] conjI f n a l)
qed

theorem Fire_terminates_witness:
  "\<exists>all w'. Fire witness_hooks \<lparr>diMaxAttempts = 5, diBackoffBase = 0\<rparr> witness_registry witness_event 0 all w'"
  using Fire_terminates [of witness_hooks "\<lparr>diMaxAttempts = 5, diBackoffBase = 0\<rparr>" "[]" "[]" 0 witness_registry witness_event] by blast

end
