(* ===== verification/Go_Csv.thy ===== *)
theory Go_Csv
  imports Go_Strings
begin

text \<open>
  \<^verbatim>\<open>encoding/csv.Writer\<close> as the reports use it (comma, line feed), and a reader of the same format by
  RFC 4180, which is the reference the exports are compared with.
\<close>

section \<open>The writer\<close>

definition csvSpecial :: "char \<Rightarrow> bool" where
  "csvSpecial c \<longleftrightarrow> c = CHR 0x0A \<or> c = CHR 0x0D \<or> c = CHR 0x22 \<or> c = CHR '',''"

definition fieldNeedsQuotes :: "string \<Rightarrow> bool" where
  "fieldNeedsQuotes field \<longleftrightarrow>
     (if field = [] then False
      else if field = [CHR 0x5C, CHR ''.''] then True
      else if \<exists>c \<in> set field. csvSpecial c then True
      else (case Runes field of [] \<Rightarrow> False | (r1, _) # _ \<Rightarrow> IsSpace r1))"

definition quoteField :: "string \<Rightarrow> string" where
  "quoteField field = CHR 0x22 # concat (map (\<lambda>c. if c = CHR 0x22 then [c, c] else [c]) field) @ [CHR 0x22]"

definition csvField :: "string \<Rightarrow> string" where
  "csvField field = (if fieldNeedsQuotes field then quoteField field else field)"

definition csvWrite :: "string list \<Rightarrow> bytes" where
  "csvWrite record = Join (map csvField record) '','' @ [CHR 0x0A]"

section \<open>A reader\<close>

text \<open>The rest of a quoted field, and one field with what follows it.\<close>

fun readQuoted :: "string \<Rightarrow> (string \<times> string) option" where
  "readQuoted [] = None"
| "readQuoted (c # s) =
     (if c \<noteq> CHR 0x22 then map_option (\<lambda>(f, r). (c # f, r)) (readQuoted s)
      else (case s of
              [] \<Rightarrow> Some ([], [])
            | d # s' \<Rightarrow> if d = CHR 0x22 then map_option (\<lambda>(f, r). (CHR 0x22 # f, r)) (readQuoted s') else Some ([], s)))"

definition plainByte :: "char \<Rightarrow> bool" where
  "plainByte c \<longleftrightarrow> c \<noteq> CHR '','' \<and> c \<noteq> CHR 0x0A"

definition readField :: "string \<Rightarrow> (string \<times> string) option" where
  "readField s =
     (case s of
        [] \<Rightarrow> Some ([], [])
      | c # s' \<Rightarrow> if c = CHR 0x22 then readQuoted s' else Some (takeWhile plainByte s, dropWhile plainByte s))"

text \<open>Records and documents; the fuel is at least the length of the text.\<close>

fun readRecord :: "nat \<Rightarrow> string \<Rightarrow> (string list \<times> string) option" where
  "readRecord 0 s = None"
| "readRecord (Suc n) s =
     (case readField s of
        None \<Rightarrow> None
      | Some (f, []) \<Rightarrow> None
      | Some (f, c # r) \<Rightarrow>
          if c = CHR '','' then map_option (\<lambda>(fs, q). (f # fs, q)) (readRecord n r)
          else if c = CHR 0x0A then Some ([f], r)
          else None)"

fun readRecords :: "nat \<Rightarrow> string \<Rightarrow> string list list option" where
  "readRecords 0 s = (if s = [] then Some [] else None)"
| "readRecords (Suc n) s =
     (if s = [] then Some []
      else (case readRecord (length s) s of
              None \<Rightarrow> None
            | Some (r, q) \<Rightarrow> map_option (\<lambda>rs. r # rs) (readRecords n q)))"

definition csvRead :: "bytes \<Rightarrow> string list list option" where
  "csvRead s = readRecords (length s) s"

section \<open>Reading what was written\<close>

lemma readQuoted_quote:
  "t = [] \<or> hd t \<noteq> CHR 0x22 \<Longrightarrow>
   readQuoted (concat (map (\<lambda>c. if c = CHR 0x22 then [c, c] else [c]) f) @ CHR 0x22 # t) = Some (f, t)"
  by (induction f) (auto split: list.split)

lemma unquoted_plain:
  assumes "\<not> fieldNeedsQuotes f" shows "\<forall>c \<in> set f. plainByte c \<and> c \<noteq> CHR 0x22"
  using assms by (auto simp: fieldNeedsQuotes_def csvSpecial_def plainByte_def split: if_splits)

lemma readField_csvField:
  assumes "t \<noteq> []" and "\<not> plainByte (hd t)" shows "readField (csvField f @ t) = Some (f, t)"
proof (cases "fieldNeedsQuotes f")
  case True
  have "hd t \<noteq> CHR 0x22" using assms(2) by (auto simp: plainByte_def)
  with True readQuoted_quote [of t f] show ?thesis by (simp add: csvField_def quoteField_def readField_def)
next
  case False
  have "takeWhile plainByte (f @ t) = f" "dropWhile plainByte (f @ t) = t"
    using unquoted_plain [OF False] assms by (cases t; simp)+
  moreover have "f @ t = [] \<or> hd (f @ t) \<noteq> CHR 0x22"
    using unquoted_plain [OF False] assms by (cases f) (auto simp: plainByte_def)
  ultimately show ?thesis using False assms(1)
    by (auto simp: csvField_def readField_def split: list.split)
qed

lemma readRecord_csvWrite:
  "rec \<noteq> [] \<Longrightarrow> length rec \<le> n \<Longrightarrow> readRecord n (csvWrite rec @ t) = Some (rec, t)"
proof (induction rec arbitrary: n)
  case (Cons f rec)
  then obtain m where n: "n = Suc m" by (cases n) auto
  show ?case
  proof (cases rec)
    case Nil
    then show ?thesis by (simp add: n csvWrite_def readField_csvField plainByte_def)
  next
    case (Cons g rec')
    have "csvWrite (f # rec) @ t = csvField f @ CHR '','' # csvWrite rec @ t" by (simp add: csvWrite_def Cons)
    moreover have "readRecord m (csvWrite rec @ t) = Some (rec, t)"
      using Cons.IH [of m] Cons.prems n Cons by simp
    ultimately show ?thesis by (simp add: n readField_csvField plainByte_def)
  qed
qed simp

lemma length_csvWrite: "rec \<noteq> [] \<Longrightarrow> length rec \<le> length (csvWrite rec)"
  by (induction rec rule: induct_list012) (auto simp: csvWrite_def)

lemma readRecords_csvWrite:
  "\<forall>rec \<in> set recs. rec \<noteq> [] \<Longrightarrow> length recs \<le> n \<Longrightarrow> readRecords n (concat (map csvWrite recs)) = Some recs"
proof (induction recs arbitrary: n)
  case Nil
  then show ?case by (cases n) simp_all
next
  case (Cons rec recs)
  then obtain m where n: "n = Suc m" by (cases n) auto
  let ?t = "concat (map csvWrite recs)"
  have "length rec \<le> length (csvWrite rec @ ?t)" using Cons.prems(1) length_csvWrite [of rec] by simp
  then have "readRecord (length (csvWrite rec @ ?t)) (csvWrite rec @ ?t) = Some (rec, ?t)"
    using Cons.prems(1) by (intro readRecord_csvWrite) simp_all
  moreover have "csvWrite rec \<noteq> []" by (simp add: csvWrite_def)
  ultimately show ?case using Cons.IH [of m] Cons.prems n by simp
qed

theorem csvRead_csvWrite:
  assumes "\<forall>rec \<in> set recs. rec \<noteq> []" shows "csvRead (concat (map csvWrite recs)) = Some recs"
proof -
  have "length recs \<le> length (concat (map csvWrite recs))"
    by (induction recs) (simp_all add: csvWrite_def)
  with readRecords_csvWrite [OF assms] show ?thesis by (simp add: csvRead_def)
qed

end
