(* ===== verification/Reporting.thy ===== *)
theory Reporting
  imports Policy_Engine Go_Csv Go_Indent
begin

text \<open>
  Reports over artifact records (\<^verbatim>\<open>internal/reporting\<close>): the search (\<^verbatim>\<open>reporting.go\<close>), the summaries by
  license and by bucket (\<^verbatim>\<open>reports.go\<close>) and their export as CSV and JSON (\<^verbatim>\<open>export.go\<close>).
\<close>

section \<open>reporting.go\<close>

record ReportRecord =
  rcEntry :: Entry
  rcName :: string
  rcVersion :: string
  rcLicense :: LicenseResult
  rcScan :: ScanResult
  rcPolicyVerdict :: "Verdict option"

record Query =
  qNameContains :: string
  qVersionEquals :: string
  qLicenseSPDXID :: string
  qVulnerable :: "bool option"
  qMinSeverity :: Severity

definition query_matches :: "(int \<Rightarrow> int) \<Rightarrow> ReportRecord \<Rightarrow> Query \<Rightarrow> bool" where
  "query_matches ul r q \<longleftrightarrow>
     (if qNameContains q \<noteq> [] \<and> \<not> Contains (ToLower ul (rcName r)) (ToLower ul (qNameContains q)) then False
      else if qVersionEquals q \<noteq> [] \<and> rcVersion r \<noteq> qVersionEquals q then False
      else if qLicenseSPDXID q \<noteq> [] \<and> lSPDXID (rcLicense r) \<noteq> qLicenseSPDXID q then False
      else if (case qVulnerable q of None \<Rightarrow> False | Some v \<Rightarrow> Vulnerable (rcScan r) \<noteq> v) then False
      else if qMinSeverity q > SeverityUnknown \<and> MaxSeverity (rcScan r) < qMinSeverity q then False
      else True)"

definition Search :: "(int \<Rightarrow> int) \<Rightarrow> ReportRecord list \<Rightarrow> Query \<Rightarrow> ReportRecord list" where
  "Search ul records q = foldl (\<lambda>result r. if \<not> query_matches ul r q then result else result @ [r]) [] records"

section \<open>reports.go\<close>

definition isViolation :: "ReportRecord \<Rightarrow> bool" where
  "isViolation r \<longleftrightarrow> (case rcPolicyVerdict r of None \<Rightarrow> False | Some v \<Rightarrow> vDecision v \<noteq> DecisionAllow)"

definition PolicyViolationsReport :: "ReportRecord list \<Rightarrow> ReportRecord list" where
  "PolicyViolationsReport records = foldl (\<lambda>result r. if isViolation r then result @ [r] else result) [] records"

record LicenseBreakdownEntry =
  lbSPDXID :: string
  lbCount :: int

definition breakdownLess :: "LicenseBreakdownEntry \<Rightarrow> LicenseBreakdownEntry \<Rightarrow> bool" where
  "breakdownLess a b \<longleftrightarrow> (if lbCount a \<noteq> lbCount b then lbCount a > lbCount b else lbSPDXID a < lbSPDXID b)"

definition countLicense :: "int option \<Rightarrow> ReportRecord \<Rightarrow> int" where
  "countLicense old r = (case old of Some n \<Rightarrow> n | None \<Rightarrow> 0) + 1"

text \<open>A map that is built by updating one key per record.\<close>

definition groupInto :: "('a \<Rightarrow> 'k) \<Rightarrow> ('v option \<Rightarrow> 'a \<Rightarrow> 'v) \<Rightarrow> 'a list \<Rightarrow> ('k, 'v) gomap" where
  "groupInto key upd xs = foldl (\<lambda>m x. gm_set (key x) (upd (gm_get m (key x)) x) m) [] xs"

definition LicenseBreakdown :: "ReportRecord list \<Rightarrow> LicenseBreakdownEntry list" where
  "LicenseBreakdown records =
     (let counts = groupInto (\<lambda>r. lSPDXID (rcLicense r)) countLicense records
      in sort_slice breakdownLess (map (\<lambda>(spdxID, count). \<lparr>lbSPDXID = spdxID, lbCount = count\<rparr>) counts))"

record StorageUsageEntry =
  ueBucket :: string
  ueTotalBytes :: int64
  ueObjectCount :: int

definition addUsage :: "StorageUsageEntry option \<Rightarrow> ReportRecord \<Rightarrow> StorageUsageEntry" where
  "addUsage old r =
     (let entry = (case old of Some e \<Rightarrow> e | None \<Rightarrow> \<lparr>ueBucket = eBucket (rcEntry r), ueTotalBytes = 0, ueObjectCount = 0\<rparr>)
      in entry\<lparr>ueTotalBytes := ueTotalBytes entry + eSize (rcEntry r), ueObjectCount := ueObjectCount entry + 1\<rparr>)"

definition bucketLess :: "StorageUsageEntry \<Rightarrow> StorageUsageEntry \<Rightarrow> bool" where
  "bucketLess a b \<longleftrightarrow> ueBucket a < ueBucket b"

definition StorageUsagePerRepository :: "ReportRecord list \<Rightarrow> StorageUsageEntry list" where
  "StorageUsagePerRepository records = sort_slice bucketLess (map snd (groupInto (\<lambda>r. eBucket (rcEntry r)) addUsage records))"

section \<open>export.go\<close>

text \<open>The writer fills a buffer in memory, which cannot fail.\<close>

definition writeCSV :: "string list \<Rightarrow> string list list \<Rightarrow> go_error + bytes" where
  "writeCSV header rows = Inr (csvWrite header @ concat (map csvWrite rows))"

definition ToJSON :: "json \<Rightarrow> go_error + bytes" where
  "ToJSON v = Inr (MarshalIndent v)"

definition recordCSVHeader :: "string list" where
  "recordCSVHeader = [''bucket'', ''key'', ''name'', ''version'', ''license_spdx_id'',
     ''vulnerable'', ''max_severity'', ''policy_decision'', ''size_bytes'', ''last_modified'']"

definition recordRow :: "ReportRecord \<Rightarrow> string list" where
  "recordRow r =
     [eBucket (rcEntry r), eKey (rcEntry r), rcName r, rcVersion r, lSPDXID (rcLicense r),
      (if Vulnerable (rcScan r) then ''true'' else ''false''), severity_String (MaxSeverity (rcScan r)),
      (case rcPolicyVerdict r of None \<Rightarrow> [] | Some v \<Rightarrow> decision_String (vDecision v)),
      FormatInt (sint (eSize (rcEntry r))), eLastModified (rcEntry r)]"

definition RecordsToCSV :: "ReportRecord list \<Rightarrow> go_error + bytes" where
  "RecordsToCSV records = writeCSV recordCSVHeader (map recordRow records)"

definition licenseBreakdownCSVHeader :: "string list" where
  "licenseBreakdownCSVHeader = [''license_spdx_id'', ''count'']"

definition LicenseBreakdownToCSV :: "LicenseBreakdownEntry list \<Rightarrow> go_error + bytes" where
  "LicenseBreakdownToCSV entries = writeCSV licenseBreakdownCSVHeader (map (\<lambda>e. [lbSPDXID e, FormatInt (lbCount e)]) entries)"

definition storageUsageCSVHeader :: "string list" where
  "storageUsageCSVHeader = [''bucket'', ''total_bytes'', ''object_count'']"

definition StorageUsageToCSV :: "StorageUsageEntry list \<Rightarrow> go_error + bytes" where
  "StorageUsageToCSV entries =
     writeCSV storageUsageCSVHeader (map (\<lambda>e. [ueBucket e, FormatInt (sint (ueTotalBytes e)), FormatInt (ueObjectCount e)]) entries)"

section \<open>Searching\<close>

lemma foldl_append_filter: "foldl (\<lambda>result r. if p r then result @ [r] else result) acc xs = acc @ filter p xs"
  by (induction xs arbitrary: acc) simp_all

lemma Search_filter: "Search ul records q = filter (\<lambda>r. query_matches ul r q) records"
proof -
  have "foldl (\<lambda>result r. if \<not> query_matches ul r q then result else result @ [r]) acc records =
      acc @ filter (\<lambda>r. query_matches ul r q) records" for acc
    by (induction records arbitrary: acc) simp_all
  then show ?thesis by (simp add: Search_def)
qed

lemma PolicyViolationsReport_filter: "PolicyViolationsReport records = filter isViolation records"
  using foldl_append_filter [of isViolation "[]" records] by (simp add: PolicyViolationsReport_def)

section \<open>Grouping\<close>

lemma groupInto_get:
  "gm_ok (groupInto key upd xs) \<and>
   (\<forall>k. gm_get (groupInto key upd xs) k = foldl (\<lambda>old x. Some (upd old x)) None (filter (\<lambda>x. key x = k) xs))"
  by (induction xs rule: rev_induct) (simp_all add: groupInto_def)

lemma groupInto_set:
  "(k, v) \<in> set (groupInto key upd xs) \<longleftrightarrow> foldl (\<lambda>old x. Some (upd old x)) None (filter (\<lambda>x. key x = k) xs) = Some v"
  using groupInto_get [of key upd xs] gm_get_in_set [of "groupInto key upd xs" k v] by simp

lemma groupInto_distinct: "distinct (map fst (groupInto key upd xs))"
  using groupInto_get [of key upd xs] by (simp add: gm_ok_def)

lemma counts_fold: "foldl (\<lambda>old x. Some (countLicense old x)) None xs = (if xs = [] then None else Some (int (length xs)))"
  by (induction xs rule: rev_induct) (auto simp: countLicense_def)

lemma usage_fold:
  "\<forall>r \<in> set xs. eBucket (rcEntry r) = b \<Longrightarrow>
   foldl (\<lambda>old x. Some (addUsage old x)) None xs =
     (if xs = [] then None
      else Some \<lparr>ueBucket = b, ueTotalBytes = sum_list (map (\<lambda>r. eSize (rcEntry r)) xs), ueObjectCount = int (length xs)\<rparr>)"
  by (induction xs rule: rev_induct) (auto simp: addUsage_def)

interpretation breakdownLess: strict_weak_order breakdownLess
  by unfold_locales (auto simp: breakdownLess_def split: if_splits)

interpretation bucketLess: strict_weak_order bucketLess
  unfolding bucketLess_def [abs_def] by (rule strict_weak_order_field)

lemma sorted_distinct_strict:
  assumes "sorted_wrt (\<lambda>a b. \<not> lt b a) xs" and "distinct xs"
    and tot: "\<And>a b. a \<in> set xs \<Longrightarrow> b \<in> set xs \<Longrightarrow> \<not> lt a b \<Longrightarrow> \<not> lt b a \<Longrightarrow> a = b"
  shows "sorted_wrt lt xs"
proof -
  have "lt (xs ! i) (xs ! j)" if "i < j" "j < length xs" for i j
  proof (rule ccontr)
    assume "\<not> lt (xs ! i) (xs ! j)"
    moreover have "\<not> lt (xs ! j) (xs ! i)" using assms(1) that by (simp add: sorted_wrt_iff_nth_less)
    ultimately have "xs ! i = xs ! j" using tot that by simp
    with assms(2) that show False by (simp add: nth_eq_iff_index_eq)
  qed
  then show ?thesis by (simp add: sorted_wrt_iff_nth_less)
qed

lemma sorted_slice_by_key:
  assumes "strict_weak_order lt" and "distinct (map key xs)"
    and "\<And>a b. \<not> lt a b \<Longrightarrow> \<not> lt b a \<Longrightarrow> key a = key b"
  shows "sorted_wrt lt (sort_slice lt xs)"
proof (rule sorted_distinct_strict)
  show "sorted_wrt (\<lambda>a b. \<not> lt b a) (sort_slice lt xs)" using assms(1) by (rule strict_weak_order.sorted_slice)
  show "distinct (sort_slice lt xs)" using assms(2) by (simp add: distinct_map)
  show "a = b" if "a \<in> set (sort_slice lt xs)" "b \<in> set (sort_slice lt xs)" "\<not> lt a b" "\<not> lt b a" for a b
  proof (rule inj_onD)
    show "inj_on key (set xs)" using assms(2) by (simp add: distinct_map)
    show "key a = key b" using that(3,4) by (rule assms(3))
  qed (use that(1,2) in simp_all)
qed

definition countLicenses :: "ReportRecord list \<Rightarrow> string \<Rightarrow> int" where
  "countLicenses rs k = int (length (filter (\<lambda>r. lSPDXID (rcLicense r) = k) rs))"

definition ownRecords :: "ReportRecord list \<Rightarrow> string \<Rightarrow> ReportRecord list" where
  "ownRecords rs b = filter (\<lambda>r. eBucket (rcEntry r) = b) rs"

lemma breakdown_entries:
  "e \<in> set (LicenseBreakdown rs) \<longleftrightarrow> 0 < lbCount e \<and> lbCount e = countLicenses rs (lbSPDXID e)"
proof -
  have "(k, n) \<in> set (groupInto (\<lambda>r. lSPDXID (rcLicense r)) countLicense rs) \<longleftrightarrow> 0 < n \<and> n = countLicenses rs k" for k n
    unfolding groupInto_set counts_fold countLicenses_def by (cases "filter (\<lambda>r. lSPDXID (rcLicense r) = k) rs") auto
  then show ?thesis by (cases e) (force simp: LicenseBreakdown_def image_iff)
qed

lemma breakdown_sorted:
  "sorted_wrt (\<lambda>a b. lbCount b < lbCount a \<or> lbCount a = lbCount b \<and> lbSPDXID a < lbSPDXID b) (LicenseBreakdown rs)"
proof -
  let ?l = "map (\<lambda>(k, n). \<lparr>lbSPDXID = k, lbCount = n\<rparr>) (groupInto (\<lambda>r. lSPDXID (rcLicense r)) countLicense rs)"
  have "map lbSPDXID ?l = map fst (groupInto (\<lambda>r. lSPDXID (rcLicense r)) countLicense rs)" by (simp add: case_prod_beta comp_def)
  then have "distinct (map lbSPDXID ?l)" by (simp only: groupInto_distinct)
  then have "sorted_wrt breakdownLess (sort_slice breakdownLess ?l)"
    by (rule sorted_slice_by_key [OF breakdownLess.strict_weak_order_axioms]) (simp add: breakdownLess_def split: if_splits)
  then show ?thesis
    unfolding LicenseBreakdown_def Let_def by (rule sorted_wrt_mono_rel [rotated]) (simp add: breakdownLess_def split: if_splits)
qed

lemma usage_groups:
  "(b, e) \<in> set (groupInto (\<lambda>r. eBucket (rcEntry r)) addUsage rs) \<longleftrightarrow>
     ownRecords rs b \<noteq> [] \<and>
     e = \<lparr>ueBucket = b, ueTotalBytes = sum_list (map (\<lambda>r. eSize (rcEntry r)) (ownRecords rs b)), ueObjectCount = int (length (ownRecords rs b))\<rparr>"
  unfolding groupInto_set ownRecords_def by (subst usage_fold [of _ b]) auto

lemma usage_entries:
  "e \<in> set (StorageUsagePerRepository rs) \<longleftrightarrow>
     ownRecords rs (ueBucket e) \<noteq> [] \<and> ueObjectCount e = int (length (ownRecords rs (ueBucket e))) \<and>
     ueTotalBytes e = sum_list (map (\<lambda>r. eSize (rcEntry r)) (ownRecords rs (ueBucket e)))"
proof -
  have "e \<in> set (StorageUsagePerRepository rs) \<longleftrightarrow> (\<exists>b. (b, e) \<in> set (groupInto (\<lambda>r. eBucket (rcEntry r)) addUsage rs))"
    by (force simp: StorageUsagePerRepository_def)
  then show ?thesis unfolding usage_groups by (cases e) auto
qed

lemma usage_sorted: "sorted_wrt (\<lambda>a b. ueBucket a < ueBucket b) (StorageUsagePerRepository rs)"
proof -
  let ?u = "groupInto (\<lambda>r. eBucket (rcEntry r)) addUsage rs"
  have "map ueBucket (map snd ?u) = map fst ?u" using usage_groups by (auto simp: comp_def)
  then have "distinct (map ueBucket (map snd ?u))" by (simp only: groupInto_distinct)
  then have "sorted_wrt bucketLess (sort_slice bucketLess (map snd ?u))"
    by (rule sorted_slice_by_key [OF bucketLess.strict_weak_order_axioms]) (simp add: bucketLess_def)
  then show ?thesis unfolding StorageUsagePerRepository_def bucketLess_def .
qed

text \<open>
  C39. The summaries are exact and fully ordered: the license breakdown has one entry for every identifier
  that occurs, with the number of records that carry it, by falling count and then by identifier; the
  storage usage has one entry for every bucket that occurs, with its number of objects and the sum of
  their sizes in int64 arithmetic, by bucket. The order in which Go iterates over its maps cannot show.
\<close>

theorem reports_exact:
  "(\<forall>e. e \<in> set (LicenseBreakdown rs) \<longleftrightarrow>
      0 < lbCount e \<and> lbCount e = int (length (filter (\<lambda>r. lSPDXID (rcLicense r) = lbSPDXID e) rs))) \<and>
   sorted_wrt (\<lambda>a b. lbCount b < lbCount a \<or> lbCount a = lbCount b \<and> lbSPDXID a < lbSPDXID b) (LicenseBreakdown rs) \<and>
   (\<forall>e. e \<in> set (StorageUsagePerRepository rs) \<longleftrightarrow>
      (let own = filter (\<lambda>r. eBucket (rcEntry r) = ueBucket e) rs
       in own \<noteq> [] \<and> ueObjectCount e = int (length own) \<and> ueTotalBytes e = sum_list (map (\<lambda>r. eSize (rcEntry r)) own))) \<and>
   sorted_wrt (\<lambda>a b. ueBucket a < ueBucket b) (StorageUsagePerRepository rs)"
  using breakdown_entries [of _ rs] usage_entries [of _ rs]
  by (simp add: breakdown_sorted usage_sorted countLicenses_def ownRecords_def Let_def)

text \<open>
  C40. The exports lose nothing: whatever bytes the fields hold, commas, quotes and line breaks included,
  a CSV reader gets back the header and, for every record in order, exactly its columns; an artifact
  without a verdict has an empty decision, not an allow.
\<close>

theorem exports_read_back:
  "\<exists>records breakdown usage.
     RecordsToCSV rs = Inr records \<and>
     csvRead records = Some (recordCSVHeader # map (\<lambda>r.
       [eBucket (rcEntry r), eKey (rcEntry r), rcName r, rcVersion r, lSPDXID (rcLicense r),
        if Findings (rcScan r) = [] then ''false'' else ''true'', severity_String (MaxSeverity (rcScan r)),
        case rcPolicyVerdict r of None \<Rightarrow> [] | Some v \<Rightarrow> decision_String (vDecision v),
        FormatInt (sint (eSize (rcEntry r))), eLastModified (rcEntry r)]) rs) \<and>
     LicenseBreakdownToCSV ls = Inr breakdown \<and>
     csvRead breakdown = Some ([''license_spdx_id'', ''count''] # map (\<lambda>e. [lbSPDXID e, FormatInt (lbCount e)]) ls) \<and>
     StorageUsageToCSV us = Inr usage \<and>
     csvRead usage = Some ([''bucket'', ''total_bytes'', ''object_count''] #
       map (\<lambda>e. [ueBucket e, FormatInt (sint (ueTotalBytes e)), FormatInt (ueObjectCount e)]) us)"
proof -
  have r: "csvRead (csvWrite header @ concat (map csvWrite rows)) = Some (header # rows)"
    if "header \<noteq> []" "\<forall>row \<in> set rows. row \<noteq> []" for header rows
    using csvRead_csvWrite [of "header # rows"] that by simp
  have "csvRead (csvWrite recordCSVHeader @ concat (map csvWrite (map recordRow rs))) = Some (recordCSVHeader # map recordRow rs)"
    by (rule r) (simp_all add: recordCSVHeader_def recordRow_def)
  moreover have "recordRow = (\<lambda>r. [eBucket (rcEntry r), eKey (rcEntry r), rcName r, rcVersion r, lSPDXID (rcLicense r),
        if Findings (rcScan r) = [] then ''false'' else ''true'', severity_String (MaxSeverity (rcScan r)),
        case rcPolicyVerdict r of None \<Rightarrow> [] | Some v \<Rightarrow> decision_String (vDecision v),
        FormatInt (sint (eSize (rcEntry r))), eLastModified (rcEntry r)])"
    by (simp add: fun_eq_iff recordRow_def Vulnerable_def)
  moreover note r [of licenseBreakdownCSVHeader "map (\<lambda>e. [lbSPDXID e, FormatInt (lbCount e)]) ls"]
    and r [of storageUsageCSVHeader "map (\<lambda>e. [ueBucket e, FormatInt (sint (ueTotalBytes e)), FormatInt (ueObjectCount e)]) us"]
  ultimately show ?thesis
    unfolding RecordsToCSV_def LicenseBreakdownToCSV_def StorageUsageToCSV_def writeCSV_def
    by (simp add: licenseBreakdownCSVHeader_def storageUsageCSVHeader_def)
qed

end
