(* ===== verification/Sbom.thy ===== *)
theory Sbom
  imports Licensing Go_Indent
begin

text \<open>
  CycloneDX documents (\<^verbatim>\<open>internal/sbom/sbom.go\<close>): generating the document of a list of components with
  their licenses and findings, and reading the components of a document back.
\<close>

section \<open>The document\<close>

definition bomFormat :: string where "bomFormat = ''CycloneDX''"
definition specVersion :: string where "specVersion = ''1.5''"

record Component =
  cName :: string
  cVersion :: string
  cPURL :: string
  cLicense :: LicenseResult
  cFindings :: "Finding list"

text \<open>
  A slice is its backing array with its length, as the decoder leaves it. \<^verbatim>\<open>cdxLicenseChoice\<close>,
  \<^verbatim>\<open>cdxVulnSource\<close>, \<^verbatim>\<open>cdxRating\<close> and \<^verbatim>\<open>cdxAffects\<close>, which have one field each, are that field.
\<close>

type_synonym 'a slice = "'a list \<times> nat"

definition sliceOf :: "'a list \<Rightarrow> 'a slice" where "sliceOf xs = (xs, length xs)"

definition elems :: "'a slice \<Rightarrow> 'a list" where "elems s = take (snd s) (fst s)"

record cdxLicense =
  clID :: string
  clName :: string

record cdxComponent =
  ccType :: string
  ccBOMRef :: string
  ccName :: string
  ccVersion :: string
  ccPURL :: string
  ccLicenses :: "cdxLicense slice"

record cdxVulnerability =
  cvID :: string
  cvSource :: string
  cvRatings :: "string slice"
  cvDescription :: string
  cvAffects :: "string slice"

record document =
  docBOMFormat :: string
  docSpecVersion :: string
  docVersion :: int
  docComponents :: "cdxComponent slice"
  docVulnerabilities :: "cdxVulnerability slice"

text \<open>The JSON values; \<^verbatim>\<open>omitempty\<close> drops an empty string and an empty slice.\<close>

definition omitString :: "string \<Rightarrow> string \<Rightarrow> (string \<times> json) list" where
  "omitString tag s = (if s = [] then [] else [(tag, JStr s)])"

definition omitSlice :: "string \<Rightarrow> ('a \<Rightarrow> json) \<Rightarrow> 'a slice \<Rightarrow> (string \<times> json) list" where
  "omitSlice tag enc s = (if snd s = 0 then [] else [(tag, JArr (map enc (elems s)))])"

definition oneField :: "string \<Rightarrow> json \<Rightarrow> json" where
  "oneField tag v = JObj [(tag, v)]"

definition encodeLicense :: "cdxLicense \<Rightarrow> json" where
  "encodeLicense l = JObj (omitString ''id'' (clID l) @ omitString ''name'' (clName l))"

definition encodeComponent :: "cdxComponent \<Rightarrow> json" where
  "encodeComponent c =
     JObj ([(''type'', JStr (ccType c)), (''bom-ref'', JStr (ccBOMRef c)), (''name'', JStr (ccName c)), (''version'', JStr (ccVersion c))]
           @ omitString ''purl'' (ccPURL c)
           @ omitSlice ''licenses'' (\<lambda>l. oneField ''license'' (encodeLicense l)) (ccLicenses c))"

definition encodeVulnerability :: "cdxVulnerability \<Rightarrow> json" where
  "encodeVulnerability v =
     JObj ([(''id'', JStr (cvID v)), (''source'', oneField ''name'' (JStr (cvSource v)))]
           @ omitSlice ''ratings'' (\<lambda>s. oneField ''severity'' (JStr s)) (cvRatings v)
           @ omitString ''description'' (cvDescription v)
           @ [(''affects'', JArr (map (\<lambda>s. oneField ''ref'' (JStr s)) (elems (cvAffects v))))])"

definition encodeBOM :: "document \<Rightarrow> json" where
  "encodeBOM d =
     JObj ([(''bomFormat'', JStr (docBOMFormat d)), (''specVersion'', JStr (docSpecVersion d)), (''version'', JNum (FormatInt (docVersion d)))]
           @ omitSlice ''components'' encodeComponent (docComponents d)
           @ omitSlice ''vulnerabilities'' encodeVulnerability (docVulnerabilities d))"

section \<open>Generate\<close>

definition bomRef :: "Component \<Rightarrow> nat \<Rightarrow> string" where
  "bomRef c index =
     (if cPURL c \<noteq> [] then cPURL c
      else ''component-'' @ FormatInt (int index) @ ''-'' @ cName c @ ''@'' @ cVersion c)"

definition severityString :: "Severity \<Rightarrow> string" where
  "severityString s =
     (if s = SeverityLow then ''low'' else if s = SeverityMedium then ''medium''
      else if s = SeverityHigh then ''high'' else if s = SeverityCritical then ''critical'' else ''unknown'')"

definition cdxOf :: "Component \<Rightarrow> string \<Rightarrow> cdxComponent" where
  "cdxOf c ref =
     \<lparr>ccType = ''library'', ccBOMRef = ref, ccName = cName c, ccVersion = cVersion c, ccPURL = cPURL c,
      ccLicenses =
        (if Detected (cLicense c)
         then sliceOf [if Normalized (cLicense c) then \<lparr>clID = lSPDXID (cLicense c), clName = []\<rparr>
                       else \<lparr>clID = [], clName = lRaw (cLicense c)\<rparr>]
         else sliceOf [])\<rparr>"

definition vulnOf :: "string \<Rightarrow> Finding \<Rightarrow> cdxVulnerability" where
  "vulnOf ref f =
     \<lparr>cvID = fID f, cvSource = ''OSV'', cvRatings = sliceOf [severityString (fSeverity f)],
      cvDescription = fSummary f, cvAffects = sliceOf [ref]\<rparr>"

text \<open>The loop over the components: the two lists that the document gets.\<close>

fun generateFrom :: "nat \<Rightarrow> Component list \<Rightarrow> cdxComponent list \<times> cdxVulnerability list \<Rightarrow> cdxComponent list \<times> cdxVulnerability list" where
  "generateFrom i [] doc = doc"
| "generateFrom i (c # cs) (comps, vulns) =
     (let ref = bomRef c i
      in generateFrom (Suc i) cs (comps @ [cdxOf c ref], vulns @ map (vulnOf ref) (cFindings c)))"

definition documentOf :: "Component list \<Rightarrow> document" where
  "documentOf components =
     (let (comps, vulns) = generateFrom 0 components ([], [])
      in \<lparr>docBOMFormat = bomFormat, docSpecVersion = specVersion, docVersion = 1,
          docComponents = sliceOf comps, docVulnerabilities = sliceOf vulns\<rparr>)"

definition Generate :: "Component list \<Rightarrow> go_error + bytes" where
  "Generate components = Inr (MarshalIndent (encodeBOM (documentOf components)))"

section \<open>Ingest\<close>

definition decodeCdxLicense :: "cdxLicense \<Rightarrow> json \<Rightarrow> cdxLicense option" where
  "decodeCdxLicense = decodeObject (\<lambda>l k v.
     if keyIs k ''id'' then map_option (\<lambda>s. l\<lparr>clID := s\<rparr>) (decodeString (clID l) v)
     else if keyIs k ''name'' then map_option (\<lambda>s. l\<lparr>clName := s\<rparr>) (decodeString (clName l) v)
     else Some l)"

definition decodeOne :: "string \<Rightarrow> ('a \<Rightarrow> json \<Rightarrow> 'a option) \<Rightarrow> 'a \<Rightarrow> json \<Rightarrow> 'a option" where
  "decodeOne tag dec = decodeObject (\<lambda>x k v. if keyIs k tag then dec x v else Some x)"

definition zeroCdxLicense :: cdxLicense where "zeroCdxLicense = \<lparr>clID = [], clName = []\<rparr>"

definition decodeComponent :: "cdxComponent \<Rightarrow> json \<Rightarrow> cdxComponent option" where
  "decodeComponent = decodeObject (\<lambda>c k v.
     if keyIs k ''type'' then map_option (\<lambda>s. c\<lparr>ccType := s\<rparr>) (decodeString (ccType c) v)
     else if keyIs k ''bom-ref'' then map_option (\<lambda>s. c\<lparr>ccBOMRef := s\<rparr>) (decodeString (ccBOMRef c) v)
     else if keyIs k ''name'' then map_option (\<lambda>s. c\<lparr>ccName := s\<rparr>) (decodeString (ccName c) v)
     else if keyIs k ''version'' then map_option (\<lambda>s. c\<lparr>ccVersion := s\<rparr>) (decodeString (ccVersion c) v)
     else if keyIs k ''purl'' then map_option (\<lambda>s. c\<lparr>ccPURL := s\<rparr>) (decodeString (ccPURL c) v)
     else if keyIs k ''licenses''
     then map_option (\<lambda>ls. c\<lparr>ccLicenses := ls\<rparr>) (decodeSlice (decodeOne ''license'' decodeCdxLicense) zeroCdxLicense (ccLicenses c) v)
     else Some c)"

definition zeroComponent :: cdxComponent where
  "zeroComponent = \<lparr>ccType = [], ccBOMRef = [], ccName = [], ccVersion = [], ccPURL = [], ccLicenses = ([], 0)\<rparr>"

definition decodeVulnerability :: "cdxVulnerability \<Rightarrow> json \<Rightarrow> cdxVulnerability option" where
  "decodeVulnerability = decodeObject (\<lambda>x k v.
     if keyIs k ''id'' then map_option (\<lambda>s. x\<lparr>cvID := s\<rparr>) (decodeString (cvID x) v)
     else if keyIs k ''source'' then map_option (\<lambda>s. x\<lparr>cvSource := s\<rparr>) (decodeOne ''name'' decodeString (cvSource x) v)
     else if keyIs k ''ratings''
     then map_option (\<lambda>rs. x\<lparr>cvRatings := rs\<rparr>) (decodeSlice (decodeOne ''severity'' decodeString) [] (cvRatings x) v)
     else if keyIs k ''description'' then map_option (\<lambda>s. x\<lparr>cvDescription := s\<rparr>) (decodeString (cvDescription x) v)
     else if keyIs k ''affects''
     then map_option (\<lambda>rs. x\<lparr>cvAffects := rs\<rparr>) (decodeSlice (decodeOne ''ref'' decodeString) [] (cvAffects x) v)
     else Some x)"

definition zeroVulnerability :: cdxVulnerability where
  "zeroVulnerability = \<lparr>cvID = [], cvSource = [], cvRatings = ([], 0), cvDescription = [], cvAffects = ([], 0)\<rparr>"

definition decodeBOM :: "json \<Rightarrow> document option" where
  "decodeBOM = decodeObject (\<lambda>d k v.
     if keyIs k ''bomFormat'' then map_option (\<lambda>s. d\<lparr>docBOMFormat := s\<rparr>) (decodeString (docBOMFormat d) v)
     else if keyIs k ''specVersion'' then map_option (\<lambda>s. d\<lparr>docSpecVersion := s\<rparr>) (decodeString (docSpecVersion d) v)
     else if keyIs k ''version'' then map_option (\<lambda>n. d\<lparr>docVersion := n\<rparr>) (decodeInt (docVersion d) v)
     else if keyIs k ''components''
     then map_option (\<lambda>cs. d\<lparr>docComponents := cs\<rparr>) (decodeSlice decodeComponent zeroComponent (docComponents d) v)
     else if keyIs k ''vulnerabilities''
     then map_option (\<lambda>vs. d\<lparr>docVulnerabilities := vs\<rparr>) (decodeSlice decodeVulnerability zeroVulnerability (docVulnerabilities d) v)
     else Some d)
     \<lparr>docBOMFormat = [], docSpecVersion = [], docVersion = 0, docComponents = ([], 0), docVulnerabilities = ([], 0)\<rparr>"

definition licenseFromCDX :: "(int \<Rightarrow> int) \<Rightarrow> cdxLicense \<Rightarrow> LicenseResult" where
  "licenseFromCDX ul entry =
     (if clID entry \<noteq> []
      then let raw = clName entry; raw = (if raw = [] then clID entry else raw)
           in \<lparr>lRaw = raw, lSPDXID = clID entry\<rparr>
      else \<lparr>lRaw = clName entry, lSPDXID = NormalizeSPDX ul (clName entry)\<rparr>)"

definition componentOf :: "(int \<Rightarrow> int) \<Rightarrow> cdxComponent \<Rightarrow> Component" where
  "componentOf ul c =
     \<lparr>cName = ccName c, cVersion = ccVersion c, cPURL = ccPURL c,
      cLicense = (case elems (ccLicenses c) of l # _ \<Rightarrow> licenseFromCDX ul l | [] \<Rightarrow> noLicense), cFindings = []\<rparr>"

definition Ingest :: "(int \<Rightarrow> int) \<Rightarrow> bytes \<Rightarrow> go_error + Component list" where
  "Ingest ul data =
     (case Option.bind (json_Parse data) decodeBOM of
        None \<Rightarrow> Inl (Errorf ''sbom: parse document: %w'' [] [err_json])
      | Some doc \<Rightarrow>
          if docBOMFormat doc \<noteq> bomFormat
          then Inl (Errorf ''sbom: unsupported bomFormat %q, want %q'' [docBOMFormat doc, bomFormat] [])
          else Inr (map (componentOf ul) (elems (docComponents doc))))"

section \<open>Reading a generated document back\<close>

lemma sbom_tags [simp]:
  "\<not> keyIs ''name'' ''id''" "keyIs ''name'' ''name''" "keyIs ''ref'' ''ref''"
  "\<not> keyIs ''bom-ref'' ''type''" "keyIs ''bom-ref'' ''bom-ref''" "\<not> keyIs ''name'' ''type''" "\<not> keyIs ''name'' ''bom-ref''"
  "\<not> keyIs ''version'' ''type''" "\<not> keyIs ''version'' ''bom-ref''" "\<not> keyIs ''version'' ''name''" "keyIs ''version'' ''version''"
  "\<not> keyIs ''purl'' ''type''" "\<not> keyIs ''purl'' ''bom-ref''" "\<not> keyIs ''purl'' ''name''" "\<not> keyIs ''purl'' ''version''" "keyIs ''purl'' ''purl''"
  "\<not> keyIs ''licenses'' ''type''" "\<not> keyIs ''licenses'' ''bom-ref''" "\<not> keyIs ''licenses'' ''name''" "\<not> keyIs ''licenses'' ''version''"
  "\<not> keyIs ''licenses'' ''purl''"
  "\<not> keyIs ''source'' ''id''" "keyIs ''source'' ''source''" "\<not> keyIs ''ratings'' ''id''" "\<not> keyIs ''ratings'' ''source''" "keyIs ''ratings'' ''ratings''"
  "\<not> keyIs ''description'' ''id''" "\<not> keyIs ''description'' ''source''" "\<not> keyIs ''description'' ''ratings''" "keyIs ''description'' ''description''"
  "\<not> keyIs ''affects'' ''id''" "\<not> keyIs ''affects'' ''source''" "\<not> keyIs ''affects'' ''ratings''" "\<not> keyIs ''affects'' ''description''"
  "keyIs ''affects'' ''affects''"
  "keyIs ''bomFormat'' ''bomFormat''" "\<not> keyIs ''specVersion'' ''bomFormat''" "keyIs ''specVersion'' ''specVersion''"
  "\<not> keyIs ''version'' ''bomFormat''" "\<not> keyIs ''version'' ''specVersion''"
  "\<not> keyIs ''components'' ''bomFormat''" "\<not> keyIs ''components'' ''specVersion''" "\<not> keyIs ''components'' ''version''"
  "keyIs ''components'' ''components''"
  "\<not> keyIs ''vulnerabilities'' ''bomFormat''" "\<not> keyIs ''vulnerabilities'' ''specVersion''" "\<not> keyIs ''vulnerabilities'' ''version''"
  "\<not> keyIs ''vulnerabilities'' ''components''" "keyIs ''vulnerabilities'' ''vulnerabilities''"
  by code_simp+

lemma sbom_tags_utf8:
  "list_all utf8_ok [''id'', ''name'', ''license'', ''severity'', ''ref'', ''type'', ''bom-ref'', ''version'', ''purl'', ''licenses'', ''source'',
     ''ratings'', ''description'', ''affects'', ''bomFormat'', ''specVersion'', ''components'', ''vulnerabilities'', ''library'', ''OSV'',
     ''CycloneDX'', ''1.5'', ''component-'', ''-'', ''@'', ''low'', ''medium'', ''high'', ''critical'', ''unknown'']"
  by code_simp

lemma elems_sliceOf [simp]: "elems (sliceOf xs) = xs" "snd (sliceOf xs) = length xs" "fst (sliceOf xs) = xs" "sliceOf [] = ([], 0)"
  by (simp_all add: elems_def sliceOf_def)

lemma decodeSlice_sliceOf:
  assumes "\<And>x. x \<in> set xs \<Longrightarrow> dec zero (enc x) = Some x"
  shows "decodeSlice dec zero ([], 0) (JArr (map enc xs)) = Some (sliceOf xs)"
  using decodeSlice_fresh [of xs dec zero enc "\<lambda>x. x"] assms by (auto simp: sliceOf_def)

lemma decodeOne_field [simp]: "keyIs tag tag \<Longrightarrow> decodeOne tag dec zero (oneField tag v) = dec zero v"
  by (cases "dec zero v") (simp_all add: decodeOne_def oneField_def)

lemma decodeString_JStr [simp]: "decodeString old (JStr s) = Some s"
  by (simp add: decodeString_def)

lemma decode_license [simp]: "decodeCdxLicense zeroCdxLicense (encodeLicense l) = Some l"
  by (simp add: decodeCdxLicense_def encodeLicense_def omitString_def zeroCdxLicense_def)

lemma decode_component:
  assumes "ccLicenses c = sliceOf ls" shows "decodeComponent zeroComponent (encodeComponent c) = Some c"
  using assms decodeSlice_sliceOf [of ls "decodeOne ''license'' decodeCdxLicense" zeroCdxLicense "\<lambda>l. oneField ''license'' (encodeLicense l)"]
  by (cases c) (simp add: decodeComponent_def encodeComponent_def omitString_def omitSlice_def zeroComponent_def)

lemma decode_vulnerability:
  assumes "cvRatings v = sliceOf rs" and "cvAffects v = sliceOf as"
  shows "decodeVulnerability zeroVulnerability (encodeVulnerability v) = Some v"
  using assms decodeSlice_sliceOf [of rs "decodeOne ''severity'' decodeString" "[]" "\<lambda>s. oneField ''severity'' (JStr s)"]
    decodeSlice_sliceOf [of as "decodeOne ''ref'' decodeString" "[]" "\<lambda>s. oneField ''ref'' (JStr s)"]
  by (cases v) (simp add: decodeVulnerability_def encodeVulnerability_def omitString_def omitSlice_def zeroVulnerability_def)

lemma decode_BOM:
  assumes "docComponents d = sliceOf cs" and "docVulnerabilities d = sliceOf vs" and "docVersion d = 1"
    and "\<And>c. c \<in> set cs \<Longrightarrow> decodeComponent zeroComponent (encodeComponent c) = Some c"
    and "\<And>v. v \<in> set vs \<Longrightarrow> decodeVulnerability zeroVulnerability (encodeVulnerability v) = Some v"
  shows "decodeBOM (encodeBOM d) = Some d"
proof -
  have "decodeSlice decodeComponent zeroComponent ([], 0) (JArr (map encodeComponent cs)) = Some (sliceOf cs)"
    "decodeSlice decodeVulnerability zeroVulnerability ([], 0) (JArr (map encodeVulnerability vs)) = Some (sliceOf vs)"
    using assms(4,5) by (auto intro: decodeSlice_sliceOf)
  with assms(1-3) show ?thesis
    by (cases d) (simp add: decodeBOM_def encodeBOM_def omitSlice_def min64_def max64_def)
qed

text \<open>The loop in closed form.\<close>

definition refs :: "nat \<Rightarrow> Component list \<Rightarrow> (Component \<times> string) list" where
  "refs i cs = map (\<lambda>(j, c). (c, bomRef c j)) (enumerate i cs)"

lemma generateFrom_eq:
  "generateFrom i cs (comps, vulns) =
     (comps @ map (\<lambda>(c, r). cdxOf c r) (refs i cs), vulns @ concat (map (\<lambda>(c, r). map (vulnOf r) (cFindings c)) (refs i cs)))"
  by (induction cs arbitrary: i comps vulns) (simp_all add: refs_def Let_def)

lemma documentOf_eq:
  "documentOf cs =
     \<lparr>docBOMFormat = bomFormat, docSpecVersion = specVersion, docVersion = 1,
      docComponents = sliceOf (map (\<lambda>(c, r). cdxOf c r) (refs 0 cs)),
      docVulnerabilities = sliceOf (concat (map (\<lambda>(c, r). map (vulnOf r) (cFindings c)) (refs 0 cs)))\<rparr>"
  by (simp add: documentOf_def generateFrom_eq)

lemma refs_fst: "map fst (refs i cs) = cs"
  by (induction cs arbitrary: i) (simp_all add: refs_def)

lemma cdxOf_licenses: "\<exists>ls. ccLicenses (cdxOf c r) = sliceOf ls"
  unfolding cdxOf_def by (simp del: elems_sliceOf) blast

lemma decode_documentOf: "decodeBOM (encodeBOM (documentOf cs)) = Some (documentOf cs)"
  unfolding documentOf_eq
proof (rule decode_BOM)
  show "decodeComponent zeroComponent (encodeComponent c) = Some c" if "c \<in> set (map (\<lambda>(c, r). cdxOf c r) (refs 0 cs))" for c
    using that cdxOf_licenses decode_component by (auto simp: split_beta)
  show "decodeVulnerability zeroVulnerability (encodeVulnerability v) = Some v"
    if "v \<in> set (concat (map (\<lambda>(c, r). map (vulnOf r) (cFindings c)) (refs 0 cs)))" for v
    using that by (auto simp: vulnOf_def intro: decode_vulnerability)
qed simp_all

text \<open>The document is valid UTF-8 when its components are.\<close>

definition component_utf8 :: "Component \<Rightarrow> bool" where
  "component_utf8 c \<longleftrightarrow> utf8_ok (cName c) \<and> utf8_ok (cVersion c) \<and> utf8_ok (cPURL c) \<and> utf8_ok (lRaw (cLicense c)) \<and>
     utf8_ok (lSPDXID (cLicense c)) \<and> list_all (\<lambda>f. utf8_ok (fID f) \<and> utf8_ok (fSummary f)) (cFindings c)"

lemma utf8_ok_FormatInt: "utf8_ok (FormatInt (int n))"
proof (rule utf8_ok_ascii)
  fix c assume "c \<in> set (FormatInt (int n))"
  then have "is_digit c" using showNat_props(2) [of "int n"] by (simp add: FormatInt_def list_all_iff)
  then show "code c < 128" by (simp add: is_digit_def byte_in_def)
qed

lemma bomRef_utf8:
  assumes "component_utf8 c" shows "utf8_ok (bomRef c i)"
proof (cases "cPURL c = []")
  case True
  then have e: "bomRef c i = ''component-'' @ FormatInt (int i) @ ''-'' @ cName c @ ''@'' @ cVersion c" by (simp add: bomRef_def)
  show ?thesis unfolding e
    by (intro utf8_ok_append utf8_ok_FormatInt) (use assms sbom_tags_utf8 in \<open>simp_all add: component_utf8_def\<close>)
qed (use assms in \<open>simp add: bomRef_def component_utf8_def\<close>)

lemma refs_utf8:
  assumes "\<forall>c \<in> set cs. component_utf8 c" and "(c, r) \<in> set (refs i cs)" shows "component_utf8 c" and "utf8_ok r"
proof -
  from assms(2) obtain j where "r = bomRef c j" "(j, c) \<in> set (enumerate i cs)" by (auto simp: refs_def)
  moreover from this have "c \<in> set cs" by (auto simp: in_set_enumerate_eq)
  ultimately show "component_utf8 c" "utf8_ok r" using assms(1) bomRef_utf8 by auto
qed

definition members_ok :: "(string \<times> json) list \<Rightarrow> bool" where
  "members_ok kvs \<longleftrightarrow> (\<forall>kv \<in> set kvs. utf8_ok (fst kv) \<and> json_ok (snd kv))"

lemma members_ok_simps:
  "json_ok (JObj kvs) = members_ok kvs" "members_ok []" "members_ok (kv # kvs) \<longleftrightarrow> utf8_ok (fst kv) \<and> json_ok (snd kv) \<and> members_ok kvs"
  "members_ok (kvs @ kvs') \<longleftrightarrow> members_ok kvs \<and> members_ok kvs'"
  "members_ok (omitString tag s) \<longleftrightarrow> s = [] \<or> utf8_ok tag \<and> utf8_ok s"
  "members_ok (omitSlice tag enc sl) \<longleftrightarrow> snd sl = 0 \<or> utf8_ok tag \<and> (\<forall>x \<in> set (elems sl). json_ok (enc x))"
  "json_ok (oneField tag v) \<longleftrightarrow> utf8_ok tag \<and> json_ok v"
  by (auto simp: members_ok_def omitString_def omitSlice_def oneField_def)

lemmas sbom_ok = members_ok_simps sbom_tags_utf8 [simplified]

lemma json_ok_component: "component_utf8 c \<Longrightarrow> utf8_ok r \<Longrightarrow> json_ok (encodeComponent (cdxOf c r))"
  by (simp add: encodeComponent_def cdxOf_def component_utf8_def encodeLicense_def sbom_ok del: json_ok.simps(4))

lemma severityString_utf8: "utf8_ok (severityString s)"
  by (simp add: severityString_def sbom_ok)

lemma json_ok_vulnerability: "utf8_ok (fID f) \<Longrightarrow> utf8_ok (fSummary f) \<Longrightarrow> utf8_ok r \<Longrightarrow> json_ok (encodeVulnerability (vulnOf r f))"
  by (simp add: encodeVulnerability_def vulnOf_def sbom_ok severityString_utf8 del: json_ok.simps(4))

lemma json_ok_documentOf:
  assumes "\<forall>c \<in> set cs. component_utf8 c" shows "json_ok (encodeBOM (documentOf cs))"
proof -
  have "\<forall>x \<in> set (map (\<lambda>(c, r). cdxOf c r) (refs 0 cs)). json_ok (encodeComponent x)"
    using refs_utf8 [OF assms] json_ok_component by auto
  moreover have "\<forall>x \<in> set (concat (map (\<lambda>(c, r). map (vulnOf r) (cFindings c)) (refs 0 cs))). json_ok (encodeVulnerability x)"
    using refs_utf8 [OF assms] by (fastforce simp: component_utf8_def list_all_iff intro!: json_ok_vulnerability)
  ultimately show ?thesis
    by (auto simp: encodeBOM_def documentOf_eq bomFormat_def specVersion_def sbom_ok simp del: json_ok.simps(4))
qed

text \<open>What reading a component back gives.\<close>

definition readBack :: "(int \<Rightarrow> int) \<Rightarrow> Component \<Rightarrow> Component" where
  "readBack ul c =
     \<lparr>cName = cName c, cVersion = cVersion c, cPURL = cPURL c,
      cLicense =
        (if lRaw (cLicense c) = [] then \<lparr>lRaw = [], lSPDXID = []\<rparr>
         else if lSPDXID (cLicense c) \<noteq> [] then \<lparr>lRaw = lSPDXID (cLicense c), lSPDXID = lSPDXID (cLicense c)\<rparr>
         else \<lparr>lRaw = lRaw (cLicense c), lSPDXID = NormalizeSPDX ul (lRaw (cLicense c))\<rparr>),
      cFindings = []\<rparr>"

lemma componentOf_cdxOf: "componentOf ul (cdxOf c r) = readBack ul c"
  by (simp add: componentOf_def cdxOf_def readBack_def licenseFromCDX_def noLicense_def Detected_def Normalized_def elems_def)

lemma readBack_SPDXID: "cLicense c = newResult ul raw \<Longrightarrow> lSPDXID (cLicense (readBack ul c)) = lSPDXID (cLicense c)"
  by (simp add: readBack_def newResult_def Let_def noLicense_def)

lemma Ingest_Generate:
  assumes "\<forall>c \<in> set cs. component_utf8 c"
  shows "\<exists>data. Generate cs = Inr data \<and> Ingest ul data = Inr (map (readBack ul) cs)"
proof -
  have "map (\<lambda>(c, r). componentOf ul (cdxOf c r)) (refs 0 cs) = map (readBack ul) (map fst (refs 0 cs))"
    by (simp add: componentOf_cdxOf case_prod_beta')
  then have "map (componentOf ul) (elems (docComponents (documentOf cs))) = map (readBack ul) cs"
    by (simp only: refs_fst) (simp add: documentOf_eq comp_def case_prod_beta')
  with json_Parse_MarshalIndent [OF json_ok_documentOf [OF assms]] show ?thesis
    by (simp add: Generate_def Ingest_def decode_documentOf) (simp add: documentOf_eq)
qed

text \<open>
  C37. What a generated document gives back: for components of valid UTF-8, reading it returns every
  component in order with its name, version and package URL; an undetected license is absent, a
  normalised one has its identifier for its text, another keeps its text and is normalised anew; the
  findings are not read. A license that the detection produced keeps its identifier, so a license rule
  decides the same about the component that was read back.
\<close>

theorem sbom_roundtrip:
  assumes "\<forall>c \<in> set cs. component_utf8 c"
  shows "\<exists>data back. Generate cs = Inr data \<and> Ingest ul data = Inr back \<and>
    back = map (\<lambda>c. \<lparr>cName = cName c, cVersion = cVersion c, cPURL = cPURL c,
      cLicense =
        (if lRaw (cLicense c) = [] then \<lparr>lRaw = [], lSPDXID = []\<rparr>
         else if lSPDXID (cLicense c) \<noteq> [] then \<lparr>lRaw = lSPDXID (cLicense c), lSPDXID = lSPDXID (cLicense c)\<rparr>
         else \<lparr>lRaw = lRaw (cLicense c), lSPDXID = NormalizeSPDX ul (lRaw (cLicense c))\<rparr>),
      cFindings = []\<rparr>) cs \<and>
    (\<forall>i < length cs. \<forall>raw. cLicense (cs ! i) = newResult ul raw \<longrightarrow> lSPDXID (cLicense (back ! i)) = lSPDXID (cLicense (cs ! i)))"
proof -
  obtain data where "Generate cs = Inr data" "Ingest ul data = Inr (map (readBack ul) cs)"
    using Ingest_Generate [OF assms, of ul] by blast
  moreover have "\<forall>i < length cs. \<forall>raw. cLicense (cs ! i) = newResult ul raw \<longrightarrow>
      lSPDXID (cLicense (map (readBack ul) cs ! i)) = lSPDXID (cLicense (cs ! i))"
    by (simp add: readBack_SPDXID)
  ultimately show ?thesis unfolding readBack_def [abs_def] by blast
qed

definition witness_components :: "Component list" where
  "witness_components =
     [\<lparr>cName = ''lodash'', cVersion = ''4.17.21'', cPURL = ''pkg:npm/lodash@4.17.21'',
       cLicense = \<lparr>lRaw = ''MIT License'', lSPDXID = ''MIT''\<rparr>, cFindings = [\<lparr>fID = ''GHSA-1'', fSummary = ''s'', fSeverity = SeverityHigh\<rparr>]\<rparr>,
      \<lparr>cName = ''x'', cVersion = ''1'', cPURL = [], cLicense = noLicense, cFindings = []\<rparr>]"

theorem sbom_roundtrip_witness:
  "\<exists>data back. Generate witness_components = Inr data \<and> Ingest (\<lambda>r. r) data = Inr back \<and>
     map (\<lambda>c. (cName c, lSPDXID (cLicense c), lRaw (cLicense c))) back = [(''lodash'', ''MIT'', ''MIT''), (''x'', [], [])]"
proof -
  have "\<forall>c \<in> set witness_components. component_utf8 c" by code_simp
  from sbom_roundtrip [OF this, of "\<lambda>r. r"] show ?thesis by (auto simp: witness_components_def noLicense_def)
qed

section \<open>References\<close>

lemma takeWhile_digits: "takeWhile is_digit (FormatInt (int n) @ CHR ''-'' # t) = FormatInt (int n)"
  using showNat_props(2) [of "int n"] by (subst takeWhile_append2) (auto simp: FormatInt_def list_all_iff is_digit_def byte_in_def code_def)

lemma FormatInt_inj:
  assumes "FormatInt (int m) = FormatInt (int n)" shows "m = n"
proof -
  have "showNat (int m) = showNat (int n)" using assms by (simp add: FormatInt_def)
  moreover have "digits_val (showNat (int k)) = int k" for k by (rule showNat_props(3)) simp
  ultimately have "int m = int n" by metis
  then show ?thesis by simp
qed

lemma bomRef_eq_iff:
  assumes "\<not> HasPrefix (cPURL c) ''component-''" and "\<not> HasPrefix (cPURL d) ''component-''" and "i \<noteq> j"
  shows "bomRef c i = bomRef d j \<longleftrightarrow> cPURL c \<noteq> [] \<and> cPURL c = cPURL d"
proof -
  have "FormatInt (int i) @ CHR ''-'' # t \<noteq> FormatInt (int j) @ CHR ''-'' # u" for t u
    using assms(3) FormatInt_inj takeWhile_digits by metis
  moreover have "''component-'' @ t \<noteq> cPURL c" "''component-'' @ t \<noteq> cPURL d" for t
    using assms(1,2) by (metis append_eq_conv_conj HasPrefix_def)+
  ultimately show ?thesis unfolding bomRef_def by (metis append.assoc append_Cons append_Nil same_append_eq)
qed

lemma distinct_filter_pairs: "distinct (filter P xs) \<longleftrightarrow> sorted_wrt (\<lambda>x y. P x \<longrightarrow> x \<noteq> y) xs"
  by (induction xs) auto

lemma refs_distinct:
  assumes "\<forall>c \<in> set cs. \<not> HasPrefix (cPURL c) ''component-''"
  shows "distinct (map snd (refs 0 cs)) \<longleftrightarrow> distinct (filter (\<lambda>p. p \<noteq> []) (map cPURL cs))"
proof -
  have l: "length (refs 0 cs) = length cs" by (simp add: refs_def)
  have n: "map snd (refs 0 cs) ! i = bomRef (cs ! i) i" if "i < length cs" for i
    using that by (simp add: refs_def nth_enumerate_eq)
  have b: "bomRef (cs ! i) i \<noteq> bomRef (cs ! j) j \<longleftrightarrow> (cPURL (cs ! i) \<noteq> [] \<longrightarrow> cPURL (cs ! i) \<noteq> cPURL (cs ! j))"
    if "i < j" "j < length cs" for i j
    using bomRef_eq_iff [of "cs ! i" "cs ! j" i j] assms that by auto
  have "distinct (map snd (refs 0 cs)) \<longleftrightarrow> sorted_wrt (\<noteq>) (map snd (refs 0 cs))"
    using distinct_filter_pairs [of "\<lambda>_. True" "map snd (refs 0 cs)"] by simp
  also have "\<dots> \<longleftrightarrow> (\<forall>i j. i < j \<longrightarrow> j < length cs \<longrightarrow> bomRef (cs ! i) i \<noteq> bomRef (cs ! j) j)"
    unfolding sorted_wrt_iff_nth_less length_map l using n by simp
  also have "\<dots> \<longleftrightarrow> (\<forall>i j. i < j \<longrightarrow> j < length cs \<longrightarrow> (cPURL (cs ! i) \<noteq> [] \<longrightarrow> cPURL (cs ! i) \<noteq> cPURL (cs ! j)))"
    using b by blast
  also have "\<dots> \<longleftrightarrow> distinct (filter (\<lambda>p. p \<noteq> []) (map cPURL cs))"
    by (simp add: distinct_filter_pairs sorted_wrt_iff_nth_less)
  finally show ?thesis .
qed

lemma filter_affects:
  assumes "distinct (map snd rs)" and "(c, r) \<in> set rs"
  shows "filter (\<lambda>v. elems (cvAffects v) = [r]) (concat (map (\<lambda>(c, r). map (vulnOf r) (cFindings c)) rs)) = map (vulnOf r) (cFindings c)"
proof -
  have other: "filter (\<lambda>v. elems (cvAffects v) = [r]) (map (vulnOf r') fs) = (if r' = r then map (vulnOf r') fs else [])" for r' fs
    by (simp add: filter_empty_conv filter_id_conv vulnOf_def)
  have none: "filter (\<lambda>v. elems (cvAffects v) = [r]) (concat (map (\<lambda>(c, r). map (vulnOf r) (cFindings c)) rs')) = []"
    if "r \<notin> snd ` set rs'" for rs'
    using that by (induction rs') (auto simp: other)
  have "r \<in> snd ` set rs'" if "(c, r) \<in> set rs'" for rs' using that by force
  with assms show ?thesis by (induction rs) (auto simp: other none)
qed

text \<open>
  C38. The references of a generated document: when no package URL begins like a synthesised reference, the
  components have different references exactly when no two of them have the same package URL, and then
  the vulnerabilities that refer to a component are the findings of that component, in order, with
  identifier, summary and severity. Two components with one package URL share a reference.
\<close>

theorem sbom_references:
  assumes "\<forall>c \<in> set cs. \<not> HasPrefix (cPURL c) ''component-''"
  shows "(distinct (map ccBOMRef (elems (docComponents (documentOf cs)))) \<longleftrightarrow> distinct (filter (\<lambda>p. p \<noteq> []) (map cPURL cs))) \<and>
    (\<forall>i < length cs. distinct (filter (\<lambda>p. p \<noteq> []) (map cPURL cs)) \<longrightarrow>
       map (\<lambda>v. (cvID v, cvDescription v, elems (cvRatings v)))
         (filter (\<lambda>v. elems (cvAffects v) = [ccBOMRef (elems (docComponents (documentOf cs)) ! i)]) (elems (docVulnerabilities (documentOf cs)))) =
       map (\<lambda>f. (fID f, fSummary f, [severityString (fSeverity f)])) (cFindings (cs ! i)))"
proof -
  have r: "map ccBOMRef (elems (docComponents (documentOf cs))) = map snd (refs 0 cs)"
    by (simp add: documentOf_eq cdxOf_def comp_def case_prod_beta')
  have "map (\<lambda>v. (cvID v, cvDescription v, elems (cvRatings v)))
         (filter (\<lambda>v. elems (cvAffects v) = [ccBOMRef (elems (docComponents (documentOf cs)) ! i)]) (elems (docVulnerabilities (documentOf cs)))) =
       map (\<lambda>f. (fID f, fSummary f, [severityString (fSeverity f)])) (cFindings (cs ! i))"
    if "i < length cs" "distinct (map snd (refs 0 cs))" for i
  proof -
    have "(cs ! i, bomRef (cs ! i) i) \<in> set (refs 0 cs)"
      using that(1) by (auto simp: refs_def in_set_enumerate_eq image_iff intro!: bexI [of _ "(i, cs ! i)"])
    moreover have "ccBOMRef (elems (docComponents (documentOf cs)) ! i) = bomRef (cs ! i) i"
      using that(1) by (simp add: documentOf_eq refs_def nth_enumerate_eq cdxOf_def)
    ultimately show ?thesis
      using filter_affects [OF that(2)] by (simp add: documentOf_eq vulnOf_def comp_def)
  qed
  with r refs_distinct [OF assms] show ?thesis by simp
qed

theorem sbom_references_witness:
  "map ccBOMRef (elems (docComponents (documentOf witness_components))) = [''pkg:npm/lodash@4.17.21'', ''component-1-x@1''] \<and>
   map cvID (filter (\<lambda>v. elems (cvAffects v) = [''pkg:npm/lodash@4.17.21'']) (elems (docVulnerabilities (documentOf witness_components)))) = [''GHSA-1'']"
proof -
  have p: "\<forall>c \<in> set witness_components. \<not> HasPrefix (cPURL c) ''component-''" by code_simp
  have d: "distinct (filter (\<lambda>p. p \<noteq> []) (map cPURL witness_components))" "0 < length witness_components" by code_simp+
  have r: "map ccBOMRef (elems (docComponents (documentOf witness_components))) = [''pkg:npm/lodash@4.17.21'', ''component-1-x@1'']" by code_simp
  then have "ccBOMRef (elems (docComponents (documentOf witness_components)) ! 0) = ''pkg:npm/lodash@4.17.21''"
    by (cases "elems (docComponents (documentOf witness_components))") auto
  with conjunct2 [OF sbom_references [OF p], rule_format, OF d(2,1)]
  have "map (\<lambda>v. (cvID v, cvDescription v, elems (cvRatings v)))
      (filter (\<lambda>v. elems (cvAffects v) = [''pkg:npm/lodash@4.17.21'']) (elems (docVulnerabilities (documentOf witness_components)))) =
      [(''GHSA-1'', ''s'', [''high''])]"
    by (simp add: witness_components_def severityString_def severity_defs)
  from arg_cong [OF this, of "map fst"] r show ?thesis by (simp add: comp_def)
qed

end
