(* ===== verification/Go_Xml.thy ===== *)
theory Go_Xml
  imports Go_Json
begin

text \<open>
  The part of Go's \<^verbatim>\<open>encoding/xml\<close> the program uses: the strict decoder (names, character data with
  its entities and its normalisation of line ends, comments, processing instructions, directives,
  CDATA sections, the stack of open elements) and \<^verbatim>\<open>xml.Unmarshal\<close>'s way through an element.
  \<open>xml_tokens\<close> is the list of the tokens up to the first error or the end of the input; as the decoder
  does not depend on who asks for the tokens, \<^verbatim>\<open>Unmarshal\<close> is a reader of that list, and a list that
  ends too early is an error to it. Left out are the translation of name spaces, which changes no
  local name, and the nesting limit of 10000. The Unicode tables of the characters a name may start
  with and continue with, outside ASCII, are parameters.

  The second half has a reference: documents as trees with their printed text, and the lemma
  that the decoder reads the tokens of the tree back (\<open>xml_tokens_Print\<close>).
\<close>

section \<open>Names\<close>

record NameTables =
  ntFirst :: "int \<Rightarrow> bool" \<comment> \<open>the non-ASCII runes of the table \<^verbatim>\<open>first\<close>\<close>
  ntSecond :: "int \<Rightarrow> bool" \<comment> \<open>the non-ASCII runes of the table \<^verbatim>\<open>second\<close>\<close>

definition isLetterByte :: "char \<Rightarrow> bool" where
  "isLetterByte c \<longleftrightarrow> byte_in 65 90 c \<or> byte_in 97 122 c"

text \<open>A byte \<^verbatim>\<open>readName\<close> goes on with: \<^verbatim>\<open>isNameByte\<close>, or not ASCII.\<close>

definition isNamePart :: "char \<Rightarrow> bool" where
  "isNamePart c \<longleftrightarrow> code c \<ge> 128 \<or> isLetterByte c \<or> is_digit c \<or> c \<in> {CHR ''_'', CHR '':'', CHR ''.'', CHR ''-''}"

definition isFirstRune :: "NameTables \<Rightarrow> int \<Rightarrow> bool" where
  "isFirstRune nt r \<longleftrightarrow> r = 58 \<or> r = 95 \<or> (65 \<le> r \<and> r \<le> 90) \<or> (97 \<le> r \<and> r \<le> 122) \<or> (r \<ge> 128 \<and> ntFirst nt r)"

definition isSecondRune :: "NameTables \<Rightarrow> int \<Rightarrow> bool" where
  "isSecondRune nt r \<longleftrightarrow> r = 45 \<or> r = 46 \<or> (48 \<le> r \<and> r \<le> 57) \<or> (r \<ge> 128 \<and> ntSecond nt r)"

definition validRune :: "int \<times> string \<Rightarrow> bool" where
  "validRune p \<longleftrightarrow> \<not> (fst p = RuneError \<and> length (snd p) = 1)"

definition isName :: "NameTables \<Rightarrow> string \<Rightarrow> bool" where
  "isName nt s =
     (let rs = Runes s
      in rs \<noteq> [] \<and> list_all validRune rs \<and> isFirstRune nt (fst (hd rs))
         \<and> list_all (\<lambda>p. isFirstRune nt (fst p) \<or> isSecondRune nt (fst p)) (tl rs))"

text \<open>\<^verbatim>\<open>readName\<close>: a name at the very end of the input is an error.\<close>

definition readName :: "string \<Rightarrow> (string \<times> string) option" where
  "readName s =
     (let n = takeWhile isNamePart s; t = dropWhile isNamePart s
      in if n = [] \<or> t = [] then None else Some (n, t))"

definition xml_name :: "NameTables \<Rightarrow> string \<Rightarrow> (string \<times> string) option" where
  "xml_name nt s =
     (case readName s of
        None \<Rightarrow> None
      | Some (n, t) \<Rightarrow> if isName nt n then Some (n, t) else None)"

type_synonym xname = "string \<times> string" \<comment> \<open>\<^verbatim>\<open>Space\<close> and \<^verbatim>\<open>Local\<close>\<close>

definition splitName :: "string \<Rightarrow> xname" where
  "splitName s =
     (case Cut s '':'' of
        None \<Rightarrow> ([], s)
      | Some (space, loc) \<Rightarrow> if space = [] \<or> loc = [] then ([], s) else (space, loc))"

definition nsname :: "NameTables \<Rightarrow> string \<Rightarrow> (xname \<times> string) option" where
  "nsname nt s =
     (case xml_name nt s of
        None \<Rightarrow> None
      | Some (n, t) \<Rightarrow> if count_list n (CHR '':'') > 1 then None else Some (splitName n, t))"

section \<open>Character data\<close>

definition isInCharacterRange :: "int \<Rightarrow> bool" where
  "isInCharacterRange r \<longleftrightarrow>
     r = 9 \<or> r = 10 \<or> r = 13 \<or> (32 \<le> r \<and> r \<le> 55295) \<or> (57344 \<le> r \<and> r \<le> 65533) \<or> (65536 \<le> r \<and> r \<le> 1114111)"

definition isDigitOf :: "int \<Rightarrow> char \<Rightarrow> bool" where
  "isDigitOf base c \<longleftrightarrow> (case hexVal c of None \<Rightarrow> False | Some v \<Rightarrow> v < base)"

definition digitsOf :: "int \<Rightarrow> string \<Rightarrow> int" where
  "digitsOf base s = foldl (\<lambda>n c. n * base + the (hexVal c)) 0 s"

text \<open>\<^verbatim>\<open>string(rune(n))\<close>.\<close>

definition runeText :: "int \<Rightarrow> string" where
  "runeText r = EncodeRune (if isSurrogate r then RuneError else r)"

definition entityTable :: "(string \<times> string) list" where
  "entityTable = [(''lt'', ''<''), (''gt'', ''>''), (''amp'', ''&''), (''apos'', [CHR 0x27]), (''quot'', [CHR 0x22])]"

text \<open>The text a reference stands for, and what follows it; the argument starts after \<^verbatim>\<open>&#\<close> or \<^verbatim>\<open>&\<close>.\<close>

definition charRef :: "string \<Rightarrow> (string \<times> string) option" where
  "charRef s =
     (let hex = HasPrefix s ''x''; base = (if hex then 16 else 10);
          u = (if hex then tl s else s);
          ds = takeWhile (isDigitOf base) u
      in case dropWhile (isDigitOf base) u of
           [] \<Rightarrow> None
         | c # t \<Rightarrow>
             if c = CHR '';'' \<and> ds \<noteq> [] \<and> digitsOf base ds \<le> 1114111
             then Some (runeText (digitsOf base ds), t) else None)"

definition xml_reference :: "string \<Rightarrow> (string \<times> string) option" where
  "xml_reference s =
     (case s of
        [] \<Rightarrow> None
      | b # u \<Rightarrow>
          if b = CHR ''#'' then charRef u
          else (case readName s of
                  Some (n, c # t) \<Rightarrow>
                    if c = CHR '';'' then map_option (\<lambda>x. (x, t)) (map_of entityTable n) else None
                | _ \<Rightarrow> None))"

lemma dropWhile_Cons_shorter: "dropWhile P s = c # t \<Longrightarrow> length t < length s"
  using length_dropWhile_le[of P s] by simp

lemma charRef_shorter: "charRef s = Some (x, t) \<Longrightarrow> length t < length s"
  by (auto simp: charRef_def Let_def split: list.splits if_splits dest!: dropWhile_Cons_shorter)

lemma readName_shorter: "readName s = Some (n, t) \<Longrightarrow> length t < length s"
  by (cases s) (auto simp: readName_def Let_def less_Suc_eq_le length_dropWhile_le split: if_splits)

lemma reference_shorter: "xml_reference s = Some (x, t) \<Longrightarrow> length t < length s"
  by (auto simp: xml_reference_def dest!: charRef_shorter readName_shorter split: list.splits if_splits option.splits)


text \<open>
  The loop of \<^verbatim>\<open>Decoder.text\<close>: \<open>quote\<close> is the quote an attribute value ends at, \<open>b0\<close> and \<open>b1\<close> are
  the two bytes before. The closing \<^verbatim>\<open>]]\<close> of a CDATA section is still part of the result.
\<close>

function textLoop :: "char option \<Rightarrow> bool \<Rightarrow> char \<Rightarrow> char \<Rightarrow> string \<Rightarrow> (string \<times> string) option" where
  "textLoop quote cdata b0 b1 [] = (if cdata then None else Some ([], []))"
| "textLoop quote cdata b0 b1 (b # t) =
     (if quote = None \<and> b0 = CHR '']'' \<and> b1 = CHR '']'' \<and> b = CHR ''>''
      then (if cdata then Some ([], t) else None)
      else if b = CHR ''<'' \<and> \<not> cdata then (if quote = None then Some ([], b # t) else None)
      else if quote = Some b then Some ([], t)
      else if b = CHR ''&'' \<and> \<not> cdata
      then (case xml_reference t of
              None \<Rightarrow> None
            | Some (x, u) \<Rightarrow> map_option (apfst (append x)) (textLoop quote cdata (CHR 0x00) (CHR 0x00) u))
      else map_option
             (apfst (append (if b = CHR 0x0D then [CHR 0x0A]
                             else if b1 = CHR 0x0D \<and> b = CHR 0x0A then [] else [b])))
             (textLoop quote cdata b1 b t))"
  by pat_completeness auto
termination
  by (relation "measure (\<lambda>(_, _, _, _, s). length s)") (auto dest: reference_shorter)

declare textLoop.simps(2) [simp del]

definition xml_text :: "char option \<Rightarrow> bool \<Rightarrow> string \<Rightarrow> (string \<times> string) option" where
  "xml_text quote cdata s =
     (case textLoop quote cdata (CHR 0x00) (CHR 0x00) s of
        None \<Rightarrow> None
      | Some (buf, t) \<Rightarrow>
          (let data = (if cdata then take (length buf - 2) buf else buf)
           in if list_all (\<lambda>p. validRune p \<and> isInCharacterRange (fst p)) (Runes data)
              then Some (data, t) else None))"

lemma textLoop_length: "textLoop quote cdata b0 b1 s = Some (x, t) \<Longrightarrow> length t \<le> length s"
proof (induction quote cdata b0 b1 s arbitrary: x t rule: textLoop.induct)
  case (2 quote cdata b0 b1 b s)
  then show ?case
    by (auto simp: textLoop.simps(2) split: if_splits option.splits dest!: reference_shorter)
      (metis Suc_leD le_trans less_or_eq_imp_le not_less_eq_eq | fastforce)+
qed (auto split: if_splits)

lemma xml_text_length: "xml_text quote cdata s = Some (x, t) \<Longrightarrow> length t \<le> length s"
  by (auto simp: xml_text_def Let_def split: option.splits if_splits dest!: textLoop_length)

section \<open>Tokens\<close>

datatype xml_token =
    StartElement xname "(xname \<times> string) list"
  | EndElement xname
  | CharData string
  | Comment string
  | ProcInst string string
  | Directive

text \<open>A comment after \<^verbatim>\<open><!--\<close>: the first \<^verbatim>\<open>--\<close> must be the one of its end.\<close>

definition xml_comment :: "string \<Rightarrow> (string \<times> string) option" where
  "xml_comment s =
     (case Cut s ''--'' of
        Some (body, c # t) \<Rightarrow> if c = CHR ''>'' then Some (body, t) else None
      | _ \<Rightarrow> None)"

text \<open>
  What follows a directive; \<open>atHead\<close> tells the head of its loop from the label \<^verbatim>\<open>HandleB\<close>, which does
  not ask whether the directive ends.
\<close>

function xml_directive :: "bool \<Rightarrow> char option \<Rightarrow> int \<Rightarrow> string \<Rightarrow> string option" where
  "xml_directive atHead inquote depth [] = None"
| "xml_directive atHead inquote depth (b # t) =
     (if atHead \<and> inquote = None \<and> b = CHR ''>'' \<and> depth = 0 then Some t
      else if inquote = Some b then xml_directive True None depth t
      else if inquote \<noteq> None then xml_directive True inquote depth t
      else if b = CHR 0x27 \<or> b = CHR 0x22 then xml_directive True (Some b) depth t
      else if b = CHR ''>'' then xml_directive True None (depth - 1) t
      else if b = CHR ''<'' then
        (if HasPrefix t ''!--''
         then (case Index (drop 3 t) ''-->'' of
                 None \<Rightarrow> None
               | Some i \<Rightarrow> xml_directive True None depth (drop (i + 6) t))
         else xml_directive False None (depth + 1)
                (drop (if HasPrefix t ''!-'' then 2 else if HasPrefix t ''!'' then 1 else 0) t))
      else xml_directive True None depth t)"
  by pat_completeness auto
termination
  by (relation "measure (\<lambda>(_, _, _, s). length s)") auto

text \<open>\<^verbatim>\<open>procInst\<close>: the value of a pseudo attribute of a processing instruction.\<close>

function procInst :: "string \<Rightarrow> string \<Rightarrow> string" where
  "procInst param s =
     (case Cut s (param @ ''='') of
        Some (_, c # t) \<Rightarrow>
          if c = CHR 0x27 \<or> c = CHR 0x22
          then (case Cut t [c] of None \<Rightarrow> [] | Some (v, _) \<Rightarrow> v)
          else procInst param t
      | _ \<Rightarrow> [])"
  by pat_completeness auto
termination
  by (relation "measure (\<lambda>(_, s). length s)") (auto dest: arg_cong[where f = length] simp: Cut_def split: option.splits)

declare procInst.simps [simp del]

lemma nsname_shorter: "nsname nt s = Some (n, t) \<Longrightarrow> length t < length s"
  by (auto simp: nsname_def xml_name_def split: option.splits if_splits dest: readName_shorter)

lemma skipWs_length: "length (skipWs s) \<le> length s"
  unfolding skipWs_def by (rule length_dropWhile_le)

text \<open>One attribute at the head of the input: its name, \<^verbatim>\<open>=\<close> and its quoted value.\<close>

definition xml_attribute :: "NameTables \<Rightarrow> string \<Rightarrow> ((xname \<times> string) \<times> string) option" where
  "xml_attribute nt s =
     (case nsname nt s of
        None \<Rightarrow> None
      | Some (n, t) \<Rightarrow>
          (case skipWs t of
             [] \<Rightarrow> None
           | e # u \<Rightarrow>
               (case skipWs u of
                  [] \<Rightarrow> None
                | q # v \<Rightarrow>
                    if e = CHR ''='' \<and> (q = CHR 0x22 \<or> q = CHR 0x27)
                    then map_option (apfst (Pair n)) (xml_text (Some q) False v) else None)))"

lemma xml_attribute_shorter: "xml_attribute nt s = Some (a, t) \<Longrightarrow> length t < length s"
proof -
  assume "xml_attribute nt s = Some (a, t)"
  then obtain n u e v q w x where "nsname nt s = Some (n, u)" "skipWs u = e # v" "skipWs v = q # w"
    "xml_text (Some q) False w = Some (x, t)"
    by (auto simp: xml_attribute_def split: option.splits list.splits if_splits)
  then show ?thesis
    using nsname_shorter[of nt s n u] skipWs_length[of u] skipWs_length[of v]
      xml_text_length[of "Some q" False w x t] by simp
qed

text \<open>The attributes of a start element, whether it is an empty one, and what follows.\<close>

function xml_attributes :: "NameTables \<Rightarrow> string \<Rightarrow> ((xname \<times> string) list \<times> bool \<times> string) option" where
  "xml_attributes nt s =
     (case skipWs s of
        [] \<Rightarrow> None
      | b # t \<Rightarrow>
          if b = CHR ''/'' then
            (case t of
               [] \<Rightarrow> None
             | c # u \<Rightarrow> if c = CHR ''>'' then Some ([], True, u) else None)
          else if b = CHR ''>'' then Some ([], False, t)
          else (case xml_attribute nt (b # t) of
                  None \<Rightarrow> None
                | Some (a, u) \<Rightarrow> map_option (apfst (Cons a)) (xml_attributes nt u)))"
  by pat_completeness auto
termination
proof (relation "measure (\<lambda>(_, s). length s)", goal_cases)
  case (2 nt s b t p a u)
  then show ?case
    using skipWs_length[of s] xml_attribute_shorter[of nt "b # t" a u] by simp
qed simp

declare xml_attributes.simps [simp del]

lemma xml_attributes_length: "xml_attributes nt s = Some (as, e, t) \<Longrightarrow> length t < length s"
proof (induction nt s arbitrary: as e t rule: xml_attributes.induct)
  case (1 nt s)
  then obtain b r where r: "skipWs s = b # r"
    by (auto simp: xml_attributes.simps[of nt s] split: list.splits)
  then have len: "length r < length s"
    using skipWs_length[of s] by simp
  show ?case
  proof (cases "b = CHR ''/'' \<or> b = CHR ''>''")
    case True
    then show ?thesis
      using "1.prems" r len by (auto simp: xml_attributes.simps[of nt s] split: list.splits if_splits)
  next
    case False
    then obtain a u as' where a: "xml_attribute nt (b # r) = Some (a, u)"
      and u: "xml_attributes nt u = Some (as', e, t)"
      using "1.prems" r by (auto simp: xml_attributes.simps[of nt s] split: option.splits)
    have "length t < length u"
      using "1.IH"[OF r _ _ a refl u] False by simp
    then show ?thesis
      using xml_attribute_shorter[OF a] r skipWs_length[of s] by simp
  qed
qed

text \<open>
  A \<^verbatim>\<open>Decoder\<close>: the unread input, the names of the open elements and the end element an empty
  element still owes (\<^verbatim>\<open>needClose\<close> with \<^verbatim>\<open>toClose\<close>).
\<close>

record decoder =
  dInput :: string
  dStk :: "xname list"
  dToClose :: "xname option"

definition NewDecoder :: "string \<Rightarrow> decoder" where
  "NewDecoder data = \<lparr>dInput = data, dStk = [], dToClose = None\<rparr>"

text \<open>The cases of \<^verbatim>\<open>rawToken\<close> after \<^verbatim>\<open><\<close>: the token and the rest, and whether it is an empty element.\<close>

definition rawEnd :: "NameTables \<Rightarrow> string \<Rightarrow> (xml_token \<times> string) option" where
  "rawEnd nt s =
     (case nsname nt s of
        None \<Rightarrow> None
      | Some (n, t) \<Rightarrow>
          (case skipWs t of
             [] \<Rightarrow> None
           | c # u \<Rightarrow> if c = CHR ''>'' then Some (EndElement n, u) else None))"

definition procInstOk :: "string \<Rightarrow> string \<Rightarrow> bool" where
  "procInstOk target content \<longleftrightarrow>
     target = ''xml'' \<longrightarrow>
       procInst ''version'' content \<in> {[], ''1.0''}
       \<and> (procInst ''encoding'' content = [] \<or> keyIs (procInst ''encoding'' content) ''utf-8'')"

definition rawProcInst :: "NameTables \<Rightarrow> string \<Rightarrow> (xml_token \<times> string) option" where
  "rawProcInst nt s =
     (case xml_name nt s of
        None \<Rightarrow> None
      | Some (target, t) \<Rightarrow>
          (case Cut (skipWs t) ''?>'' of
             None \<Rightarrow> None
           | Some (content, u) \<Rightarrow>
               if procInstOk target content then Some (ProcInst target content, u) else None))"

definition rawBang :: "string \<Rightarrow> (xml_token \<times> string) option" where
  "rawBang s =
     (case s of
        [] \<Rightarrow> None
      | b # t \<Rightarrow>
          if b = CHR ''-'' then
            (if HasPrefix t ''-'' then map_option (apfst Comment) (xml_comment (tl t)) else None)
          else if b = CHR ''['' then
            (case CutPrefix t ''CDATA['' of
               None \<Rightarrow> None
             | Some u \<Rightarrow> map_option (apfst CharData) (xml_text None True u))
          else map_option (Pair Directive) (xml_directive True None 0 t))"

definition rawStart :: "NameTables \<Rightarrow> string \<Rightarrow> (xname \<times> (xname \<times> string) list \<times> bool \<times> string) option" where
  "rawStart nt s =
     (case nsname nt s of
        None \<Rightarrow> None
      | Some (n, t) \<Rightarrow> map_option (Pair n) (xml_attributes nt t))"

definition rawToken :: "NameTables \<Rightarrow> decoder \<Rightarrow> (xml_token \<times> decoder) option" where
  "rawToken nt d =
     (case dToClose d of
        Some n \<Rightarrow> Some (EndElement n, d\<lparr>dToClose := None\<rparr>)
      | None \<Rightarrow>
          let plain = map_option (apsnd (\<lambda>t. d\<lparr>dInput := t\<rparr>)) in
          (case dInput d of
             [] \<Rightarrow> None
           | b # s \<Rightarrow>
               if b \<noteq> CHR ''<'' then plain (map_option (apfst CharData) (xml_text None False (b # s)))
               else (case s of
                       [] \<Rightarrow> None
                     | c # t \<Rightarrow>
                         if c = CHR ''/'' then plain (rawEnd nt t)
                         else if c = CHR ''?'' then plain (rawProcInst nt t)
                         else if c = CHR ''!'' then plain (rawBang t)
                         else map_option
                                (\<lambda>(n, as, isEmpty, u).
                                   (StartElement n as, d\<lparr>dInput := u, dToClose := if isEmpty then Some n else None\<rparr>))
                                (rawStart nt s))))"

text \<open>\<^verbatim>\<open>Token\<close>, with \<^verbatim>\<open>pushElement\<close> and \<^verbatim>\<open>popElement\<close>.\<close>

definition Token :: "NameTables \<Rightarrow> decoder \<Rightarrow> (xml_token \<times> decoder) option" where
  "Token nt d =
     (case rawToken nt d of
        Some (StartElement n as, d') \<Rightarrow> Some (StartElement n as, d'\<lparr>dStk := n # dStk d'\<rparr>)
      | Some (EndElement n, d') \<Rightarrow>
          (case dStk d' of
             [] \<Rightarrow> None
           | m # stk \<Rightarrow> if m = n then Some (EndElement n, d'\<lparr>dStk := stk\<rparr>) else None)
      | r \<Rightarrow> r)"

text \<open>Every token uses up input, or the end element owed.\<close>

definition dsize :: "decoder \<Rightarrow> nat" where
  "dsize d = length (dInput d) + (case dToClose d of None \<Rightarrow> 0 | Some _ \<Rightarrow> 1)"

lemma xml_text_shorter:
  assumes "xml_text None False (b # s) = Some (x, t)" and "b \<noteq> CHR ''<''"
  shows "length t < length (b # s)"
  using assms
  by (auto simp: xml_text_def textLoop.simps(2) Let_def split: option.splits if_splits
      dest!: textLoop_length reference_shorter)

lemma rawEnd_shorter: "rawEnd nt s = Some (x, t) \<Longrightarrow> length t < length s"
proof -
  assume "rawEnd nt s = Some (x, t)"
  then obtain n u c where "nsname nt s = Some (n, u)" "skipWs u = c # t"
    by (auto simp: rawEnd_def split: option.splits list.splits if_splits)
  then show ?thesis
    using skipWs_length[of u] nsname_shorter[of nt s n u] by simp
qed

lemma Cut_shorter: "Cut s sep = Some (a, t) \<Longrightarrow> length t \<le> length s"
  by (auto simp: Cut_def split: option.splits)

lemma rawProcInst_shorter: "rawProcInst nt s = Some (x, t) \<Longrightarrow> length t < length s"
proof -
  assume "rawProcInst nt s = Some (x, t)"
  then obtain target u content where "xml_name nt s = Some (target, u)" "Cut (skipWs u) ''?>'' = Some (content, t)"
    by (auto simp: rawProcInst_def split: option.splits if_splits)
  then show ?thesis
    using skipWs_length[of u] Cut_shorter[of "skipWs u" "''?>''" content t] readName_shorter[of s target u]
    by (auto simp: xml_name_def split: option.splits if_splits)
qed

lemma xml_directive_length: "xml_directive h q n s = Some t \<Longrightarrow> length t \<le> length s"
proof (induction "length s" arbitrary: h q n s t rule: less_induct)
  case less
  then obtain b r where s: "s = b # r"
    by (cases s) auto
  have rest: "length t' \<le> Suc (length r)" if "xml_directive h' q' n' (drop k r) = Some t'" for h' q' n' k t'
    using less.hyps[OF _ that] s by (simp add: less_Suc_eq_le)
  have rest0: "length t' \<le> Suc (length r)" if "xml_directive h' q' n' r = Some t'" for h' q' n' t'
    using rest[of h' q' n' 0 t'] that by simp
  show ?case
    using less.prems unfolding s
    by (auto split: if_splits option.splits dest: rest rest0)
qed

lemma rawBang_length: "rawBang s = Some (x, t) \<Longrightarrow> length t \<le> length s"
  by (auto simp: rawBang_def xml_comment_def CutPrefix_Some
      split: list.splits if_splits option.splits dest!: Cut_shorter xml_text_length xml_directive_length)

lemma rawStart_shorter: "rawStart nt s = Some (n, as, e, t) \<Longrightarrow> length t + 1 < length s"
  by (auto simp: rawStart_def split: option.splits dest!: nsname_shorter xml_attributes_length)

lemma rawToken_shorter: "rawToken nt d = Some (x, d') \<Longrightarrow> dsize d' < dsize d"
proof (cases "dToClose d")
  case None
  assume raw: "rawToken nt d = Some (x, d')"
  then obtain b s where b: "dInput d = b # s"
    using None by (auto simp: rawToken_def Let_def split: list.splits)
  show ?thesis
  proof (cases "b = CHR ''<''")
    case False
    then show ?thesis
      using raw None b by (auto simp: rawToken_def Let_def dsize_def dest!: xml_text_shorter)
  next
    case True
    then show ?thesis
      using raw None b
      by (auto simp: rawToken_def Let_def dsize_def split: list.splits if_splits
          dest!: rawEnd_shorter rawProcInst_shorter rawBang_length rawStart_shorter)
  qed
qed (auto simp: rawToken_def dsize_def)

lemma Token_shorter: "Token nt d = Some (x, d') \<Longrightarrow> dsize d' < dsize d"
  by (auto simp: Token_def dsize_def split: option.splits xml_token.splits list.splits if_splits
      dest!: rawToken_shorter[unfolded dsize_def])

text \<open>All tokens up to the first error or the end.\<close>

function xml_tokens :: "NameTables \<Rightarrow> decoder \<Rightarrow> xml_token list" where
  "xml_tokens nt d = (case Token nt d of None \<Rightarrow> [] | Some (x, d') \<Rightarrow> x # xml_tokens nt d')"
  by pat_completeness auto
termination
  by (relation "measure (\<lambda>(_, d). dsize d)") (auto dest: Token_shorter)

declare xml_tokens.simps [simp del]

section \<open>Unmarshal\<close>

text \<open>\<^verbatim>\<open>Decoder.Skip\<close>: what follows the end of an element whose start was read.\<close>

fun Skip :: "nat \<Rightarrow> xml_token list \<Rightarrow> xml_token list option" where
  "Skip depth [] = None"
| "Skip depth (StartElement n as # ts) = Skip (Suc depth) ts"
| "Skip depth (EndElement n # ts) = (case depth of 0 \<Rightarrow> Some ts | Suc k \<Rightarrow> Skip k ts)"
| "Skip depth (_ # ts) = Skip depth ts"

text \<open>
  The loop of \<^verbatim>\<open>Decoder.unmarshal\<close> over the tokens of an element. \<open>child\<close> is the field a child's local
  name selects, as what decoding the child makes of the value; a child of no field is skipped.
  \<open>chars\<close> is what character data make of the value. Every round reads a token, so that the number
  of tokens is enough fuel (\<open>elementLoop_fuel\<close>).
\<close>

type_synonym 'a element_reader = "'a \<Rightarrow> xml_token list \<Rightarrow> ('a \<times> xml_token list) option"

fun elementLoop :: "nat \<Rightarrow> (string \<Rightarrow> 'a element_reader option) \<Rightarrow> (string \<Rightarrow> 'a \<Rightarrow> 'a) \<Rightarrow> 'a element_reader" where
  "elementLoop 0 child chars v ts = None"
| "elementLoop (Suc n) child chars v ts =
     (case ts of
        [] \<Rightarrow> None
      | t # us \<Rightarrow>
          (case t of
             StartElement nm as \<Rightarrow>
               (case child (snd nm) of
                  None \<Rightarrow>
                    (case Skip 0 us of None \<Rightarrow> None | Some us' \<Rightarrow> elementLoop n child chars v us')
                | Some dec \<Rightarrow>
                    (case dec v us of None \<Rightarrow> None | Some (v', us') \<Rightarrow> elementLoop n child chars v' us'))
           | EndElement nm \<Rightarrow> Some (v, us)
           | CharData s \<Rightarrow> elementLoop n child chars (chars s v) us
           | _ \<Rightarrow> elementLoop n child chars v us))"

definition unmarshalElement :: "(string \<Rightarrow> 'a element_reader option) \<Rightarrow> (string \<Rightarrow> 'a \<Rightarrow> 'a) \<Rightarrow> 'a element_reader" where
  "unmarshalElement child chars v ts = elementLoop (length ts) child chars v ts"

text \<open>A field of type \<^verbatim>\<open>string\<close> becomes the character data of the element itself, whatever it was.\<close>

definition unmarshalString :: "string element_reader" where
  "unmarshalString old = unmarshalElement (\<lambda>_. None) (\<lambda>s buf. buf @ s) []"

text \<open>A field of slice type grows by an element that starts from the zero value.\<close>

definition unmarshalSlice :: "'a \<Rightarrow> 'a element_reader \<Rightarrow> 'a list element_reader" where
  "unmarshalSlice zero dec vs ts = map_option (apfst (\<lambda>v. vs @ [v])) (dec zero ts)"

text \<open>\<^verbatim>\<open>xml.Unmarshal\<close>: what precedes the first start element is ignored, and so is what follows its end.\<close>

fun unmarshalRoot :: "'a element_reader \<Rightarrow> 'a \<Rightarrow> xml_token list \<Rightarrow> 'a option" where
  "unmarshalRoot dec v [] = None"
| "unmarshalRoot dec v (StartElement n as # ts) = map_option fst (dec v ts)"
| "unmarshalRoot dec v (_ # ts) = unmarshalRoot dec v ts"

definition xml_Unmarshal :: "NameTables \<Rightarrow> 'a element_reader \<Rightarrow> 'a \<Rightarrow> string \<Rightarrow> 'a option" where
  "xml_Unmarshal nt dec v data = unmarshalRoot dec v (xml_tokens nt (NewDecoder data))"

lemma Skip_shorter: "Skip k ts = Some us \<Longrightarrow> length us < length ts"
  by (induction k ts rule: Skip.induct) (fastforce split: nat.splits)+

definition consumes :: "'a element_reader \<Rightarrow> bool" where
  "consumes dec \<longleftrightarrow> (\<forall>v ts v' us. dec v ts = Some (v', us) \<longrightarrow> length us \<le> length ts)"

lemma elementLoop_step:
  assumes "\<And>nm dec. child nm = Some dec \<Longrightarrow> consumes dec" and "length ts \<le> n"
  shows "elementLoop (Suc n) child chars v ts = elementLoop n child chars v ts"
  using assms(2)
proof (induction n arbitrary: v ts)
  case (Suc n)
  have IH: "elementLoop (Suc n) child chars v' us = elementLoop n child chars v' us" if "length us < length ts" for v' us
    using Suc.IH[of us v'] Suc.prems that by simp
  show ?case
  proof (cases ts)
    case (Cons t us)
    have kid: "length us' < length ts" if "child nm = Some dec" "dec v us = Some (v', us')" for nm dec v' us'
      using assms(1)[OF that(1)] that(2) Cons unfolding consumes_def by fastforce
    have skip: "length us' < length ts" if "Skip 0 us = Some us'" for us'
      using Skip_shorter[OF that] Cons by simp
    have here: "length us < length ts"
      using Cons by simp
    show ?thesis
      unfolding Cons elementLoop.simps(2)[of "Suc n" child chars v "t # us"]
        elementLoop.simps(2)[of n child chars v "t # us"] list.case
      using IH[OF here] IH[OF kid] IH[OF skip]
      by (auto split: xml_token.split option.split simp del: elementLoop.simps)
  qed simp
qed simp

lemma elementLoop_fuel:
  assumes "\<And>nm dec. child nm = Some dec \<Longrightarrow> consumes dec" and "length ts \<le> n"
  shows "elementLoop n child chars v ts = unmarshalElement child chars v ts"
  using assms(2)
proof (induction n rule: dec_induct)
  case (step n)
  then show ?case
    using elementLoop_step[of child ts n chars v] assms(1) by simp
qed (simp add: unmarshalElement_def)

text \<open>Hence an element is decoded by one equation for each token, without fuel.\<close>

lemma unmarshalElement_Cons:
  assumes "\<And>nm dec. child nm = Some dec \<Longrightarrow> consumes dec"
  shows "unmarshalElement child chars v (t # ts) =
    (case t of
       StartElement nm as \<Rightarrow>
         (case child (snd nm) of
            None \<Rightarrow> Option.bind (Skip 0 ts) (unmarshalElement child chars v)
          | Some dec \<Rightarrow> Option.bind (dec v ts) (\<lambda>(v', us). unmarshalElement child chars v' us))
     | EndElement nm \<Rightarrow> Some (v, ts)
     | CharData s \<Rightarrow> unmarshalElement child chars (chars s v) ts
     | _ \<Rightarrow> unmarshalElement child chars v ts)"
proof -
  have loop: "elementLoop (length ts) child chars v' us = unmarshalElement child chars v' us"
    if "length us \<le> length ts" for v' us
    using elementLoop_fuel[of child us "length ts" chars v'] assms that by simp
  have kid: "length us \<le> length ts" if "child nm = Some dec" "dec v ts = Some (v', us)" for nm dec v' us
    using assms[OF that(1)] that(2) unfolding consumes_def by blast
  have skip: "length us \<le> length ts" if "Skip 0 ts = Some us" for us
    using Skip_shorter[OF that] by simp
  show ?thesis
    unfolding unmarshalElement_def[of child chars v "t # ts"] length_Cons
      elementLoop.simps(2)[of "length ts" child chars v "t # ts"] list.case
    using loop[OF kid] loop[OF skip] loop[OF order_refl]
    by (auto split: xml_token.split option.split simp del: elementLoop.simps)
qed

lemma unmarshalElement_Nil [simp]: "unmarshalElement child chars v [] = None"
  by (simp add: unmarshalElement_def)

lemma elementLoop_consumes:
  assumes "\<And>nm dec. child nm = Some dec \<Longrightarrow> consumes dec" 
  shows "elementLoop n child chars v ts = Some (v', us) \<Longrightarrow> length us \<le> length ts"
proof (induction n arbitrary: v ts)
  case (Suc n)
  from Suc.prems show ?case
    by (auto split: list.splits xml_token.splits option.splits
        dest!: Suc.IH Skip_shorter assms[unfolded consumes_def])
      (metis le_SucI order_trans)
qed simp

lemma consumes_unmarshalElement:
  "(\<And>nm dec. child nm = Some dec \<Longrightarrow> consumes dec) \<Longrightarrow> consumes (unmarshalElement child chars)"
  unfolding consumes_def[of "unmarshalElement child chars"] unmarshalElement_def
  using elementLoop_consumes[of child] by blast

lemma consumes_unmarshalString [simp]: "consumes unmarshalString"
  using consumes_unmarshalElement[of "\<lambda>_. None" "\<lambda>s buf. buf @ s"]
  unfolding consumes_def unmarshalString_def by simp

lemma consumes_unmarshalSlice [simp]: "consumes dec \<Longrightarrow> consumes (unmarshalSlice zero dec)"
  unfolding consumes_def unmarshalSlice_def by auto

section \<open>Documents\<close>

text \<open>
  A document as a tree: an element has its name as written, its attributes, the text before its
  first child and its children, each with the text that follows it. \<open>EscapeText\<close> is
  \<^verbatim>\<open>xml.EscapeText\<close> on a text whose runes XML allows.
\<close>

datatype xml =
    XElem string "(string \<times> string) list" string "(xml \<times> string) list"
  | XComment string

definition escapeXmlByte :: "char \<Rightarrow> string" where
  "escapeXmlByte c =
     (if c = CHR 0x22 then ''&#34;''
      else if c = CHR 0x27 then ''&#39;''
      else if c = CHR ''&'' then ''&amp;''
      else if c = CHR ''<'' then ''&lt;''
      else if c = CHR ''>'' then ''&gt;''
      else if c = CHR 0x09 then ''&#x9;''
      else if c = CHR 0x0A then ''&#xA;''
      else if c = CHR 0x0D then ''&#xD;''
      else [c])"

definition EscapeText :: "string \<Rightarrow> string" where
  "EscapeText s = concat (map escapeXmlByte s)"

definition printAttr :: "string \<times> string \<Rightarrow> string" where
  "printAttr a = CHR '' '' # fst a @ CHR ''='' # CHR 0x22 # EscapeText (snd a) @ [CHR 0x22]"

definition openTag :: "string \<Rightarrow> (string \<times> string) list \<Rightarrow> string" where
  "openTag n as = CHR ''<'' # n @ concat (map printAttr as)"

fun xml_Print :: "xml \<Rightarrow> string"
  and xml_PrintKids :: "(xml \<times> string) list \<Rightarrow> string" where
  "xml_Print (XElem n as t ks) =
     (if t = [] \<and> ks = [] then openTag n as @ ''/>''
      else openTag n as @ ''>'' @ EscapeText t @ xml_PrintKids ks @ ''</'' @ n @ ''>'')"
| "xml_Print (XComment s) = ''<!--'' @ s @ ''-->''"
| "xml_PrintKids [] = []"
| "xml_PrintKids ((k, t) # ks) = xml_Print k @ EscapeText t @ xml_PrintKids ks"

definition nameOk :: "NameTables \<Rightarrow> string \<Rightarrow> bool" where
  "nameOk nt n \<longleftrightarrow> n \<noteq> [] \<and> list_all isNamePart n \<and> isName nt n \<and> count_list n (CHR '':'') \<le> 1"

definition textOk :: "string \<Rightarrow> bool" where
  "textOk s \<longleftrightarrow> list_all (\<lambda>p. validRune p \<and> isInCharacterRange (fst p)) (Runes s)"

definition commentOk :: "string \<Rightarrow> bool" where
  "commentOk s \<longleftrightarrow> Index (s @ ''-'') ''--'' = None"

fun xml_ok :: "NameTables \<Rightarrow> xml \<Rightarrow> bool"
  and xml_okKids :: "NameTables \<Rightarrow> (xml \<times> string) list \<Rightarrow> bool" where
  "xml_ok nt (XElem n as t ks) \<longleftrightarrow>
     nameOk nt n \<and> list_all (\<lambda>a. nameOk nt (fst a) \<and> textOk (snd a)) as \<and> textOk t \<and> xml_okKids nt ks"
| "xml_ok nt (XComment s) \<longleftrightarrow> commentOk s"
| "xml_okKids nt [] \<longleftrightarrow> True"
| "xml_okKids nt ((k, t) # ks) \<longleftrightarrow> xml_ok nt k \<and> textOk t \<and> xml_okKids nt ks"

text \<open>The tokens a tree stands for.\<close>

definition charToks :: "string \<Rightarrow> xml_token list" where
  "charToks t = (if t = [] then [] else [CharData t])"

fun xml_toks :: "xml \<Rightarrow> xml_token list"
  and xml_toksKids :: "(xml \<times> string) list \<Rightarrow> xml_token list" where
  "xml_toks (XElem n as t ks) =
     StartElement (splitName n) (map (apfst splitName) as) # charToks t @ xml_toksKids ks @ [EndElement (splitName n)]"
| "xml_toks (XComment s) = [Comment s]"
| "xml_toksKids [] = []"
| "xml_toksKids ((k, t) # ks) = xml_toks k @ charToks t @ xml_toksKids ks"

lemma nsname_print:
  assumes "nameOk nt n" and "\<not> isNamePart c"
  shows "nsname nt (n @ c # r) = Some (splitName n, c # r)"
proof -
  have "takeWhile isNamePart (n @ c # r) = n" "dropWhile isNamePart (n @ c # r) = c # r"
    using assms by (simp_all add: nameOk_def list_all_iff)
  then show ?thesis
    using assms(1) by (simp add: nsname_def xml_name_def readName_def nameOk_def)
qed

lemma textLoop_plain:
  assumes "b \<notin> {CHR ''<'', CHR ''&'', CHR 0x0D, CHR 0x0A, CHR ''>''}" and "quote \<noteq> Some b"
  shows "textLoop quote False b0 b1 (b # r) = map_option (apfst (append [b])) (textLoop quote False b1 b r)"
  using assms by (simp add: textLoop.simps(2))

lemma textLoop_ref:
  assumes "xml_reference s = Some (x, r)" and "quote \<noteq> Some (CHR ''&'')"
  shows "textLoop quote False b0 b1 (CHR ''&'' # s) =
    map_option (apfst (append x)) (textLoop quote False (CHR 0x00) (CHR 0x00) r)"
  using assms by (simp add: textLoop.simps(2))

lemma byte_class_simps [simp]:
  "hexVal (CHR ''3'') = Some 3" "hexVal (CHR ''4'') = Some 4" "hexVal (CHR ''9'') = Some 9"
  "hexVal (CHR ''A'') = Some 10" "hexVal (CHR ''D'') = Some 13" "hexVal (CHR '';'') = None"
  "isNamePart (CHR '';'') = False" "isNamePart (CHR ''<'') = False" "isNamePart (CHR ''>'') = False"
  "isNamePart (CHR ''/'') = False" "isNamePart (CHR ''='') = False" "isNamePart (CHR '' '') = False"
  "isNamePart (CHR ''!'') = False" "isNamePart (CHR ''?'') = False"
  by code_simp+

lemma char_of_escapes:
  "char_of (34::int) = CHR 0x22" "char_of (39::int) = CHR 0x27" "char_of (9::int) = CHR 0x09"
  "char_of (10::int) = CHR 0x0A" "char_of (13::int) = CHR 0x0D"
  by code_simp+

lemma xml_reference_escapes [simp]:
  "xml_reference (CHR ''#'' # CHR ''3'' # CHR ''4'' # CHR '';'' # r) = Some ([CHR 0x22], r)"
  "xml_reference (CHR ''#'' # CHR ''3'' # CHR ''9'' # CHR '';'' # r) = Some ([CHR 0x27], r)"
  "xml_reference (CHR ''#'' # CHR ''x'' # CHR ''9'' # CHR '';'' # r) = Some ([CHR 0x09], r)"
  "xml_reference (CHR ''#'' # CHR ''x'' # CHR ''A'' # CHR '';'' # r) = Some ([CHR 0x0A], r)"
  "xml_reference (CHR ''#'' # CHR ''x'' # CHR ''D'' # CHR '';'' # r) = Some ([CHR 0x0D], r)"
  by (simp_all add: xml_reference_def charRef_def isDigitOf_def digitsOf_def runeText_def isSurrogate_def EncodeRune_def Let_def char_of_escapes)

lemma isNamePart_entity [simp]:
  "isNamePart (CHR ''a'')" "isNamePart (CHR ''m'')" "isNamePart (CHR ''p'')" "isNamePart (CHR ''l'')"
  "isNamePart (CHR ''g'')" "isNamePart (CHR ''t'')"
  by code_simp+

lemma xml_reference_names [simp]:
  "xml_reference (CHR ''a'' # CHR ''m'' # CHR ''p'' # CHR '';'' # r) = Some (''&'', r)"
  "xml_reference (CHR ''l'' # CHR ''t'' # CHR '';'' # r) = Some (''<'', r)"
  "xml_reference (CHR ''g'' # CHR ''t'' # CHR '';'' # r) = Some (''>'', r)"
  by (simp_all add: xml_reference_def readName_def entityTable_def)

lemma textLoop_escapeXmlByte:
  assumes "quote \<in> {None, Some (CHR 0x22)}"
  shows "\<exists>c0 c1. textLoop quote False b0 b1 (escapeXmlByte c @ r) = map_option (apfst (append [c])) (textLoop quote False c0 c1 r)"
proof (cases "c \<in> {CHR 0x22, CHR 0x27, CHR ''&'', CHR ''<'', CHR ''>'', CHR 0x09, CHR 0x0A, CHR 0x0D}")
  case False
  then have "c \<notin> {CHR ''<'', CHR ''&'', CHR 0x0D, CHR 0x0A, CHR ''>''}" and "quote \<noteq> Some c"
    and plain: "escapeXmlByte c = [c]"
    using assms by (auto simp: escapeXmlByte_def)
  from textLoop_plain[OF this(1,2), of b0 b1 r] show ?thesis
    unfolding plain by auto
next
  case True
  then have "\<exists>s. escapeXmlByte c = CHR ''&'' # s \<and> xml_reference (s @ r) = Some ([c], r)"
    by (auto simp: escapeXmlByte_def)
  then obtain s where s: "escapeXmlByte c = CHR ''&'' # s" and ref: "xml_reference (s @ r) = Some ([c], r)"
    by blast
  show ?thesis
    using textLoop_ref[OF ref, of quote b0 b1] assms unfolding s by auto
qed

lemma textLoop_EscapeText:
  assumes "quote \<in> {None, Some (CHR 0x22)}"
  shows "\<exists>c0 c1. textLoop quote False b0 b1 (EscapeText s @ r) = map_option (apfst (append s)) (textLoop quote False c0 c1 r)"
proof (induction s arbitrary: b0 b1)
  case Nil
  show ?case
    by (auto simp: EscapeText_def apfst_def map_prod.id option.map_id0 id_def[symmetric])
next
  case (Cons c s)
  obtain c0 c1 where c: "textLoop quote False b0 b1 (escapeXmlByte c @ EscapeText s @ r) =
      map_option (apfst (append [c])) (textLoop quote False c0 c1 (EscapeText s @ r))"
    using textLoop_escapeXmlByte[OF assms] by blast
  obtain d0 d1 where "textLoop quote False c0 c1 (EscapeText s @ r) =
      map_option (apfst (append s)) (textLoop quote False d0 d1 r)"
    using Cons.IH by blast
  with c have "textLoop quote False b0 b1 (EscapeText (c # s) @ r) =
      map_option (apfst (append (c # s))) (textLoop quote False d0 d1 r)"
    by (cases "textLoop quote False d0 d1 r") (auto simp: EscapeText_def)
  then show ?case
    by blast
qed

lemma xml_text_EscapeText:
  assumes "textOk s" and "quote = None \<and> r = CHR ''<'' # t \<or> quote = Some (CHR 0x22) \<and> r = CHR 0x22 # t"
  shows "xml_text quote False (EscapeText s @ r) = Some (s, if quote = None then r else t)"
proof -
  have "quote \<in> {None, Some (CHR 0x22)}"
    using assms(2) by auto
  from textLoop_EscapeText[OF this] obtain c0 c1 where
    "textLoop quote False (CHR 0x00) (CHR 0x00) (EscapeText s @ r) = map_option (apfst (append s)) (textLoop quote False c0 c1 r)"
    by blast
  moreover have "textLoop quote False c0 c1 r = Some ([], if quote = None then r else t)"
    using assms(2) by (auto simp: textLoop.simps(2))
  ultimately show ?thesis
    using assms(1) by (simp add: xml_text_def textOk_def)
qed

lemma isNamePart_special:
  "isNamePart c \<Longrightarrow> \<not> isWs c \<and> c \<notin> {CHR ''/'', CHR ''>'', CHR ''?'', CHR ''!'', CHR ''<''}"
proof -
  assume c: "isNamePart c"
  have "\<not> isNamePart x" if "isWs x" for x
    using that unfolding isWs_def by (elim insertE; simp; code_simp)
  with c show ?thesis
    by auto
qed

lemma nameOk_hd: "nameOk nt n \<Longrightarrow> \<exists>c m. n = c # m \<and> isNamePart c"
  by (cases n) (auto simp: nameOk_def)

lemma xml_attribute_print:
  assumes "nameOk nt (fst a)" and "textOk (snd a)"
  shows "xml_attribute nt (fst a @ CHR ''='' # CHR 0x22 # EscapeText (snd a) @ CHR 0x22 # r)
    = Some (apfst splitName a, r)"
proof -
  have "\<not> isWs (CHR ''='')" "\<not> isWs (CHR 0x22)"
    by code_simp+
  then show ?thesis
    using nsname_print[OF assms(1), of "CHR ''=''"] xml_text_EscapeText[OF assms(2), of "Some (CHR 0x22)" "CHR 0x22 # r" r]
    by (cases a) (simp add: xml_attribute_def)
qed

lemma xml_attributes_printAttr:
  assumes "nameOk nt (fst a)" and "textOk (snd a)"
  shows "xml_attributes nt (printAttr a @ r) = map_option (apfst (Cons (apfst splitName a))) (xml_attributes nt r)"
proof -
  obtain c m where n: "fst a = c # m" "isNamePart c"
    using nameOk_hd[OF assms(1)] by blast
  have "isWs (CHR '' '')"
    by code_simp
  then have "skipWs (printAttr a @ r) = fst a @ CHR ''='' # CHR 0x22 # EscapeText (snd a) @ CHR 0x22 # r"
    using isNamePart_special[OF n(2)] by (simp add: printAttr_def n)
  then show ?thesis
    using isNamePart_special[OF n(2)] xml_attribute_print[OF assms, of r]
    by (subst xml_attributes.simps) (simp add: n)
qed

lemma xml_attributes_printAttrs:
  assumes "list_all (\<lambda>a. nameOk nt (fst a) \<and> textOk (snd a)) as"
  shows "xml_attributes nt (concat (map printAttr as) @ r) = map_option (apfst (append (map (apfst splitName) as))) (xml_attributes nt r)"
  using assms
proof (induction as)
  case Nil
  show ?case
    by (cases "xml_attributes nt r") auto
next
  case (Cons a as)
  then show ?case
    using xml_attributes_printAttr[of nt a "concat (map printAttr as) @ r"]
    by (cases "xml_attributes nt r") auto
qed

lemma xml_attributes_end:
  "xml_attributes nt (CHR ''>'' # r) = Some ([], False, r)"
  "xml_attributes nt (CHR ''/'' # CHR ''>'' # r) = Some ([], True, r)"
proof -
  have "\<not> isWs (CHR ''>'')" "\<not> isWs (CHR ''/'')"
    by code_simp+
  then show "xml_attributes nt (CHR ''>'' # r) = Some ([], False, r)"
    "xml_attributes nt (CHR ''/'' # CHR ''>'' # r) = Some ([], True, r)"
    by (simp_all add: xml_attributes.simps)
qed

lemma printAttrs_hd:
  "c \<in> {CHR ''>'', CHR ''/''} \<Longrightarrow> \<exists>b u. concat (map printAttr as) @ c # r = b # u \<and> \<not> isNamePart b"
  by (cases as) (auto simp: printAttr_def)

lemma rawStart_openTag:
  assumes "nameOk nt n" and "list_all (\<lambda>a. nameOk nt (fst a) \<and> textOk (snd a)) as"
  shows "rawStart nt (n @ concat (map printAttr as) @ CHR ''>'' # r) = Some (splitName n, map (apfst splitName) as, False, r)"
    and "rawStart nt (n @ concat (map printAttr as) @ CHR ''/'' # CHR ''>'' # r) = Some (splitName n, map (apfst splitName) as, True, r)"
proof -
  have "rawStart nt (n @ concat (map printAttr as) @ c # u) =
      map_option (\<lambda>p. (splitName n, p)) (xml_attributes nt (concat (map printAttr as) @ c # u))"
    if "c \<in> {CHR ''>'', CHR ''/''}" for c u
    using printAttrs_hd[OF that, of as u] nsname_print[OF assms(1)] by (auto simp: rawStart_def)
  from this[of "CHR ''>''" r] this[of "CHR ''/''" "CHR ''>'' # r"]
  show "rawStart nt (n @ concat (map printAttr as) @ CHR ''>'' # r) = Some (splitName n, map (apfst splitName) as, False, r)"
    "rawStart nt (n @ concat (map printAttr as) @ CHR ''/'' # CHR ''>'' # r) = Some (splitName n, map (apfst splitName) as, True, r)"
    using xml_attributes_printAttrs[OF assms(2)] by (simp_all add: xml_attributes_end)
qed

text \<open>The tokens from a state of the decoder that owes no end element.\<close>

definition toksFrom :: "NameTables \<Rightarrow> string \<Rightarrow> xname list \<Rightarrow> xml_token list" where
  "toksFrom nt s stk = xml_tokens nt \<lparr>dInput = s, dStk = stk, dToClose = None\<rparr>"

lemma tokens_open:
  assumes "nameOk nt n" and "list_all (\<lambda>a. nameOk nt (fst a) \<and> textOk (snd a)) as"
  shows "toksFrom nt (openTag n as @ CHR ''>'' # r) stk
      = StartElement (splitName n) (map (apfst splitName) as) # toksFrom nt r (splitName n # stk)"
    and "toksFrom nt (openTag n as @ CHR ''/'' # CHR ''>'' # r) stk
      = StartElement (splitName n) (map (apfst splitName) as) # EndElement (splitName n) # toksFrom nt r stk"
proof -
  obtain c m where n: "n = c # m" and c: "isNamePart c"
    using nameOk_hd[OF assms(1)] by blast
  note start = rawStart_openTag[OF assms, of r]
  show "toksFrom nt (openTag n as @ CHR ''>'' # r) stk
      = StartElement (splitName n) (map (apfst splitName) as) # toksFrom nt r (splitName n # stk)"
    using isNamePart_special[OF c] start(1)
    by (simp add: toksFrom_def xml_tokens.simps Token_def rawToken_def openTag_def n Let_def)
  show "toksFrom nt (openTag n as @ CHR ''/'' # CHR ''>'' # r) stk
      = StartElement (splitName n) (map (apfst splitName) as) # EndElement (splitName n) # toksFrom nt r stk"
    using isNamePart_special[OF c] start(2)
    by (simp add: toksFrom_def xml_tokens.simps[of nt "\<lparr>dInput = _ # _, dStk = _, dToClose = None\<rparr>"]
        xml_tokens.simps[of nt "\<lparr>dInput = _, dStk = _, dToClose = Some _\<rparr>"]
        Token_def rawToken_def openTag_def n Let_def)
qed

lemma tokens_close:
  assumes "nameOk nt n"
  shows "toksFrom nt (CHR ''<'' # CHR ''/'' # n @ CHR ''>'' # r) (splitName n # stk)
    = EndElement (splitName n) # toksFrom nt r stk"
proof -
  have "\<not> isWs (CHR ''>'')"
    by code_simp
  then show ?thesis
    using nsname_print[OF assms, of "CHR ''>''" r]
    by (simp add: toksFrom_def xml_tokens.simps Token_def rawToken_def rawEnd_def Let_def)
qed

lemma tokens_text:
  assumes "textOk t"
  shows "toksFrom nt (EscapeText t @ CHR ''<'' # r) stk = charToks t @ toksFrom nt (CHR ''<'' # r) stk"
proof (cases t)
  case Nil
  then show ?thesis
    by (simp add: EscapeText_def charToks_def)
next
  case (Cons c u)
  have "escapeXmlByte c \<noteq> [] \<and> hd (escapeXmlByte c) \<noteq> CHR ''<''"
    by (auto simp: escapeXmlByte_def)
  then obtain b s where "EscapeText t = b # s" "b \<noteq> CHR ''<''"
    by (cases "escapeXmlByte c") (auto simp: EscapeText_def Cons)
  then show ?thesis
    using xml_text_EscapeText[OF assms, of None "CHR ''<'' # r" r] Cons
    by (simp add: charToks_def toksFrom_def xml_tokens.simps Token_def rawToken_def Let_def)
qed

lemma Index_comment:
  "Index (s @ ''-'') ''--'' = None \<Longrightarrow> Index (s @ CHR ''-'' # CHR ''-'' # r) ''--'' = Some (length s)"
proof (induction s)
  case (Cons c s)
  then show ?case
    by (cases s) (auto split: if_splits option.splits)
qed simp

lemma tokens_comment:
  assumes "commentOk s"
  shows "toksFrom nt (''<!--'' @ s @ ''-->'' @ r) stk = Comment s # toksFrom nt r stk"
proof -
  have "Cut (s @ ''-->'' @ r) ''--'' = Some (s, CHR ''>'' # r)"
    using Index_comment[of s "CHR ''>'' # r"] assms by (simp add: Cut_def commentOk_def)
  then show ?thesis
    by (simp add: toksFrom_def xml_tokens.simps Token_def rawToken_def rawBang_def xml_comment_def Let_def)
qed

lemma xml_Print_hd: "\<exists>u. xml_Print e = CHR ''<'' # u"
  by (cases e) (auto simp: openTag_def)

lemma PrintKids_open: "\<exists>u. xml_PrintKids ks @ CHR ''<'' # r = CHR ''<'' # u"
proof (cases ks)
  case (Cons kt ks')
  obtain k t where "kt = (k, t)"
    by force
  then show ?thesis
    using xml_Print_hd[of k] Cons by auto
qed simp

lemma tokens_Print:
  shows "xml_ok nt e \<Longrightarrow> toksFrom nt (xml_Print e @ r) stk = xml_toks e @ toksFrom nt r stk"
    and "xml_okKids nt ks \<Longrightarrow>
      toksFrom nt (xml_PrintKids ks @ CHR ''<'' # r) stk = xml_toksKids ks @ toksFrom nt (CHR ''<'' # r) stk"
proof (induction e and ks arbitrary: r stk and r stk rule: xml_Print_xml_PrintKids.induct)
  case (1 n as t ks)
  then have n: "nameOk nt n" and as: "list_all (\<lambda>a. nameOk nt (fst a) \<and> textOk (snd a)) as"
    and t: "textOk t" and ks: "xml_okKids nt ks"
    by simp_all
  show ?case
  proof (cases "t = [] \<and> ks = []")
    case True
    then show ?thesis
      using tokens_open(2)[OF n as, of r stk] by (simp add: charToks_def)
  next
    case False
    obtain u where u: "xml_PrintKids ks @ CHR ''<'' # CHR ''/'' # n @ CHR ''>'' # r = CHR ''<'' # u"
      using PrintKids_open[of ks] by blast
    show ?thesis
      using tokens_open(1)[OF n as, of "EscapeText t @ CHR ''<'' # u" stk]
        tokens_text[OF t, of nt u "splitName n # stk"]
        "1.IH"[OF False ks, of "CHR ''/'' # n @ CHR ''>'' # r" "splitName n # stk"]
        tokens_close[OF n, of r stk] False
      by (auto simp: u)
  qed
next
  case (2 s)
  then show ?case
    using tokens_comment[of s nt r stk] by simp
next
  case (4 k t ks)
  then have k: "xml_ok nt k" and t: "textOk t" and ks: "xml_okKids nt ks"
    by simp_all
  obtain u where u: "xml_PrintKids ks @ CHR ''<'' # r = CHR ''<'' # u"
    using PrintKids_open[of ks] by blast
  show ?case
    using "4.IH"(1)[OF k, of "EscapeText t @ CHR ''<'' # u" stk] tokens_text[OF t, of nt u stk]
      "4.IH"(2)[OF ks, of r stk]
    by (simp add: u)
qed simp_all

text \<open>\<^verbatim>\<open>xml.Header\<close>, the declaration a document begins with.\<close>

definition xml_Header :: string where
  "xml_Header = ''<?xml version='' @ [CHR 0x22] @ ''1.0'' @ [CHR 0x22] @ '' encoding='' @ [CHR 0x22] @ ''UTF-8'' @ [CHR 0x22]
     @ ''?>'' @ [CHR 0x0A]"

text \<open>What the declaration says, and that the decoder accepts it.\<close>

definition headerContent :: string where
  "headerContent = ''version='' @ [CHR 0x22] @ ''1.0'' @ [CHR 0x22] @ '' encoding='' @ [CHR 0x22] @ ''UTF-8'' @ [CHR 0x22]"

lemma headerContent_ok: "procInstOk ''xml'' headerContent"
  by code_simp

lemma headerContent_end: "Index (headerContent @ ''?>'' @ r) ''?>'' = Some (length headerContent)"
  by (simp add: headerContent_def)

lemma textLoop_newline: "xml_text None False (CHR 0x0A # CHR ''<'' # r) = Some ([CHR 0x0A], CHR ''<'' # r)"
proof -
  have "Runes [CHR 0x0A] = [(10, [CHR 0x0A])]"
    by code_simp
  then show ?thesis
    by (simp add: xml_text_def textLoop.simps(2) validRune_def RuneError_def isInCharacterRange_def)
qed

lemma xml_name_target: "xml_name nt (''xml '' @ r) = Some (''xml'', CHR '' '' # r)"
proof -
  have "isNamePart (CHR ''x'')" "Runes ''xml'' = [(120, ''x''), (109, ''m''), (108, ''l'')]"
    by code_simp+
  then show ?thesis
    by (simp add: xml_name_def readName_def isName_def validRune_def RuneError_def isFirstRune_def)
qed

lemma tokens_Header:
  "toksFrom nt (xml_Header @ CHR ''<'' # r) stk
    = ProcInst ''xml'' headerContent # CharData [CHR 0x0A] # toksFrom nt (CHR ''<'' # r) stk"
proof -
  have ws: "isWs (CHR '' '')" "skipWs (headerContent @ u) = headerContent @ u" for u
    by (simp_all add: headerContent_def isWs_def)
  have pi: "rawProcInst nt (''xml '' @ headerContent @ ''?>'' @ u) = Some (ProcInst ''xml'' headerContent, u)" for u
    using xml_name_target[of nt "headerContent @ ''?>'' @ u"] headerContent_end[of u] headerContent_ok
    by (simp add: rawProcInst_def ws Cut_def)
  have decl: "toksFrom nt (CHR ''<'' # CHR ''?'' # ''xml '' @ headerContent @ ''?>'' @ u) stk
      = ProcInst ''xml'' headerContent # toksFrom nt u stk" for u
    using pi[of u] by (simp add: toksFrom_def xml_tokens.simps Token_def rawToken_def Let_def)
  have newline: "toksFrom nt (CHR 0x0A # CHR ''<'' # r) stk = CharData [CHR 0x0A] # toksFrom nt (CHR ''<'' # r) stk"
    using textLoop_newline[of r]
    by (simp add: toksFrom_def xml_tokens.simps[of nt "\<lparr>dInput = CHR 0x0A # _, dStk = _, dToClose = _\<rparr>"]
        Token_def rawToken_def Let_def)
  have "xml_Header @ CHR ''<'' # r = CHR ''<'' # CHR ''?'' # ''xml '' @ headerContent @ ''?>'' @ CHR 0x0A # CHR ''<'' # r"
    by (simp add: xml_Header_def headerContent_def)
  then show ?thesis
    by (simp only: decl newline)
qed
section \<open>Unmarshal on documents\<close>

fun localName :: "xml \<Rightarrow> string option" where
  "localName (XElem n as t ks) = Some (snd (splitName n))"
| "localName (XComment s) = None"

fun kidsOf :: "xml \<Rightarrow> (xml \<times> string) list" where
  "kidsOf (XElem n as t ks) = ks"
| "kidsOf (XComment s) = []"

text \<open>The children of a given local name, and the character data directly below an element.\<close>

definition childrenNamed :: "string \<Rightarrow> xml \<Rightarrow> xml list" where
  "childrenNamed nm e = filter (\<lambda>k. localName k = Some nm) (map fst (kidsOf e))"

fun textOf :: "xml \<Rightarrow> string" where
  "textOf (XElem n as t ks) = t @ concat (map snd ks)"
| "textOf (XComment s) = []"

text \<open>The tokens of an element after its start element.\<close>

fun bodyToks :: "xml \<Rightarrow> xml_token list" where
  "bodyToks (XElem n as t ks) = charToks t @ xml_toksKids ks @ [EndElement (splitName n)]"
| "bodyToks (XComment s) = []"

lemma Skip_charToks [simp]: "Skip k (charToks t @ ts) = Skip k ts"
  by (simp add: charToks_def)

lemma Skip_toks [simp]:
  shows "Skip d (xml_toks e @ ts) = Skip d ts" and "Skip d (xml_toksKids ks @ ts) = Skip d ts"
  by (induction e and ks arbitrary: d ts and d ts rule: xml_toks_xml_toksKids.induct) simp_all

lemma Skip_body: "localName e = Some nm \<Longrightarrow> Skip 0 (bodyToks e @ ts) = Some ts"
  by (cases e) simp_all

text \<open>What the children of an element and the text after each make of a value.\<close>

fun readKids :: "(xml \<Rightarrow> 'a \<Rightarrow> 'a) \<Rightarrow> (string \<Rightarrow> 'a \<Rightarrow> 'a) \<Rightarrow> (xml \<times> string) list \<Rightarrow> 'a \<Rightarrow> 'a" where
  "readKids upd chars [] v = v"
| "readKids upd chars ((k, t) # ks) v = readKids upd chars ks (chars t (upd k v))"

text \<open>
  A decoder that reads the body of every child it takes as \<open>upd\<close> says, and leaves the value as it is
  at the others, reads the body of an element as \<open>readKids\<close> does.
\<close>

lemma unmarshalElement_body:
  assumes consumes: "\<And>nm dec. child nm = Some dec \<Longrightarrow> consumes dec"
    and takes: "\<And>nm dec e v ts. child nm = Some dec \<Longrightarrow> localName e = Some nm \<Longrightarrow> dec v (bodyToks e @ ts) = Some (upd e v, ts)"
    and others: "\<And>e v. Option.bind (localName e) child = None \<Longrightarrow> upd e v = v"
    and no_text: "\<And>v. chars [] v = v"
  shows "unmarshalElement child chars v (bodyToks (XElem n as t ks) @ ts) = Some (readKids upd chars ks (chars t v), ts)"
proof -
  note step = unmarshalElement_Cons[OF consumes]
  have on_text: "unmarshalElement child chars v (charToks s @ us) = unmarshalElement child chars (chars s v) us" for s v us
    by (simp add: charToks_def no_text step)
  have kid: "unmarshalElement child chars v (xml_toks k @ us) = unmarshalElement child chars (upd k v) us" for k v us
  proof (cases k)
    case (XElem m bs s ls)
    have toks: "xml_toks k @ us = StartElement (splitName m) (map (apfst splitName) bs) # bodyToks k @ us"
      by (simp add: XElem)
    have name: "localName k = Some (snd (splitName m))"
      by (simp add: XElem)
    show ?thesis
    proof (cases "child (snd (splitName m))")
      case None
      then show ?thesis
        using Skip_body[OF name, of us] others[of k v] name by (simp add: toks step)
    next
      case (Some dec)
      then show ?thesis
        using takes[OF Some name, of v us] by (simp add: toks step)
    qed
  next
    case (XComment s)
    then show ?thesis
      using others[of k v] by (simp add: step)
  qed
  have "unmarshalElement child chars v (xml_toksKids ks @ EndElement (splitName n) # ts)
      = Some (readKids upd chars ks v, ts)" for v
    by (induction ks arbitrary: v) (auto simp: step kid on_text)
  then show ?thesis
    by (simp add: on_text)
qed

end
