(* ===== verification/Licensing_Maven.thy ===== *)
theory Licensing_Maven
  imports Licensing Go_Xml
begin

text \<open>
  The Maven adapter of the license detection (\<^verbatim>\<open>internal/license/maven.go\<close>): the declared license of a
  \<^verbatim>\<open>pom.xml\<close>. The decoder of XML is \<open>Go_Xml\<close>; which of its error values an undecodable file gives is
  one constant here. The reference of \<open>parse_maven_pom\<close> is read off the tree of the document.
\<close>

section \<open>maven.go\<close>

text \<open>The struct \<^verbatim>\<open>Licenses\<close> of a \<^verbatim>\<open>mavenPOM\<close>, which has one field, is its \<^verbatim>\<open>License\<close>.\<close>

record pomLicense =
  plName :: string

record mavenPOM =
  pomLicenses :: "pomLicense list"

text \<open>What \<^verbatim>\<open>xml.Unmarshal\<close> does with the two types, by the tags of their fields.\<close>

definition unmarshalLicense :: "pomLicense element_reader" where
  "unmarshalLicense = unmarshalElement
     (\<lambda>nm. if nm = ''name''
           then Some (\<lambda>l ts. map_option (apfst (\<lambda>s. l\<lparr>plName := s\<rparr>)) (unmarshalString (plName l) ts))
           else None)
     (\<lambda>_ l. l)"

definition unmarshalLicenses :: "mavenPOM element_reader" where
  "unmarshalLicenses = unmarshalElement
     (\<lambda>nm. if nm = ''license''
           then Some (\<lambda>pom ts. map_option (apfst (\<lambda>ls. pom\<lparr>pomLicenses := ls\<rparr>))
                  (unmarshalSlice \<lparr>plName = []\<rparr> unmarshalLicense (pomLicenses pom) ts))
           else None)
     (\<lambda>_ pom. pom)"

definition unmarshalPOM :: "mavenPOM element_reader" where
  "unmarshalPOM = unmarshalElement
     (\<lambda>nm. if nm = ''licenses'' then Some unmarshalLicenses else None) (\<lambda>_ pom. pom)"

definition err_xml :: go_error where
  "err_xml = ErrorsNew ''invalid XML''"

definition ParseMavenPOM :: "NameTables \<Rightarrow> (int \<Rightarrow> int) \<Rightarrow> bytes \<Rightarrow> go_error + LicenseResult" where
  "ParseMavenPOM nt ul data =
     (case xml_Unmarshal nt unmarshalPOM \<lparr>pomLicenses = []\<rparr> data of
        None \<Rightarrow> Inl (Errorf ''license: parse pom.xml: %w'' [] [err_xml])
      | Some pom \<Rightarrow>
          if length (pomLicenses pom) = 0 then Inr noLicense
          else Inr (newResult ul (plName (pomLicenses pom ! 0))))"

section \<open>The reference on trees\<close>

text \<open>
  The name of a license is the text of its last \<^verbatim>\<open>name\<close> child; the licenses are those of all
  \<^verbatim>\<open>licenses\<close> children of the root, in the order of the document.
\<close>

definition licenseName :: "xml \<Rightarrow> string" where
  "licenseName l = last ([] # map textOf (childrenNamed ''name'' l))"

definition pomLicenseNames :: "xml \<Rightarrow> string list" where
  "pomLicenseNames root =
     concat (map (\<lambda>ls. map licenseName (childrenNamed ''license'' ls)) (childrenNamed ''licenses'' root))"

definition declaredLicense :: "(int \<Rightarrow> int) \<Rightarrow> xml \<Rightarrow> LicenseResult" where
  "declaredLicense ul root =
     (case pomLicenseNames root of [] \<Rightarrow> noLicense | n # _ \<Rightarrow> newResult ul n)"

lemma unmarshalString_body:
  "localName e = Some nm \<Longrightarrow> unmarshalString old (bodyToks e @ ts) = Some (textOf e, ts)"
proof (cases e)
  case (XElem n as t ks)
  have "readKids (\<lambda>_ v. v) (\<lambda>s buf. buf @ s) ks v = v @ concat (map snd ks)" for v
    by (induction ks arbitrary: v) auto
  then show ?thesis
    using unmarshalElement_body[of "\<lambda>_. None" "\<lambda>_ v. v" "\<lambda>s buf. buf @ s" "[]" n as t ks ts]
    by (simp add: XElem unmarshalString_def)
qed simp

text \<open>\<open>upd\<close> and the reader of one selected child; the text of the element has no effect.\<close>

lemma unmarshalField_body:
  assumes "consumes dec" and "localName e = Some nm"
    and takes: "\<And>e v ts. localName e = Some key \<Longrightarrow> dec v (bodyToks e @ ts) = Some (upd e v, ts)"
  shows "unmarshalElement (\<lambda>nm. if nm = key then Some dec else None) (\<lambda>_ v. v) v (bodyToks e @ ts)
    = Some (foldl (\<lambda>v k. upd k v) v (childrenNamed key e), ts)"
proof (cases e)
  case (XElem n as t ks)
  let ?upd = "\<lambda>k v. if localName k = Some key then upd k v else v"
  have "readKids ?upd (\<lambda>_ v. v) ks v = foldl (\<lambda>v k. upd k v) v (filter (\<lambda>k. localName k = Some key) (map fst ks))" for v
    by (induction ks arbitrary: v) auto
  moreover have "unmarshalElement (\<lambda>nm. if nm = key then Some dec else None) (\<lambda>_ v. v) v (bodyToks e @ ts)
      = Some (readKids ?upd (\<lambda>_ v. v) ks v, ts)"
    unfolding XElem
    by (rule unmarshalElement_body) (auto simp: assms(1) takes split: if_splits bind_splits)
  ultimately show ?thesis
    by (simp add: childrenNamed_def XElem)
qed (use assms(2) in simp)

lemma consumes_map: "consumes dec \<Longrightarrow> consumes (\<lambda>v ts. map_option (apfst (f v)) (dec (g v) ts))"
  unfolding consumes_def by auto

lemma consumes_field:
  "consumes dec \<Longrightarrow> consumes (unmarshalElement (\<lambda>nm. if nm = key then Some dec else None) (\<lambda>_ v. v))"
  by (rule consumes_unmarshalElement) (auto split: if_splits)

lemma consumes_license: "consumes unmarshalLicense"
  unfolding unmarshalLicense_def by (intro consumes_field consumes_map consumes_unmarshalString)

lemma consumes_licenses: "consumes unmarshalLicenses"
  unfolding unmarshalLicenses_def by (intro consumes_field consumes_map consumes_unmarshalSlice consumes_license)

lemma unmarshalLicense_body:
  assumes "localName e = Some nm"
  shows "unmarshalLicense \<lparr>plName = []\<rparr> (bodyToks e @ ts) = Some (\<lparr>plName = licenseName e\<rparr>, ts)"
proof -
  have "foldl (\<lambda>(l :: pomLicense) k. l\<lparr>plName := textOf k\<rparr>) \<lparr>plName = s\<rparr> ks = \<lparr>plName = last (s # map textOf ks)\<rparr>" for s ks
    by (induction ks arbitrary: s) auto
  then show ?thesis
    unfolding unmarshalLicense_def licenseName_def
    by (subst unmarshalField_body[where upd = "\<lambda>k l. l\<lparr>plName := textOf k\<rparr>", OF consumes_map[OF consumes_unmarshalString] assms])
      (simp_all add: unmarshalString_body)
qed

lemma unmarshalLicenses_body:
  assumes "localName e = Some nm"
  shows "unmarshalLicenses pom (bodyToks e @ ts) =
    Some (pom\<lparr>pomLicenses := pomLicenses pom @ map (\<lambda>l. \<lparr>plName = licenseName l\<rparr>) (childrenNamed ''license'' e)\<rparr>, ts)"
proof -
  have "foldl (\<lambda>pom k. pom\<lparr>pomLicenses := pomLicenses pom @ [\<lparr>plName = licenseName k\<rparr>]\<rparr>) pom ks
      = (pom :: mavenPOM)\<lparr>pomLicenses := pomLicenses pom @ map (\<lambda>l. \<lparr>plName = licenseName l\<rparr>) ks\<rparr>" for pom ks
    by (induction ks arbitrary: pom) auto
  then show ?thesis
    unfolding unmarshalLicenses_def
    by (subst unmarshalField_body[where upd = "\<lambda>k pom. pom\<lparr>pomLicenses := pomLicenses pom @ [\<lparr>plName = licenseName k\<rparr>]\<rparr>",
          OF consumes_map[OF consumes_unmarshalSlice[OF consumes_license]] assms])
      (simp_all add: unmarshalLicense_body unmarshalSlice_def)
qed

lemma unmarshalPOM_body:
  assumes "localName e = Some nm"
  shows "unmarshalPOM \<lparr>pomLicenses = []\<rparr> (bodyToks e @ ts) =
    Some (\<lparr>pomLicenses = map (\<lambda>n. \<lparr>plName = n\<rparr>) (pomLicenseNames e)\<rparr>, ts)"
proof -
  let ?names = "\<lambda>k. map (\<lambda>l. \<lparr>plName = licenseName l\<rparr>) (childrenNamed ''license'' k)"
  have "foldl (\<lambda>pom k. pom\<lparr>pomLicenses := pomLicenses pom @ ?names k\<rparr>) pom ks
      = (pom :: mavenPOM)\<lparr>pomLicenses := pomLicenses pom @ concat (map ?names ks)\<rparr>" for pom ks
    by (induction ks arbitrary: pom) auto
  then show ?thesis
    unfolding unmarshalPOM_def pomLicenseNames_def
    by (subst unmarshalField_body[where upd = "\<lambda>k pom. pom\<lparr>pomLicenses := pomLicenses pom @ ?names k\<rparr>",
          OF consumes_licenses assms])
      (simp_all add: unmarshalLicenses_body map_concat comp_def)
qed

lemma tokens_document:
  assumes "xml_ok nt root" and "prolog \<in> {[], xml_Header}"
  shows "\<exists>pre. list_all (\<lambda>t. \<not> (\<exists>n as. t = StartElement n as)) pre
    \<and> xml_tokens nt (NewDecoder (prolog @ xml_Print root @ rest)) = pre @ xml_toks root @ toksFrom nt rest []"
proof -
  obtain u where u: "xml_Print root @ rest = CHR ''<'' # u"
    using xml_Print_hd[of root] by auto
  have root: "toksFrom nt (xml_Print root @ rest) [] = xml_toks root @ toksFrom nt rest []"
    by (rule tokens_Print(1)[OF assms(1)])
  have header: "toksFrom nt (xml_Header @ xml_Print root @ rest) [] =
      [ProcInst ''xml'' headerContent, CharData [CHR 0x0A]] @ toksFrom nt (xml_Print root @ rest) []"
    using tokens_Header[of nt u "[]"] u by simp
  show ?thesis
  proof (cases "prolog = []")
    case True
    then show ?thesis
      using root by (intro exI[of _ "[]"]) (simp add: NewDecoder_def toksFrom_def)
  next
    case False
    then have "prolog = xml_Header"
      using assms(2) by simp
    then show ?thesis
      using root header
      by (intro exI[of _ "[ProcInst ''xml'' headerContent, CharData [CHR 0x0A]]"]) (simp add: NewDecoder_def toksFrom_def)
  qed
qed

lemma unmarshalRoot_skips:
  "list_all (\<lambda>t. \<not> (\<exists>n as. t = StartElement n as)) pre \<Longrightarrow> unmarshalRoot dec v (pre @ ts) = unmarshalRoot dec v ts"
proof (induction pre)
  case (Cons t pre)
  then show ?case
    by (cases t) auto
qed simp


definition examplePOM :: xml where
  "examplePOM =
     XElem ''project'' [(''xmlns'', ''http://maven.apache.org/POM/4.0.0'')] [CHR 0x0A]
       [(XElem ''name'' [] ''demo & co'' [], []),
        (XElem ''licenses'' [] []
           [(XElem ''license'' [] [] [(XElem ''url'' [] [] [], []), (XElem ''m:name'' [] '' Apache '' [(XComment '' v2 '', ''License 2.0'')], [])], []),
            (XElem ''license'' [] [] [(XElem ''name'' [] ''MIT'' [], [])], [])], [])]"


end
