(* ===== verification/Spec2Isabelle.thy ===== *)
theory Spec2Isabelle
  imports Resolver_Properties Formats_Correct Lifecycle Authz Cleanup Snapshot Policy_Engine Replica Webhook Reporting Sbom Licensing_Maven
begin

text \<open>
  A model of parparchik, an artifact repository in front of S3 buckets, written in Go
  (\<^verbatim>\<open>src/golang\<close>).

  \<^bold>\<open>The program.\<close> A catalog in memory (\<^verbatim>\<open>internal/catalog\<close>) says which bucket owns a file key and under which
  route it is served. The resolver (\<^verbatim>\<open>internal/resolver\<close>) keeps the catalog in step with the buckets of the
  configuration (\<^verbatim>\<open>internal/config\<close>), reached through the \<^verbatim>\<open>Store\<close> interface (\<^verbatim>\<open>internal/objectstore\<close>), fills
  proxy buckets from upstream servers (\<^verbatim>\<open>internal/proxycache\<close>), and answers which entry a request path means.
  The HTTP surface (\<^verbatim>\<open>internal/httpapi\<close>, with the gauges of \<^verbatim>\<open>internal/metricsapi\<close>) checks keys and rates and calls
  the resolver; \<^verbatim>\<open>cmd/parparchik/main.go\<close> wires the parts and runs the bootstrap and the periodic sync beside
  the requests. The other packages are libraries over the same data: \<^verbatim>\<open>format\<close> (package name and route
  syntax), \<^verbatim>\<open>authz\<close>, \<^verbatim>\<open>cleanup\<close>, \<^verbatim>\<open>scan\<close>, \<^verbatim>\<open>license\<close>, \<^verbatim>\<open>policy\<close>, \<^verbatim>\<open>snapshot\<close>, \<^verbatim>\<open>replication\<close>, \<^verbatim>\<open>webhook\<close>, \<^verbatim>\<open>reporting\<close> and \<^verbatim>\<open>sbom\<close>.

  \<^bold>\<open>Theories and sources.\<close>
  \<^item> \<open>Prelude\<close>: Go's errors (\<^verbatim>\<open>errors.New\<close>, \<^verbatim>\<open>fmt.Errorf\<close> with its arguments and wrapped errors), maps as association
    lists with distinct keys, \<^verbatim>\<open>sort.Slice\<close>, 64-bit integers.
  \<^item> \<open>Go_Strings\<close>, \<open>Go_Time\<close>, \<open>Go_Json\<close>, \<open>Go_Indent\<close>, \<open>Go_Decode\<close>, \<open>Go_Csv\<close>, \<open>Go_Xml\<close>, \<open>Go_Http\<close>: what the sources use of the
    standard library, on byte strings: \<^verbatim>\<open>strings\<close>, \<^verbatim>\<open>utf8\<close>, \<^verbatim>\<open>strconv\<close>, \<^verbatim>\<open>time\<close>, \<^verbatim>\<open>encoding/json\<close> (printing compact and
    indented, parsing, decoding into structs with duplicate members and reused slices), \<^verbatim>\<open>encoding/csv\<close>, \<^verbatim>\<open>encoding/xml\<close> (the strict decoder),
    \<^verbatim>\<open>net/url\<close>, \<^verbatim>\<open>http.ServeMux\<close>.
  \<^item> \<open>Config\<close>: \<^verbatim>\<open>config.go\<close>; \<open>Load\<close> over an environment function.
  \<^item> \<open>Catalog\<close>, \<open>Catalog_Manifests\<close>: \<^verbatim>\<open>catalog.go\<close>; the record \<open>Catalog\<close> has the two indexes of the code and the two
    functions it is constructed with.
  \<^item> \<open>Objectstore\<close>: \<^verbatim>\<open>store.go\<close>, \<^verbatim>\<open>s3.go\<close>, the in-memory store of the tests, and \<^verbatim>\<open>proxycache/fetcher.go\<close>.
  \<^item> \<open>Resolver\<close>: every operation of \<^verbatim>\<open>resolver.go\<close>; \<open>Resolver_Catalog\<close>, \<open>Resolver_Storage\<close> and \<open>Resolver_Properties\<close>
    are its lemmas and properties.
  \<^item> \<open>Formats\<close>, \<open>Formats_Correct\<close>: \<^verbatim>\<open>format.go\<close> and the ten format packages.
  \<^item> \<open>Metricsapi\<close>, \<open>Httpapi\<close>, \<open>Httpapi_Correct\<close>, \<open>Server\<close>, \<open>Lifecycle\<close>: \<^verbatim>\<open>metrics.go\<close>, \<^verbatim>\<open>validation.go\<close>, \<^verbatim>\<open>middleware.go\<close>, \<^verbatim>\<open>api.go\<close>, \<^verbatim>\<open>main.go\<close>.
  \<^item> \<open>Authz\<close>, \<open>Cleanup\<close>, \<open>Scanning\<close>, \<open>Licensing\<close> with \<open>Licensing_Maven\<close>, \<open>Policy_Engine\<close>, \<open>Snapshot\<close>, \<open>Replication\<close> with \<open>Replica\<close>, \<open>Webhook\<close>, \<open>Reporting\<close>, \<open>Sbom\<close>: the
    packages \<^verbatim>\<open>authz\<close>, \<^verbatim>\<open>cleanup\<close>, \<^verbatim>\<open>scan\<close>, \<^verbatim>\<open>license\<close>, \<^verbatim>\<open>policy\<close>, \<^verbatim>\<open>snapshot\<close>, \<^verbatim>\<open>replication\<close>, \<^verbatim>\<open>webhook\<close>, \<^verbatim>\<open>reporting\<close>, \<^verbatim>\<open>sbom\<close>.
  \<^item> This theory: what an instance that replicates reads is what its peer's catalog holds, through the
    peer's routes and the wire format.

  \<^bold>\<open>State and effects.\<close> A struct is a record, with the fields of the code; a method returns its result and
  the changed record. Everything outside the process (buckets, upstream servers, the clock) is one value
  \<open>'w\<close>, the world, that the operations of a \<open>Store\<close>, a fetcher or a transport take and return; they may
  fail at any call. A method under a mutex is one atomic step. Where the code interleaves, the steps are
  an inductive relation and the properties hold for every run: \<open>cat_step\<close> (catalog operations),
  \<open>res_step\<close> (resolver operations), \<open>server_step\<close> (requests, bootstrap, sync ticks and rate limiter ticks,
  each handler a step), \<open>process_step\<close> (the same with the signal, the listening goroutine, the graceful
  shutdown and the return of \<^verbatim>\<open>run\<close>), \<open>fire_step\<close> (turns of concurrent webhook deliveries). In \<open>server_step\<close> a handler runs to
  its end before the next step; between the catalog operations of two handlers only the invariants of
  \<open>cat_step\<close> hold. An error is a value of the
  sum type, and every early return of the code is a branch. Sizes are 64-bit words; durations are
  integers with the saturation and wrap-around of the code written out. A string is a list of bytes.

  \<^bold>\<open>Interfaces.\<close> \<open>strict_weak_order\<close> (what \<^verbatim>\<open>sort.Slice\<close> needs of a comparison) is interpreted for the
  comparisons that the code sorts with; \<open>registry\<close> (what a lookup returns after each catalog
  operation) for the catalog; \<open>object_store\<close> (what a store promises) for the in-memory store, and proved of
  the S3 adapter for every SDK that behaves as documented; \<open>replica\<close>, which extends it by what a puller
  needs of its client, for the HTTP client; \<open>repository_format\<close> for the formats; \<open>codec\<close>
  (a parser and its printer) for the parsers of package references.

  \<^bold>\<open>What is shown.\<close>
  \<^item> Catalog: its indexes stay consistent in every reachable state, the route index is a function of the
    key index, and a sequence of registrations leaves the best-ranked registration as the owner.
  \<^item> Resolver: a route resolves only to a stored object that the route names; the sync registers every
    stored file under its first bucket; relocation consolidates; manifests survive a restart.
  \<^item> HTTP surface and server: requests without a key or before readiness are refused, redirects go to
    stored objects, the limiter isolates clients, runs keep the invariants, the bootstrap makes ready,
    and after a signal \<^verbatim>\<open>run\<close> returns, with an error exactly for the reasons the code names.
  \<^item> Object store and fetcher: refinement of the contract by the S3 adapter; only whole bodies are cached.
  \<^item> Formats: the parsers are exact inverses of the printed references and routes.
  \<^item> Cleanup: plans meet the limits and delete nothing without a reason; execution is exact.
  \<^item> Policy and scan: verdicts, waivers, audit, complete scanner answers.
  \<^item> Replication, webhooks: pulls account for every entry, store what they count and are idempotent, API keys are not sent on,
    deliveries terminate under every schedule with complete histories.
  \<^item> Licenses: the license read from a POM is the first one the tree of the document declares.
  \<^item> Documents: snapshots restore the catalog they were captured from; SBOM documents give back their
    components; reports are exact and their CSV export reads back.

  \<^bold>\<open>Bounds and fuel.\<close> Recursion over lists is structural. The JSON parser takes fuel, twice the length of
  the text and two, which the round trip theorems show to be enough; the CSV reader and the loop of
  \<^verbatim>\<open>time.ParseDuration\<close> take the length, and each round consumes a byte; the loop over an
  XML element takes the number of tokens left, each round reads one, and more fuel changes nothing. The redirects a client follows are
  bounded by ten, as in \<^verbatim>\<open>net/http\<close>. A delivery has at most \<open>maxAttempts\<close> turns.

  \<^bold>\<open>Parameters.\<close> The S3 SDK, HTTP clients and transports, the token buckets of \<^verbatim>\<open>golang.org/x/time/rate\<close>, the
  parsing of floats in durations, the case of letters outside ASCII, the non-ASCII characters of XML names, HMAC-SHA256, the text of a timestamp
  in the local time zone, the environment and the clock.

  \<^bold>\<open>Not modelled.\<close> Sockets and the time limits of contexts; the Prometheus text of the gauges; the log
  output. The errors of the JSON decoder are one constant, and so are those of the XML decoder. The
  nesting limits of the two decoders (10000) are left out.
\<close>

section \<open>A replica reads the catalog of its peer\<close>

lemma list_top:
  fixes lib :: "'l rate_lib"
  assumes "rqMethod r = ''GET''" and "rqEscapedPath r = ''/list''"
  shows "findHandler (topPatterns lib :: ('w, 'l) handler pattern list) r = MuxFound (protected lib) (r\<lparr>rqPathValues := []\<rparr>)"
proof -
  have c: "cleanPath ''/list'' = ''/list''" and f: "firstSegment ''/list'' = (''list'', [])" by code_simp+
  let ?T = "topPatterns lib :: ('w, 'l) handler pattern list"
  have "matchPath (methodPatterns ''GET'' ?T) ''/list'' [] = None"
    unfolding matchPath_one [OF f, simplified]
    by (simp add: methodPatterns_def topPatterns_def litChild_def wildChild_def multiChild_def leafOf_def List.map_filter_def)
  moreover have "matchPath (methodPatterns [] ?T) ''/list'' [] = Some (\<lparr>patMethod = [], patSegs = [Multi []], patHandler = protected lib\<rparr>, [])"
    unfolding matchPath_one [OF f, simplified]
    by (simp add: methodPatterns_def topPatterns_def litChild_def wildChild_def multiChild_def leafOf_def List.map_filter_def)
  ultimately have m: "matchMethodAndPath ?T ''GET'' ''/list'' = Some (\<lparr>patMethod = [], patSegs = [Multi []], patHandler = protected lib\<rparr>, [])"
    by (auto simp: matchMethodAndPath_def orElse_def)
  have f': "firstSegment ''/list/'' = (''list'', ''/'')" by code_simp
  have "matchPath (methodPatterns k ?T) ''/list/'' [] =
      (if k = [] then Some (\<lparr>patMethod = [], patSegs = [Multi []], patHandler = protected lib\<rparr>, []) else None)" for k
    unfolding matchPath.simps [of _ "''/list/''"] f'
    by (auto simp: methodPatterns_def topPatterns_def litChild_def wildChild_def multiChild_def leafOf_def matchPath.simps [of "[]"] List.map_filter_def)
  then have m': "matchMethodAndPath ?T ''GET'' ''/list/'' = Some (\<lparr>patMethod = [], patSegs = [Multi []], patHandler = protected lib\<rparr>, [])"
    by (auto simp: matchMethodAndPath_def orElse_def)
  show ?thesis using assms c m m'
    by (auto simp: findHandler_def Let_def exactMatch_def isMulti_def wildNames_def List.map_filter_def)
qed

lemma list_api:
  assumes "rqMethod r = ''GET''" and "rqEscapedPath r = ''/list''"
  shows "findHandler (apiPatterns :: ('w, 'l) handler pattern list) r = MuxFound (requireReady handleList) (r\<lparr>rqPathValues := []\<rparr>)"
proof -
  have c: "cleanPath ''/list'' = ''/list''" and f: "firstSegment ''/list'' = (''list'', [])" by code_simp+
  let ?T = "apiPatterns :: ('w, 'l) handler pattern list"
  have "matchPath (methodPatterns ''GET'' ?T) ''/list'' [] = Some (\<lparr>patMethod = ''GET'', patSegs = [Lit ''list''], patHandler = requireReady handleList\<rparr>, [])"
    unfolding matchPath_one [OF f, simplified]
    by (simp add: methodPatterns_def apiPatterns_def litChild_def wildChild_def multiChild_def leafOf_def List.map_filter_def)
  then have "matchMethodAndPath ?T ''GET'' ''/list'' = Some (\<lparr>patMethod = ''GET'', patSegs = [Lit ''list''], patHandler = requireReady handleList\<rparr>, [])"
    by (auto simp: matchMethodAndPath_def orElse_def)
  then show ?thesis using assms c
    by (auto simp: findHandler_def Let_def exactMatch_def isMulti_def wildNames_def List.map_filter_def)
qed

text \<open>A request for the listing that is answered at all is answered with the sorted catalog.\<close>

lemma Routes_list:
  assumes "rqMethod r = ''GET''" and "rqEscapedPath r = ''/list''" and "Routes lib r a = (JSONReply 200 members, a')"
  shows "members = [(''count'', JNum (FormatInt (int (length (ListAll (aCatalog a)))))), (''files'', JArr (map encodeEntry (ListAll (aCatalog a))))]"
proof -
  let ?r = "r\<lparr>rqPathValues := []\<rparr>"
  have p: "protected lib ?r a = (JSONReply 200 members, a')"
    using assms(3) by (simp add: Routes_def ServeMux_def list_top [OF assms(1,2)])
  have "findHandler (apiPatterns :: ('a, 'b) handler pattern list) ?r = MuxFound (requireReady handleList) ?r"
    using list_api [of ?r] assms(1,2) by simp
  then have m: "ServeMux apiPatterns ?r b = requireReady handleList ?r b" for b :: "('a, 'b) API" by (simp add: ServeMux_def)
  show ?thesis using p
  proof (cases rule: protected_cases [of lib ?r a])
    case (passed l)
    with p m show ?thesis by (auto simp: requireReady_def handleList_def writeJSON_def aCatalog_def Let_def split: if_splits)
  qed auto
qed

lemma json_Parse_object_line:
  assumes "json_ok (JObj kvs)" shows "json_Parse (json_Print (JObj kvs) @ [CHR 0x0A]) = Some (JObj kvs)"
proof (cases kvs)
  case Nil
  have "json_Parse (''{}'' @ [CHR 0x0A]) = Some (JObj [])" by code_simp
  with Nil show ?thesis by simp
next
  case (Cons kv rest)
  let ?s = "json_PrintMembers kvs @ [CHR 0x0A]"
  obtain k v where kv: "kv = (k, v)" by (cases kv)
  have "parseMembers n ?s = Some (kvs, [CHR 0x0A])" if "2 * length (json_PrintMembers kvs) \<le> n" for n
    using roundtrip_gen(3) [of kvs n "[CHR 0x0A]"] assms that Cons by auto
  moreover have nh: "\<not> HasPrefix (skipWs ?s) ''}''"
    by (cases rest) (auto simp: Cons kv json_String_def HasPrefix_def skipWs_def isWs_def)
  moreover have "parseValue (Suc m) (CHR ''{'' # ?s) = map_option (\<lambda>(kvs, q). (JObj kvs, q)) (parseMembers m ?s)" for m
    using nh by (simp add: skipWs_def [of "CHR ''{'' # ?s"] isWs_def del: parseMembers.simps)
  moreover obtain m where "2 * length (CHR ''{'' # ?s) + 2 = Suc m" and "2 * length (json_PrintMembers kvs) \<le> m" by simp
  moreover have "skipWs [CHR 0x0A] = []" by code_simp
  ultimately show ?thesis by (simp add: json_Parse_def del: parseValue.simps parseMembers.simps list.size)
qed

text \<open>
  C26. The interfaces of two instances fit: when a peer answers the replica's request for \<^verbatim>\<open>/list\<close> with 200, the
  manifest the replica reads from the wire is exactly the peer's catalog listing, entry for entry, provided
  the keys are valid UTF-8 and the answer is within the replica's size limit.
\<close>

theorem replica_reads_peer_catalog:
  assumes "rqMethod r = ''GET''" and "rqEscapedPath r = ''/list''" and "Routes lib r peer = (JSONReply 200 members, peer')"
    and "\<forall>e \<in> set (ListAll (aCatalog peer)). entry_utf8 e"
    and "tNewRequest (hcClient c) (TrimRight (hcBaseURL c) (CHR ''/'') @ ''/list'') = None"
    and "tRoundTrip (hcClient c) (TrimRight (hcBaseURL c) (CHR ''/'') @ ''/list'') (hcAPIKey c) w =
      (Inr \<lparr>hrStatus = 200, hrBody = jsonBody members, hrBodyErr = None, hrContentType = ct, rdLocation = loc\<rparr>, w')"
    and "int (length (jsonBody members)) \<le> sint (maxBodyBytes c)" and "sint (maxBodyBytes c) < max64"
  shows "FetchManifest c w = (Inr (ListAll (aCatalog peer)), w')"
proof -
  let ?es = "ListAll (aCatalog peer)"
  let ?kvs = "[(''count'', JNum (FormatInt (int (length ?es)))), (''files'', JArr (map encodeEntry ?es))]"
  have sorted: "sort_slice (\<lambda>a b. fst a < fst b) ?kvs = ?kvs"
  proof -
    have "\<not> (''files'' < ''count'')" by code_simp
    then show ?thesis by (simp add: sort_slice_def)
  qed
  have body: "jsonBody members = json_Print (JObj ?kvs) @ [CHR 0x0A]"
    unfolding jsonBody_def Routes_list [OF assms(1-3)] sorted ..
  have u: "utf8_ok ''count''" and nf: "\<not> keyIs ''count'' ''files''" by code_simp+
  have "json_ok (JObj ?kvs)" using assms(4) u by (auto simp: json_ok_encodeEntry)
  then have d: "decodeListResponse (jsonBody members) = Some ?es"
    unfolding decodeListResponse_def body json_Parse_object_line [OF \<open>json_ok _\<close>] by (simp add: nf decodeEntries_slice)
  let ?resp = "\<lparr>hrStatus = 200, hrBody = jsonBody members, hrBodyErr = None, hrContentType = ct, rdLocation = loc\<rparr>"
  have pos: "0 < sint (maxBodyBytes c)"
    by (auto simp: maxBodyBytes_def lt64_def) code_simp
  have "readBody ?resp (maxBodyBytes c) = Inr (jsonBody members)"
    using conjunct1 [OF iffD2 [OF readLimited_whole_iff [OF pos assms(8)]], of "jsonBody members" "http_response.truncate ?resp"]
      conjunct2 [OF iffD2 [OF readLimited_whole_iff [OF pos assms(8)]], of "jsonBody members" "http_response.truncate ?resp"] assms(7)
    by (simp add: readBody_def http_response.defs redirect_response.defs)
  moreover have "client_Do (hcClient c) defaultRedirects (TrimRight (hcBaseURL c) (CHR ''/'') @ ''/list'') (hcAPIKey c) w = (Inr ?resp, w')"
    using assms(6) by (simp add: client_Do.simps isRedirect_def)
  ultimately show ?thesis using assms(5) d by (simp add: FetchManifest_def Let_def)
qed

definition witness_list :: "(string \<times> json) list" where
  "witness_list = (case fst (Routes witness_lib (get ''/list'' ''/list'' []) (bootstrap witness_server)) of JSONReply n members \<Rightarrow> members | _ \<Rightarrow> [])"

definition witness_replica :: "unit HTTPClient" where
  "witness_replica = \<lparr>hcBaseURL = ''http://peer/'', hcAPIKey = [],
     hcClient = \<lparr>tNewRequest = (\<lambda>u. None),
       tRoundTrip = (\<lambda>u k w. (Inr \<lparr>hrStatus = 200, hrBody = jsonBody witness_list, hrBodyErr = None, hrContentType = ''application/json'', rdLocation = []\<rparr>, w)),
       tResolve = (\<lambda>b l. Inr l)\<rparr>,
     hcMaxBodyBytes = 0\<rparr>"

theorem replica_reads_peer_catalog_witness:
  "FetchManifest witness_replica () = (Inr (ListAll (aCatalog (bootstrap witness_server))), ()) \<and>
   map eKey (ListAll (aCatalog (bootstrap witness_server))) = [''b'']"
proof -
  let ?r = "get ''/list'' ''/list'' []"
  have "case fst (Routes witness_lib ?r (bootstrap witness_server)) of JSONReply n members \<Rightarrow> n = 200 | _ \<Rightarrow> False" by code_simp
  then obtain peer' where routes: "Routes witness_lib ?r (bootstrap witness_server) = (JSONReply 200 witness_list, peer')"
    by (cases "Routes witness_lib ?r (bootstrap witness_server)") (auto simp: witness_list_def split: reply.splits)
  have r: "rqMethod ?r = ''GET''" "rqEscapedPath ?r = ''/list''" by (simp_all add: get_def)
  have e: "\<forall>e \<in> set (ListAll (aCatalog (bootstrap witness_server))). entry_utf8 e"
    and k: "map eKey (ListAll (aCatalog (bootstrap witness_server))) = [''b'']" by code_simp+
  have "int (length (jsonBody witness_list)) \<le> 1000" by code_simp
  moreover have m: "sint (maxBodyBytes witness_replica) = 2 ^ 30" by code_simp
  ultimately have l: "int (length (jsonBody witness_list)) \<le> sint (maxBodyBytes witness_replica)" "sint (maxBodyBytes witness_replica) < max64"
    by (simp_all add: max64_def)
  from replica_reads_peer_catalog [OF r routes e _ _ l] k show ?thesis by (simp add: witness_replica_def)
qed

end
